(* ===== verification/Prelude.thy ===== *)
theory Prelude
  imports Main "HOL-Library.Word" "HOL-Library.Sublist" "HOL-Library.Code_Target_Nat"
begin

text \<open>
  Shared vocabulary of the development: the program's error type (\<^verbatim>\<open>src/src/error.rs\<close>),
  results as sums, and the operations of Rust's \<^verbatim>\<open>str\<close> and integer parsing that the
  sources use.

  A Rust \<^verbatim>\<open>String\<close> is its UTF-8 bytes: a \<^typ>\<open>string\<close>, one \<^typ>\<open>char\<close> per byte.
  Every operation the sources apply to strings works on whole bytes of the ASCII range, or on
  white space, whose UTF-8 encodings \<open>ws_len\<close> lists.
\<close>

named_theorems text_simps \<open>evaluation of the string operations\<close>
named_theorems result_simps \<open>case analysis of results\<close>

section \<open>Errors and results\<close>

text \<open>
  The errors of \<^verbatim>\<open>Error\<close>, constructor for constructor. A message built by
  \<^verbatim>\<open>format!\<close> is represented by one literal fragment of its format string, which
  identifies the raising branch; the interpolated values are left out unless the variant carries
  them as data. \<open>Diverged\<close> is not an error of the program: it marks a run of the model whose
  loop did not end within the fuel considered. \<open>Panicked\<close> ends the process where printing fails
  (\<^verbatim>\<open>println!\<close> panics). An \<open>errno\<close> is the reason the operating system or a library gives.
\<close>

datatype errno = EPERM | ENOENT | EACCES | EBUSY | ECHILD | EPIPE | EOVERFLOW | EOTHER nat

datatype error =
    NotFound string
  | AlreadyExists string
  | InvalidId string
  | BadState string string string
  | MissingConfig string
  | SpecField string
  | Invalid string
  | OverlayErr string
  | RootfsMissing string
  | ExecutableNotFound string
  | NulByte string
  | InitFailed string
  | SyncErr string
  | SyncClosed
  | OutOfScope string
  | Unimplemented string
  | NoCgroupV2
  | IoErr string errno
  | NixErr string errno
  | JsonErr
  | SyscallErr errno
  | SpecErr
  | Diverged
  | Panicked

type_synonym 'a res = "error + 'a"

text \<open>The \<^verbatim>\<open>?\<close> operator and its iteration over a list.\<close>

definition and_then :: "'e + 'a \<Rightarrow> ('a \<Rightarrow> 'e + 'b) \<Rightarrow> 'e + 'b" where
  "and_then r f = (case r of Inl e \<Rightarrow> Inl e | Inr x \<Rightarrow> f x)"

lemma and_then_simps [simp]:
  "and_then (Inl e) f = Inl e" "and_then (Inr x) f = f x"
  by (simp_all add: and_then_def)

lemma and_then_Inr_iff [result_simps]:
  "and_then r f = Inr y \<longleftrightarrow> (\<exists>x. r = Inr x \<and> f x = Inr y)"
  by (cases r) auto

lemma and_then_Inl_iff:
  "and_then r f = Inl e \<longleftrightarrow> r = Inl e \<or> (\<exists>x. r = Inr x \<and> f x = Inl e)"
  by (cases r) auto

fun map_res :: "('a \<Rightarrow> 'e + 'b) \<Rightarrow> 'a list \<Rightarrow> 'e + 'b list" where
  "map_res f [] = Inr []"
| "map_res f (x # xs) = and_then (f x) (\<lambda>y. and_then (map_res f xs) (\<lambda>ys. Inr (y # ys)))"

fun each_res :: "('a \<Rightarrow> 'e + unit) \<Rightarrow> 'a list \<Rightarrow> 'e + unit" where
  "each_res f [] = Inr ()"
| "each_res f (x # xs) = and_then (f x) (\<lambda>_. each_res f xs)"

lemma each_res_Inr_iff [result_simps]:
  "each_res f xs = Inr () \<longleftrightarrow> (\<forall>x \<in> set xs. f x = Inr ())"
  by (induction xs) (auto simp: result_simps)

lemma map_res_Inr_iff:
  "map_res f xs = Inr ys \<longleftrightarrow> list_all2 (\<lambda>x y. f x = Inr y) xs ys"
  by (induction xs arbitrary: ys) (auto simp: result_simps list_all2_Cons1)

lemma map_res_total:
  "(\<And>x. x \<in> set xs \<Longrightarrow> f x = Inr (g x)) \<Longrightarrow> map_res f xs = Inr (map g xs)"
  by (induction xs) auto

lemma map_res_Inl:
  "map_res f xs = Inl e \<Longrightarrow> \<exists>x \<in> set xs. f x = Inl e"
  by (induction xs) (auto simp: and_then_Inl_iff)

definition guard_res :: "bool \<Rightarrow> 'e \<Rightarrow> 'e + unit" where
  "guard_res bad e = (if bad then Inl e else Inr ())"

lemma guard_res_Inr_iff [result_simps]: "guard_res b e = Inr () \<longleftrightarrow> \<not> b"
  by (simp add: guard_res_def)

lemma guard_res_simps [simp]: "guard_res True e = Inl e" "guard_res False e = Inr ()"
  by (simp_all add: guard_res_def)


definition ok_or :: "'a option \<Rightarrow> 'e \<Rightarrow> 'e + 'a" where
  "ok_or x e = (case x of None \<Rightarrow> Inl e | Some y \<Rightarrow> Inr y)"

lemma ok_or_simps [simp]: "ok_or None e = Inl e" "ok_or (Some y) e = Inr y"
  by (simp_all add: ok_or_def)

lemma ok_or_Inr_iff [result_simps]: "ok_or x e = Inr y \<longleftrightarrow> x = Some y"
  by (cases x) auto

definition get_or :: "'a \<Rightarrow> 'a option \<Rightarrow> 'a" where
  "get_or d x = (case x of None \<Rightarrow> d | Some y \<Rightarrow> y)"

lemma get_or_simps [simp]: "get_or d None = d" "get_or d (Some y) = y"
  by (simp_all add: get_or_def)

end
