(* ===== verification/Text.thy ===== *)
theory Text
  imports Prelude
begin

text \<open>
  The operations of Rust's \<^verbatim>\<open>str\<close> and of its integer parsing and formatting that the
  sources call: splitting, trimming, \<^verbatim>\<open>lines\<close>, \<^verbatim>\<open>parse::<u64>\<close>,
  \<^verbatim>\<open>parse::<i32>\<close>, decimal display. The round trip of decimal text and the laws of
  splitting are the facts the components use.
\<close>

section \<open>Splitting and joining\<close>

fun split_on :: "char \<Rightarrow> string \<Rightarrow> string list" where
  "split_on c [] = [[]]"
| "split_on c (x # xs) =
     (if x = c then [] # split_on c xs
      else (case split_on c xs of [] \<Rightarrow> [[x]] | p # ps \<Rightarrow> (x # p) # ps))"

fun join_with :: "string \<Rightarrow> string list \<Rightarrow> string" where
  "join_with sep [] = []"
| "join_with sep [x] = x"
| "join_with sep (x # y # ys) = x @ sep @ join_with sep (y # ys)"

lemma split_on_not_Nil [simp]: "split_on c xs \<noteq> []"
  by (induction xs) (auto split: list.splits)

lemma join_split_on [simp]: "join_with [c] (split_on c xs) = xs"
proof (induction xs)
  case (Cons x xs)
  then show ?case
    by (cases "split_on c xs"; cases "tl (split_on c xs)") (auto split: list.splits)
qed simp

lemma split_on_free: "c \<notin> set xs \<Longrightarrow> split_on c xs = [xs]"
  by (induction xs) auto

lemma split_on_append:
  "split_on c (xs @ c # ys) = split_on c xs @ split_on c ys"
  by (induction xs) (auto split: list.splits)

lemma split_on_parts_free: "p \<in> set (split_on c xs) \<Longrightarrow> c \<notin> set p"
  by (induction xs arbitrary: p) (auto split: list.splits if_splits)

lemma split_on_part_chars: "p \<in> set (split_on c xs) \<Longrightarrow> set p \<subseteq> set xs"
proof (induction xs arbitrary: p)
  case (Cons x xs)
  then show ?case
    by (fastforce split: list.splits if_splits)
qed simp

lemma split_on_join:
  "xs \<noteq> [] \<Longrightarrow> \<forall>x \<in> set xs. c \<notin> set x \<Longrightarrow> split_on c (join_with [c] xs) = xs"
proof (induction "[c]" xs rule: join_with.induct)
  case (3 x y ys)
  then show ?case
    by (simp add: split_on_append split_on_free)
qed (auto simp: split_on_free)

definition split_once :: "char \<Rightarrow> string \<Rightarrow> (string \<times> string) option" where
  "split_once c s = (if c \<in> set s
     then Some (takeWhile (\<lambda>x. x \<noteq> c) s, tl (dropWhile (\<lambda>x. x \<noteq> c) s)) else None)"

definition replace_char :: "char \<Rightarrow> string \<Rightarrow> string \<Rightarrow> string" where
  "replace_char c r s = concat (map (\<lambda>x. if x = c then r else [x]) s)"

lemma replace_char_simps [simp]:
  "replace_char c r [] = []"
  "replace_char c r (x # xs) = (if x = c then r else [x]) @ replace_char c r xs"
  by (simp_all add: replace_char_def)

definition strip_prefix :: "string \<Rightarrow> string \<Rightarrow> string option" where
  "strip_prefix p s = (if take (length p) s = p then Some (drop (length p) s) else None)"

definition strip_suffix :: "string \<Rightarrow> string \<Rightarrow> string option" where
  "strip_suffix p s = map_option rev (strip_prefix (rev p) (rev s))"

lemma strip_prefix_Some_iff: "strip_prefix p s = Some r \<longleftrightarrow> s = p @ r"
  by (auto simp: strip_prefix_def) (metis append_take_drop_id)

lemma strip_suffix_Some_iff: "strip_suffix p s = Some r \<longleftrightarrow> s = r @ p"
  by (auto simp: strip_suffix_def strip_prefix_Some_iff)
    (metis rev_append rev_rev_ident)

section \<open>White space\<close>

text \<open>
  The number of bytes of the white-space character (Unicode \<^verbatim>\<open>White_Space\<close>, what
  Rust's \<^verbatim>\<open>trim\<close> and \<^verbatim>\<open>split_whitespace\<close> test) that a text starts with, 0 when it
  starts with none.
\<close>

definition ws_len :: "string \<Rightarrow> nat" where
  "ws_len s = (case map of_char (take 3 s) :: nat list of
      [] \<Rightarrow> 0
    | a # r \<Rightarrow> if 9 \<le> a \<and> a \<le> 13 \<or> a = 32 then 1 else
       (case r of [] \<Rightarrow> 0
        | b # r' \<Rightarrow> if a = 194 \<and> (b = 133 \<or> b = 160) then 2 else
           (case r' of [] \<Rightarrow> 0
            | c # _ \<Rightarrow> if a = 225 \<and> b = 154 \<and> c = 128
                       \<or> a = 226 \<and> b = 128 \<and> (128 \<le> c \<and> c \<le> 138 \<or> c = 168 \<or> c = 169 \<or> c = 175)
                       \<or> a = 226 \<and> b = 129 \<and> c = 159
                       \<or> a = 227 \<and> b = 128 \<and> c = 128 then 3 else 0)))"

definition ws_len_end :: "string \<Rightarrow> nat" where
  "ws_len_end s = (let n = length s in
     if 1 \<le> n \<and> ws_len (drop (n - 1) s) = 1 then 1
     else if 2 \<le> n \<and> ws_len (drop (n - 2) s) = 2 then 2
     else if 3 \<le> n \<and> ws_len (drop (n - 3) s) = 3 then 3 else 0)"

lemma ws_len_Nil [simp]: "ws_len [] = 0"
  by (simp add: ws_len_def)

lemma ws_len_end_Nil [simp]: "ws_len_end [] = 0"
  by (simp add: ws_len_end_def)

function trim_start :: "string \<Rightarrow> string" where
  "trim_start s = (if s = [] \<or> ws_len s = 0 then s else trim_start (drop (ws_len s) s))"
  by pat_completeness auto
termination by (relation "measure length") auto

function trim_end :: "string \<Rightarrow> string" where
  "trim_end s = (if s = [] \<or> ws_len_end s = 0 then s
                 else trim_end (take (length s - ws_len_end s) s))"
  by pat_completeness auto
termination by (relation "measure length") auto

declare trim_start.simps [simp del] trim_end.simps [simp del]

definition trim :: "string \<Rightarrow> string" where
  "trim s = trim_end (trim_start s)"

text \<open>The loop of \<^verbatim>\<open>split_whitespace\<close>: \<open>cur\<close> is the current word, reversed.\<close>

function words_from :: "string \<Rightarrow> string \<Rightarrow> string list" where
  "words_from cur s =
     (case s of
        [] \<Rightarrow> if cur = [] then [] else [rev cur]
      | c # r \<Rightarrow>
          if ws_len s = 0 then words_from (c # cur) r
          else (if cur = [] then [] else [rev cur]) @ words_from [] (drop (ws_len s) s))"
  by pat_completeness auto
termination by (relation "measure (\<lambda>(cur, s). length s)") auto

declare words_from.simps [simp del]

definition split_whitespace :: "string \<Rightarrow> string list" where
  "split_whitespace s = words_from [] s"

text \<open>\<^verbatim>\<open>str::lines\<close>: a line ends at a newline, and one carriage return before it is dropped.\<close>

definition drop_cr :: "string \<Rightarrow> string" where
  "drop_cr l = (if l \<noteq> [] \<and> last l = CHR 0x0D then butlast l else l)"

definition str_lines :: "string \<Rightarrow> string list" where
  "str_lines s = (let ps = split_on (CHR 0x0A) s in
     map drop_cr (butlast ps) @ (if last ps = [] then [] else [last ps]))"

section \<open>Decimal numbers\<close>

definition digit_char :: "nat \<Rightarrow> char" where
  "digit_char d = char_of (48 + d)"

definition digit_val :: "char \<Rightarrow> nat option" where
  "digit_val c = (let n = of_char c in if 48 \<le> n \<and> n \<le> 57 then Some (n - 48) else None)"

fun dec_text :: "nat \<Rightarrow> string" where
  "dec_text n = (if n < 10 then [digit_char n] else dec_text (n div 10) @ [digit_char (n mod 10)])"

declare dec_text.simps [simp del]

definition int_text :: "int \<Rightarrow> string" where
  "int_text i = (if i < 0 then CHR ''-'' # dec_text (nat (- i)) else dec_text (nat i))"

text \<open>The width specifier \<^verbatim>\<open>:0w\<close> for a non-negative number.\<close>

definition zero_pad :: "nat \<Rightarrow> string \<Rightarrow> string" where
  "zero_pad w s = replicate (w - length s) (CHR ''0'') @ s"

fun digits_val :: "nat \<Rightarrow> string \<Rightarrow> nat option" where
  "digits_val acc [] = Some acc"
| "digits_val acc (c # cs) =
     (case digit_val c of None \<Rightarrow> None | Some d \<Rightarrow> digits_val (10 * acc + d) cs)"

text \<open>
  \<^verbatim>\<open>parse\<close> for an unsigned type whose values are below \<open>bound\<close>: one leading plus sign
  is accepted, an empty digit string, a foreign character and an overflow are errors. For a
  signed type a leading minus sign is accepted as well and the lower bound is \<open>- bound\<close>.
\<close>

definition parse_unsigned :: "nat \<Rightarrow> string \<Rightarrow> nat option" where
  "parse_unsigned bound s =
     (let t = (case s of c # r \<Rightarrow> if c = CHR ''+'' then r else s | [] \<Rightarrow> [])
      in if t = [] then None
         else case digits_val 0 t of None \<Rightarrow> None
              | Some n \<Rightarrow> if n < bound then Some n else None)"

definition parse_signed :: "nat \<Rightarrow> string \<Rightarrow> int option" where
  "parse_signed bound s =
     (case s of
        c # r \<Rightarrow> if c = CHR ''-'' then
                  (if r = [] then None
                   else case digits_val 0 r of None \<Rightarrow> None
                        | Some n \<Rightarrow> if n \<le> bound then Some (- int n) else None)
                else map_option int (parse_unsigned bound s)
      | [] \<Rightarrow> None)"

abbreviation u16_bound :: nat where "u16_bound \<equiv> 2 ^ 16"
abbreviation u32_bound :: nat where "u32_bound \<equiv> 2 ^ 32"
abbreviation u64_bound :: nat where "u64_bound \<equiv> 2 ^ 64"
abbreviation i32_bound :: nat where "i32_bound \<equiv> 2 ^ 31"
abbreviation i64_bound :: nat where "i64_bound \<equiv> 2 ^ 63"

lemma of_digit_char [simp]: "d < 10 \<Longrightarrow> of_char (digit_char d) = (48 + d :: nat)"
  by (simp add: digit_char_def)

lemma digit_val_char [simp]: "d < 10 \<Longrightarrow> digit_val (digit_char d) = Some d"
  by (simp add: digit_val_def)

lemma digit_val_Some: "digit_val c = Some d \<Longrightarrow> d < 10 \<and> c = digit_char d"
  by (auto simp: digit_val_def digit_char_def Let_def split: if_splits)

lemma digits_val_append:
  "digits_val a (xs @ ys) = (case digits_val a xs of None \<Rightarrow> None | Some b \<Rightarrow> digits_val b ys)"
  by (induction xs arbitrary: a) (auto split: option.splits)

lemma dec_text_not_Nil [simp]: "dec_text n \<noteq> []"
  by (subst dec_text.simps) simp

lemma dec_text_chars:
  "c \<in> set (dec_text n) \<Longrightarrow> \<exists>d < 10. c = digit_char d"
proof (induction n rule: dec_text.induct)
  case (1 n)
  show ?case
  proof (cases "n < 10")
    case True
    with "1.prems" show ?thesis by (subst (asm) dec_text.simps) auto
  next
    case False
    with "1.prems" have "c \<in> set (dec_text (n div 10)) \<or> c = digit_char (n mod 10)"
      by (subst (asm) dec_text.simps) auto
    moreover have "n mod 10 < 10" by simp
    ultimately show ?thesis using "1.IH" [OF False] by blast
  qed
qed

lemma dec_text_no: "of_char c < (48::nat) \<or> 57 < (of_char c :: nat) \<Longrightarrow> c \<notin> set (dec_text n)"
  using dec_text_chars by fastforce

lemma digits_val_dec_text: "digits_val 0 (dec_text n) = Some n"
proof (induction n rule: dec_text.induct)
  case (1 n)
  show ?case
  proof (cases "n < 10")
    case True
    then show ?thesis by (subst dec_text.simps) simp
  next
    case False
    with "1" show ?thesis by (subst dec_text.simps) (simp add: digits_val_append)
  qed
qed

lemma parse_unsigned_dec_text [simp]: "n < bound \<Longrightarrow> parse_unsigned bound (dec_text n) = Some n"
proof -
  assume n: "n < bound"
  obtain c r where cr: "dec_text n = c # r" by (cases "dec_text n") auto
  then have "c \<noteq> CHR ''+''" using dec_text_no [of "CHR ''+''" n] by auto
  with cr n digits_val_dec_text [of n] show ?thesis
    by (simp add: parse_unsigned_def)
qed

lemma parse_unsigned_bound: "parse_unsigned bound s = Some n \<Longrightarrow> n < bound"
  by (auto simp: parse_unsigned_def Let_def split: option.splits if_splits)

lemma parse_unsigned_Nil [simp]: "parse_unsigned bound [] = None"
  by (simp add: parse_unsigned_def)

lemma parse_signed_Nil [simp]: "parse_signed bound [] = None"
  by (simp add: parse_signed_def)

lemma parse_signed_int_text [simp]:
  assumes "- int bound \<le> i" "i < int bound"
  shows "parse_signed bound (int_text i) = Some i"
proof (cases "i < 0")
  case True
  with assms show ?thesis
    by (simp add: int_text_def parse_signed_def digits_val_dec_text)
next
  case False
  obtain c r where cr: "dec_text (nat i) = c # r" by (cases "dec_text (nat i)") auto
  then have "c \<noteq> CHR ''-''" using dec_text_no [of "CHR ''-''" "nat i"] by auto
  with False cr assms parse_unsigned_dec_text [of "nat i" bound] show ?thesis
    by (simp add: int_text_def parse_signed_def)
qed

section \<open>Character classes\<close>

definition is_ascii_alphanumeric :: "char \<Rightarrow> bool" where
  "is_ascii_alphanumeric c = (let n = of_char c :: nat in
     48 \<le> n \<and> n \<le> 57 \<or> 65 \<le> n \<and> n \<le> 90 \<or> 97 \<le> n \<and> n \<le> 122)"

definition ascii_upper :: "char \<Rightarrow> char" where
  "ascii_upper c = (let n = of_char c :: nat in if 97 \<le> n \<and> n \<le> 122 then char_of (n - 32) else c)"

definition to_ascii_uppercase :: "string \<Rightarrow> string" where
  "to_ascii_uppercase s = map ascii_upper s"

section \<open>Plain text\<close>

text \<open>Texts of printable ASCII characters other than space, which trimming leaves alone.\<close>

definition plain_char :: "char \<Rightarrow> bool" where
  "plain_char c \<longleftrightarrow> 32 < (of_char c :: nat) \<and> (of_char c :: nat) < 128"

lemma ws_len_plain: "list_all plain_char s \<Longrightarrow> ws_len s = 0"
  by (cases s; cases "tl s"; cases "tl (tl s)") (auto simp: ws_len_def plain_char_def)

lemma trim_plain:
  assumes "list_all plain_char s"
  shows "trim s = s"
proof -
  have "ws_len (drop k s) = 0" for k
    by (rule ws_len_plain) (use assms in \<open>auto simp: list_all_iff dest: in_set_dropD\<close>)
  then have "ws_len s = 0" "ws_len_end s = 0" by (auto simp: ws_len_end_def ws_len_plain assms)
  then show ?thesis by (simp add: trim_def trim_start.simps trim_end.simps)
qed

lemma plain_int_text: "list_all plain_char (int_text n)"
  using dec_text_chars
  by (fastforce simp: int_text_def list_all_iff plain_char_def)

lemma plain_dec_text: "list_all plain_char (dec_text n)"
  using plain_int_text [of "int n"] by (simp add: int_text_def)

text \<open>The words of a text in which plain words are separated by single spaces.\<close>

lemma words_plain: "list_all plain_char w \<Longrightarrow> words_from cur (w @ s) = words_from (rev w @ cur) s"
proof (induction w arbitrary: cur)
  case (Cons c w)
  have "ws_len (c # w @ s) = 0"
    using Cons.prems by (cases "w @ s"; cases "tl (w @ s)") (auto simp: ws_len_def plain_char_def)
  with Cons show ?case by (simp add: words_from.simps [of cur "c # w @ s"])
qed simp

lemma words_space: "words_from cur (CHR '' '' # s) = (if cur = [] then [] else [rev cur]) @ words_from [] s"
proof -
  have "ws_len (CHR '' '' # s) = 1" by (simp add: ws_len_def)
  then show ?thesis by (simp add: words_from.simps [of cur "CHR '' '' # s"])
qed

lemma words_end: "words_from cur [] = (if cur = [] then [] else [rev cur])"
  by (simp add: words_from.simps)

lemma split_whitespace_plain:
  "list_all plain_char w \<Longrightarrow> w \<noteq> [] \<Longrightarrow> split_whitespace w = [w]"
  "list_all plain_char w \<Longrightarrow> w \<noteq> [] \<Longrightarrow> split_whitespace (w @ CHR '' '' # s) = w # split_whitespace s"
  using words_plain [of w "[]" "[]"] words_plain [of w "[]" "CHR '' '' # s"]
  by (simp_all add: split_whitespace_def words_space words_end)

section \<open>Escaping with a backslash\<close>

text \<open>
  The contract of an escaping: some characters are written as a backslash and a letter. \<open>unescape\<close>
  is the reader every such format has; \<open>meant\<close> maps the letter to the character it stands for.
\<close>

fun unescape :: "(char \<Rightarrow> char) \<Rightarrow> string \<Rightarrow> string" where
  "unescape meant [] = []"
| "unescape meant (c # cs) =
     (if c = CHR 0x5C then (case cs of [] \<Rightarrow> [] | d # r \<Rightarrow> meant d # unescape meant r)
      else c # unescape meant cs)"

text \<open>The characters of \<open>bad\<close> occur only right after a backslash.\<close>

fun only_escaped :: "char set \<Rightarrow> string \<Rightarrow> bool" where
  "only_escaped bad [] = True"
| "only_escaped bad (c # cs) =
     (if c = CHR 0x5C then (case cs of [] \<Rightarrow> False | d # r \<Rightarrow> only_escaped bad r)
      else c \<notin> bad \<and> only_escaped bad cs)"

locale escaping =
  fixes encode :: "string \<Rightarrow> string" and letter :: "char \<Rightarrow> char option" and meant :: "char \<Rightarrow> char"
  assumes encode_Nil: "encode [] = []"
    and encode_Cons: "encode (c # cs) =
      (case letter c of None \<Rightarrow> c # encode cs | Some d \<Rightarrow> CHR 0x5C # d # encode cs)"
    and escapes_backslash: "letter (CHR 0x5C) \<noteq> None"
    and meant_letter: "letter c = Some d \<Longrightarrow> meant d = c"
begin

lemma round_trip: "unescape meant (encode s) = s"
proof (induction s)
  case (Cons c s)
  then show ?case
    using escapes_backslash by (cases "letter c") (auto simp: encode_Cons meant_letter)
qed (simp add: encode_Nil)

lemma no_raw: "only_escaped {c. letter c \<noteq> None} (encode s)"
proof (induction s)
  case (Cons c s)
  then show ?case
    using escapes_backslash by (cases "letter c") (auto simp: encode_Cons)
qed (simp add: encode_Nil)

lemma encode_inj: "encode s = encode t \<Longrightarrow> s = t"
  by (metis round_trip)

end

end
