(* ===== verification/Paths.thy ===== *)
theory Paths
  imports Text
begin

text \<open>
  Rust's \<^verbatim>\<open>Path\<close> and \<^verbatim>\<open>PathBuf\<close> on Unix, as far as the sources use them, and
  \<^verbatim>\<open>src/src/paths.rs\<close>. A path is its text; \<open>components\<close> is the iterator that
  \<^verbatim>\<open>==\<close>, \<^verbatim>\<open>starts_with\<close> and \<^verbatim>\<open>strip_prefix\<close> work on. The lemmas
  relate the operations on the text (\<open>path_join\<close>, \<open>path_pop\<close>, collecting components) to
  the component lists.
\<close>

section \<open>Components\<close>

datatype comp = RootDir | CurDir | ParentDir | Normal string

abbreviation slash :: char where "slash \<equiv> CHR 0x2F"

definition is_absolute :: "string \<Rightarrow> bool" where
  "is_absolute s = (case s of [] \<Rightarrow> False | c # _ \<Rightarrow> c = slash)"

definition comp_of :: "string \<Rightarrow> comp" where
  "comp_of p = (if p = ''..'' then ParentDir else Normal p)"

text \<open>Empty parts (doubled separators) and inner \<^verbatim>\<open>.\<close> parts are skipped.\<close>

definition real_part :: "string \<Rightarrow> bool" where
  "real_part p = (p \<noteq> [] \<and> p \<noteq> ''.'')"

definition body_comps :: "string list \<Rightarrow> comp list" where
  "body_comps ps = map comp_of (filter real_part ps)"

text \<open>What precedes the first ordinary component, and the separated parts after it.\<close>

definition path_lead :: "string \<Rightarrow> comp list" where
  "path_lead s = (if is_absolute s then [RootDir]
     else if hd (split_on slash s) = ''.'' then [CurDir] else [])"

definition path_body :: "string \<Rightarrow> string list" where
  "path_body s = (if path_lead s = [] then split_on slash s else tl (split_on slash s))"

definition components :: "string \<Rightarrow> comp list" where
  "components s = path_lead s @ body_comps (path_body s)"

definition path_eq :: "string \<Rightarrow> string \<Rightarrow> bool" where
  "path_eq a b = (components a = components b)"

definition starts_with :: "string \<Rightarrow> string \<Rightarrow> bool" where
  "starts_with s base = prefix (components base) (components s)"

section \<open>Operations on the text\<close>

definition path_join :: "string \<Rightarrow> string \<Rightarrow> string" where
  "path_join a b =
     (if is_absolute b then b
      else if a \<noteq> [] \<and> last a \<noteq> slash then a @ slash # b else a @ b)"

definition drop_junk_end :: "string list \<Rightarrow> string list" where
  "drop_junk_end ps = rev (dropWhile (\<lambda>p. \<not> real_part p) (rev ps))"

definition lead_text :: "string \<Rightarrow> string list" where
  "lead_text s = (if is_absolute s then [[]] else if path_lead s = [] then [] else [''.''])"

text \<open>The text of the leading component and of the given parts; the root alone keeps its separator.\<close>

definition rebuild :: "string \<Rightarrow> string list \<Rightarrow> string" where
  "rebuild s ps = (if is_absolute s \<and> ps = [] then [slash]
     else join_with [slash] (lead_text s @ ps))"

text \<open>\<^verbatim>\<open>Path::parent\<close> and \<^verbatim>\<open>PathBuf::pop\<close>.\<close>

definition path_parent :: "string \<Rightarrow> string option" where
  "path_parent s =
     (let body = drop_junk_end (path_body s) in
      if body \<noteq> [] then Some (rebuild s (drop_junk_end (butlast body)))
      else if path_lead s = [CurDir] then Some [] else None)"

definition path_pop :: "string \<Rightarrow> string" where
  "path_pop s = get_or s (path_parent s)"

fun drop_junk :: "string list \<Rightarrow> string list" where
  "drop_junk [] = []"
| "drop_junk (p # ps) = (if real_part p then p # ps else drop_junk ps)"

fun drop_real :: "nat \<Rightarrow> string list \<Rightarrow> string list" where
  "drop_real 0 ps = drop_junk ps"
| "drop_real (Suc k) ps = (case drop_junk ps of [] \<Rightarrow> [] | _ # r \<Rightarrow> drop_real k r)"

text \<open>
  \<^verbatim>\<open>Path::strip_prefix\<close>: what is left after the components of the base, without the junk
  around it.
\<close>

definition path_strip_prefix :: "string \<Rightarrow> string \<Rightarrow> string option" where
  "path_strip_prefix s base =
     (if \<not> starts_with s base then None
      else if components base = [] then Some (rebuild s (drop_junk_end (path_body s)))
      else Some (join_with [slash]
        (drop_junk_end (drop_real (length (components base) - length (path_lead s)) (path_body s)))))"

definition comp_text :: "comp \<Rightarrow> string" where
  "comp_text c = (case c of RootDir \<Rightarrow> [slash] | CurDir \<Rightarrow> ''.'' | ParentDir \<Rightarrow> ''..'' | Normal p \<Rightarrow> p)"

text \<open>Collecting components into a \<^verbatim>\<open>PathBuf\<close> pushes them one by one.\<close>

definition path_of_comps :: "comp list \<Rightarrow> string" where
  "path_of_comps cs = foldl (\<lambda>s c. path_join s (comp_text c)) [] cs"

section \<open>Facts about components\<close>

definition normal_name :: "string \<Rightarrow> bool" where
  "normal_name p = (real_part p \<and> p \<noteq> ''..'' \<and> slash \<notin> set p)"

fun is_normal :: "comp \<Rightarrow> bool" where
  "is_normal (Normal p) = normal_name p"
| "is_normal _ = False"

lemma body_comps_simps [simp]:
  "body_comps [] = []"
  "body_comps (p # ps) = (if real_part p then comp_of p # body_comps ps else body_comps ps)"
  "body_comps (ps @ qs) = body_comps ps @ body_comps qs"
  by (simp_all add: body_comps_def)

lemma not_real_Nil [simp]: "\<not> real_part []" "\<not> real_part ''.''"
  by (simp_all add: real_part_def)

lemma is_absolute_simps [simp]:
  "is_absolute [] = False" "is_absolute (c # cs) = (c = slash)"
  by (simp_all add: is_absolute_def)

lemma is_absolute_append: "is_absolute (a @ b) = (if a = [] then is_absolute b else is_absolute a)"
  by (cases a) simp_all

lemma hd_split_absolute: "is_absolute s \<Longrightarrow> \<exists>r. split_on slash s = [] # r"
  by (cases s) auto

lemma hd_split_relative: "\<not> is_absolute s \<Longrightarrow> s \<noteq> [] \<Longrightarrow> hd (split_on slash s) \<noteq> []"
  by (cases s) (auto split: list.splits)

lemma components_alt:
  "components s =
     (if is_absolute s then [RootDir] else if hd (split_on slash s) = ''.'' then [CurDir] else [])
     @ body_comps (split_on slash s)"
proof (cases "split_on slash s")
  case (Cons p ps)
  then show ?thesis
    using hd_split_absolute [of s]
    by (auto simp: components_def path_body_def path_lead_def)
qed simp

lemma components_Nil [simp]: "components [] = []"
  by (simp add: components_alt)

lemma components_name: "normal_name p \<Longrightarrow> components p = [Normal p]"
  by (cases p)
    (auto simp: components_alt normal_name_def split_on_free comp_of_def real_part_def)

lemma components_join:
  assumes "\<not> is_absolute b" "a \<noteq> []"
  shows "components (path_join a b) = components a @ body_comps (split_on slash b)"
proof (cases "last a = slash")
  case False
  have "hd (split_on slash a @ split_on slash b) = hd (split_on slash a)"
    by (cases "split_on slash a") auto
  with False assms show ?thesis
    by (simp add: path_join_def components_alt split_on_append is_absolute_append)
next
  case True
  with assms obtain a' where a: "a = a' @ [slash]" by (metis append_butlast_last_id)
  have *: "split_on slash a = split_on slash a' @ [[]]"
    using split_on_append [of slash a' "[]"] a by simp
  have "hd (split_on slash a' @ split_on slash b) = hd (split_on slash a')"
    "hd (split_on slash a' @ [[]]) = hd (split_on slash a')"
    by (cases "split_on slash a'"; simp)+
  then show ?thesis
    using True assms a * split_on_append [of slash a' b]
    by (auto simp: path_join_def components_alt is_absolute_append)
qed

lemma components_join_name [simp]:
  assumes "normal_name p"
  shows "components (path_join a p) = components a @ [Normal p]"
proof (cases "a = []")
  case True
  with assms show ?thesis
    by (cases p) (auto simp: path_join_def components_name normal_name_def)
next
  case False
  from assms have "\<not> is_absolute p" by (cases p) (auto simp: normal_name_def)
  moreover from assms have "body_comps (split_on slash p) = [Normal p]"
    by (simp add: split_on_free normal_name_def comp_of_def)
  ultimately show ?thesis using False by (simp add: components_join)
qed

lemma components_normal:
  assumes "Normal p \<in> set (components s)"
  shows "normal_name p"
proof -
  from assms obtain q where "q \<in> set (split_on slash s)" "real_part q" "comp_of q = Normal p"
    by (auto simp: components_alt body_comps_def split: if_splits)
  then show ?thesis
    by (auto simp: normal_name_def comp_of_def split_on_parts_free split: if_splits)
qed

lemma components_shape:
  obtains ps where "components s = path_lead s @ ps" "RootDir \<notin> set ps" "CurDir \<notin> set ps"
proof
  show "components s = path_lead s @ body_comps (path_body s)" by (simp add: components_def)
qed (auto simp: body_comps_def comp_of_def split: if_splits)

section \<open>Popping and rebuilding\<close>

lemma body_comps_drop_junk_end [simp]: "body_comps (drop_junk_end ps) = body_comps ps"
proof (induction ps rule: rev_induct)
  case (snoc p ps)
  then show ?case by (simp add: drop_junk_end_def)
qed (simp add: drop_junk_end_def)

lemma drop_junk_end_prefix: "prefix (drop_junk_end ps) ps"
  by (metis drop_junk_end_def rev_rev_ident suffix_dropWhile suffix_to_prefix)

lemma drop_junk_end_last: "drop_junk_end ps \<noteq> [] \<Longrightarrow> real_part (last (drop_junk_end ps))"
  unfolding drop_junk_end_def
  by (metis hd_dropWhile last_rev rev_is_Nil_conv)

lemma path_body_free: "p \<in> set (path_body s) \<Longrightarrow> slash \<notin> set p"
  by (metis list.sel(2) list.set_sel(2) path_body_def split_on_parts_free)

lemma absolute_join: "is_absolute (join_with [slash] ps) = (\<exists>q r. ps = [] # q # r \<or> (ps \<noteq> [] \<and> is_absolute (hd ps)))"
  by (cases ps; cases "tl ps") (auto simp: is_absolute_append)

lemma part_not_absolute: "slash \<notin> set p \<Longrightarrow> \<not> is_absolute p"
  by (cases p) auto

lemma components_rebuild:
  assumes "prefix ps (path_body s)"
  shows "components (rebuild s ps) = path_lead s @ body_comps ps"
proof -
  have free: "\<forall>p \<in> set ps. slash \<notin> set p"
    using assms path_body_free set_mono_prefix by blast
  consider (abs) "is_absolute s" | (cur) "\<not> is_absolute s" "path_lead s = [CurDir]"
    | (plain) "\<not> is_absolute s" "path_lead s = []"
    by (cases "is_absolute s"; cases "hd (split_on slash s) = ''.''") (simp_all add: path_lead_def)
  then show ?thesis
  proof cases
    case abs
    then show ?thesis
      using free split_on_join [of "[] # ps" slash]
      by (cases ps) (auto simp: rebuild_def lead_text_def components_alt absolute_join path_lead_def)
  next
    case cur
    then show ?thesis
      using free split_on_join [of "''.'' # ps" slash]
      by (auto simp: rebuild_def lead_text_def components_alt absolute_join)
  next
    case plain
    show ?thesis
    proof (cases ps)
      case Nil
      with plain show ?thesis by (simp add: rebuild_def lead_text_def)
    next
      case (Cons p qs)
      with assms plain have p: "p = hd (split_on slash s)"
        by (auto simp: path_body_def prefix_def)
      with plain have nd: "p \<noteq> ''.''" by (auto simp: path_lead_def)
      have ne: "p = [] \<Longrightarrow> qs = []"
      proof -
        assume "p = []"
        with plain p have "s = []" using hd_split_relative by blast
        with assms plain Cons show "qs = []" by (auto simp: path_body_def)
      qed
      from free Cons have "\<not> is_absolute p" by (simp add: part_not_absolute)
      with plain Cons free nd ne split_on_join [of ps slash] show ?thesis
        by (auto simp: rebuild_def lead_text_def components_alt absolute_join)
    qed
  qed
qed

lemma drop_junk_end_comps: "drop_junk_end ps = [] \<longleftrightarrow> body_comps ps = []"
proof
  assume "body_comps ps = []"
  then have "body_comps (drop_junk_end ps) = []" by simp
  then have "\<forall>p \<in> set (drop_junk_end ps). \<not> real_part p"
    by (simp add: body_comps_def filter_empty_conv del: body_comps_drop_junk_end)
  then show "drop_junk_end ps = []"
    using drop_junk_end_last last_in_set by blast
next
  assume "drop_junk_end ps = []"
  then show "body_comps ps = []" using body_comps_drop_junk_end [of ps] by simp
qed

lemma body_comps_no_root: "RootDir \<notin> set (body_comps ps)" "CurDir \<notin> set (body_comps ps)"
  by (auto simp: body_comps_def comp_of_def)

lemma path_lead_cases: "path_lead s = [] \<or> path_lead s = [RootDir] \<or> path_lead s = [CurDir]"
  by (simp add: path_lead_def)

lemma path_parent_None_iff: "path_parent s = None \<longleftrightarrow> components s = [] \<or> components s = [RootDir]"
  using path_lead_cases [of s] body_comps_no_root(1) [of "path_body s"]
  by (auto simp: path_parent_def drop_junk_end_comps components_def)

lemma components_parent:
  assumes t: "path_parent s = Some t"
  shows "components t = butlast (components s)"
proof (cases "drop_junk_end (path_body s) = []")
  case True
  with t have "t = []" "path_lead s = [CurDir]"
    by (auto simp: path_parent_def split: if_splits)
  with True show ?thesis by (simp add: drop_junk_end_comps components_def [of s])
next
  case False
  define body where "body = drop_junk_end (path_body s)"
  with False obtain qs p where b: "body = qs @ [p]" by (metis append_butlast_last_id)
  with False have "real_part p" using drop_junk_end_last [of "path_body s"] by (simp add: body_def)
  then have "components s = path_lead s @ body_comps qs @ [comp_of p]"
    using body_comps_drop_junk_end [of "path_body s"] b
    by (simp add: components_def flip: body_def)
  moreover have "prefix (drop_junk_end qs) (path_body s)"
    by (metis b body_def append_prefixD drop_junk_end_prefix prefix_order.trans prefixI)
  ultimately show ?thesis using t b False
    by (auto simp: path_parent_def components_rebuild butlast_append simp flip: body_def)
qed

lemma components_pop:
  "components (path_pop s) =
     (if components s = [RootDir] then [RootDir] else butlast (components s))"
  using path_parent_None_iff [of s] components_parent [of s]
  by (cases "path_parent s") (auto simp: path_pop_def)

section \<open>Collecting components\<close>

lemma path_of_comps_snoc: "path_of_comps (cs @ [c]) = path_join (path_of_comps cs) (comp_text c)"
  by (simp add: path_of_comps_def)

text \<open>
  Collecting a prefix of some path's components gives a path with these components.
\<close>

lemma components_path_of_comps:
  assumes "prefix cs (components s)"
  shows "components (path_of_comps cs) = cs"
  using assms
proof (induction cs rule: rev_induct)
  case (snoc c cs)
  then have IH: "components (path_of_comps cs) = cs" and
    pre: "prefix (cs @ [c]) (components s)"
    by (auto dest: append_prefixD)
  obtain ps where ps: "components s = path_lead s @ ps" "RootDir \<notin> set ps" "CurDir \<notin> set ps"
    by (rule components_shape)
  have c: "c \<in> set (components s)" using pre set_mono_prefix by fastforce
  have lead: "c = RootDir \<or> c = CurDir \<Longrightarrow> cs = []"
    using pre ps path_lead_cases [of s]
    by (cases cs) (auto simp: prefix_def append_eq_Cons_conv)
  show ?case
  proof (cases c)
    case (Normal p)
    with c have "normal_name p" by (simp add: components_normal)
    with Normal IH show ?thesis by (simp add: path_of_comps_snoc comp_text_def)
  next
    case ParentDir
    have *: "components ''..'' = [ParentDir]" "body_comps (split_on slash ''..'') = [ParentDir]"
      by (simp_all add: components_alt real_part_def comp_of_def)
    show ?thesis
    proof (cases "path_of_comps cs = []")
      case True
      with IH have "cs = []" by simp
      with ParentDir * show ?thesis
        by (simp add: path_of_comps_def comp_text_def path_join_def)
    next
      case False
      with ParentDir IH * show ?thesis
        by (simp add: path_of_comps_snoc comp_text_def components_join)
    qed
  qed (use lead in \<open>auto simp: path_of_comps_snoc path_of_comps_def comp_text_def path_join_def
        components_alt\<close>)
qed (simp add: path_of_comps_def)

section \<open>Stripping a prefix\<close>

lemma body_comps_drop_junk: "body_comps (drop_junk ps) = body_comps ps"
  by (induction ps) auto

lemma drop_junk_head: "drop_junk ps = q # r \<Longrightarrow> real_part q"
  by (induction ps) (auto split: if_splits)

lemma drop_junk_set: "set (drop_junk ps) \<subseteq> set ps"
  by (induction ps) auto

lemma body_comps_drop_real: "body_comps (drop_real k ps) = drop k (body_comps ps)"
proof (induction k ps rule: drop_real.induct)
  case (2 k ps)
  show ?case
  proof (cases "drop_junk ps")
    case Nil
    then show ?thesis using body_comps_drop_junk [of ps] by auto
  next
    case (Cons q r)
    then have "body_comps ps = comp_of q # body_comps r"
      using body_comps_drop_junk [of ps] drop_junk_head by auto
    with Cons "2" show ?thesis by simp
  qed
qed (simp add: body_comps_drop_junk)

lemma drop_real_head: "drop_real k ps = q # r \<Longrightarrow> real_part q"
  by (induction k ps rule: drop_real.induct) (auto dest: drop_junk_head split: list.splits)

lemma drop_real_set: "set (drop_real k ps) \<subseteq> set ps"
proof (induction k ps rule: drop_real.induct)
  case (2 k ps)
  then show ?case using drop_junk_set [of ps] by (cases "drop_junk ps") auto
qed (simp add: drop_junk_set)

lemma components_of_parts:
  assumes "\<forall>p \<in> set ps. slash \<notin> set p" "ps \<noteq> [] \<longrightarrow> real_part (hd ps)"
  shows "components (join_with [slash] ps) = body_comps ps"
proof (cases ps)
  case (Cons p qs)
  with assms have "\<not> is_absolute p" "p \<noteq> ''.''" "p \<noteq> []"
    by (auto simp: part_not_absolute real_part_def)
  with Cons assms split_on_join [of ps slash] show ?thesis
    by (auto simp: components_alt absolute_join)
qed simp

lemma components_strip_prefix:
  assumes "path_strip_prefix s base = Some r" "components base \<noteq> []"
  shows "components s = components base @ components r"
proof -
  let ?k = "length (components base) - length (path_lead s)"
  let ?ps = "drop_junk_end (drop_real ?k (path_body s))"
  from assms have pre: "prefix (components base) (components s)" and r: "r = join_with [slash] ?ps"
    by (auto simp: path_strip_prefix_def starts_with_def split: if_splits)
  have sub: "prefix ?ps (drop_real ?k (path_body s))" by (rule drop_junk_end_prefix)
  have free: "\<forall>p \<in> set ?ps. slash \<notin> set p"
    using sub drop_real_set path_body_free set_mono_prefix by blast
  have hd_real: "?ps \<noteq> [] \<longrightarrow> real_part (hd ?ps)"
    using sub drop_real_head by (cases ?ps) (auto simp: prefix_def)
  have "components r = body_comps ?ps" unfolding r by (rule components_of_parts [OF free hd_real])
  then have comps_r: "components r = drop ?k (body_comps (path_body s))"
    by (simp add: body_comps_drop_real)
  from pre obtain rest where rest: "components s = components base @ rest" by (auto simp: prefix_def)
  have "length (path_lead s) \<le> length (components base)"
    using assms(2) path_lead_cases [of s] by (cases "components base") auto
  then have "drop (length (components base)) (components s) = drop ?k (body_comps (path_body s))"
    by (simp add: components_def [of s])
  with rest comps_r show ?thesis by simp
qed

text \<open>
  \<open>below base p\<close>: the path is the base followed by ordinary names, so whatever the names, it
  does not lead out of the base (symbolic links apart, which only the kernel can see).
\<close>

definition below :: "string \<Rightarrow> string \<Rightarrow> bool" where
  "below base p \<longleftrightarrow> prefix (components base) (components p)
     \<and> list_all is_normal (drop (length (components base)) (components p))"

lemma below_iff: "below base p \<longleftrightarrow> (\<exists>ns. components p = components base @ ns \<and> list_all is_normal ns)"
  by (auto simp: below_def prefix_def)

lemma below_refl [simp]: "below base base"
  by (simp add: below_def)

lemma below_join [simp]: "below base p \<Longrightarrow> normal_name n \<Longrightarrow> below base (path_join p n)"
  by (auto simp: below_iff)

lemma below_pop:
  assumes "below base p" "\<not> path_eq p base"
  shows "below base (path_pop p)"
proof -
  obtain ns where ns: "components p = components base @ ns" "list_all is_normal ns"
    using assms(1) by (auto simp: below_iff)
  with assms(2) have "ns \<noteq> []" by (auto simp: path_eq_def)
  moreover from this ns have "components p \<noteq> [RootDir]"
    by (cases ns) (auto simp: append_eq_Cons_conv)
  ultimately show ?thesis
    using ns by (auto simp: below_iff components_pop butlast_append list_all_iff dest: in_set_butlastD)
qed

lemma below_parent:
  assumes "below base p" "path_parent p = Some q" "\<not> path_eq p base"
  shows "below base q"
  using below_pop [OF assms(1,3)] assms(2) by (simp add: path_pop_def)

lemma below_trans: "below a b \<Longrightarrow> below b c \<Longrightarrow> below a c"
  by (auto simp: below_iff)

text \<open>Joining a relative path that consists of ordinary names.\<close>

lemma below_join_path:
  assumes "below base p" "p \<noteq> []" "\<forall>c \<in> set (components q). is_normal c"
  shows "below base (path_join p q)"
proof -
  have "RootDir \<notin> set (components q)" "CurDir \<notin> set (components q)" using assms(3) by fastforce+
  then have "\<not> is_absolute q" "body_comps (split_on slash q) = components q"
    by (auto simp: components_alt split: if_splits)
  with assms show ?thesis by (auto simp: below_iff components_join list_all_iff)
qed

section \<open>The runtime's directory layout: \<^verbatim>\<open>src/src/paths.rs\<close>\<close>

record dirs =
  root :: string

definition STATE_FILE :: string where "STATE_FILE = ''state.json''"
definition EXEC_FIFO :: string where "EXEC_FIFO = ''exec.fifo''"
definition PID_FILE :: string where "PID_FILE = ''init.pid''"

definition container_dir :: "dirs \<Rightarrow> string \<Rightarrow> string" where
  "container_dir l cid = path_join (root l) cid"

definition state_file :: "dirs \<Rightarrow> string \<Rightarrow> string" where
  "state_file l cid = path_join (container_dir l cid) STATE_FILE"

definition exec_fifo :: "dirs \<Rightarrow> string \<Rightarrow> string" where
  "exec_fifo l cid = path_join (container_dir l cid) EXEC_FIFO"

definition pid_file :: "dirs \<Rightarrow> string \<Rightarrow> string" where
  "pid_file l cid = path_join (container_dir l cid) PID_FILE"

definition id_char :: "char \<Rightarrow> bool" where
  "id_char c = (is_ascii_alphanumeric c \<or> c \<in> set ''._+-'')"

definition validate_id :: "string \<Rightarrow> unit res" where
  "validate_id cid =
     (if cid \<noteq> [] \<and> cid \<noteq> ''.'' \<and> cid \<noteq> ''..''
        \<and> list_all id_char cid
      then Inr () else Inl (InvalidId cid))"

lemma file_names_normal [simp]:
  "normal_name STATE_FILE" "normal_name EXEC_FIFO" "normal_name PID_FILE"
  by (simp_all add: normal_name_def real_part_def STATE_FILE_def EXEC_FIFO_def PID_FILE_def)

lemma slash_not_id_char: "\<not> id_char slash"
  by (simp add: id_char_def is_ascii_alphanumeric_def Let_def)

lemma validate_id_normal: "validate_id cid = Inr () \<Longrightarrow> normal_name cid"
  using slash_not_id_char
  by (auto simp: validate_id_def list_all_iff normal_name_def real_part_def split: if_splits)

text \<open>
  C1: a container id that passes \<^verbatim>\<open>validate_id\<close> names one directory strictly below the
  runtime root: all the paths the runtime derives from it are the root's components, the id, and at
  most one of the three fixed file names. No separator, no dot-dot and no absolute path gets through,
  so no id can reach outside the root.
\<close>

theorem validated_id_stays_below_root:
  assumes "validate_id cid = Inr ()"
  shows "components (container_dir l cid) = components (root l) @ [Normal cid]
    \<and> components (state_file l cid) = components (root l) @ [Normal cid, Normal STATE_FILE]
    \<and> components (exec_fifo l cid) = components (root l) @ [Normal cid, Normal EXEC_FIFO]
    \<and> components (pid_file l cid) = components (root l) @ [Normal cid, Normal PID_FILE]"
  using validate_id_normal [OF assms]
  by (simp add: container_dir_def state_file_def exec_fifo_def pid_file_def)

lemma validated_id_stays_below_root_witness:
  "components (exec_fifo \<lparr>root = ''/run/mars''\<rparr> ''my-container_01.v2+x'')
     = components ''/run/mars'' @ [Normal ''my-container_01.v2+x'', Normal EXEC_FIFO]"
proof -
  have "validate_id ''my-container_01.v2+x'' = Inr ()"
    by code_simp
  from validated_id_stays_below_root [OF this, of "\<lparr>root = ''/run/mars''\<rparr>"] show ?thesis by simp
qed

lemma distinct_ids_distinct_dirs:
  assumes "validate_id a = Inr ()" "validate_id b = Inr ()" "a \<noteq> b"
  shows "\<not> starts_with (container_dir l a) (container_dir l b)"
  using validate_id_normal [OF assms(1)] validate_id_normal [OF assms(2)] assms(3)
  by (simp add: container_dir_def starts_with_def)

end
