(* ===== verification/Namespace.thy ===== *)
theory Namespace
  imports Paths "HOL-Library.Multiset"
begin

text \<open>
  \<^verbatim>\<open>src/src/namespace.rs\<close>: which namespaces of a bundle are created, which are joined,
  and in what order. \<^verbatim>\<open>CloneFlags\<close> is its 32-bit word. Whether a path exists is a
  question to the file system and comes in as a predicate. The locale \<open>join_table\<close> is the
  contract the two join-order tables of the program (here and in \<^verbatim>\<open>exec.rs\<close>) share.
\<close>

unbundle bit_operations_syntax

section \<open>Namespaces and clone flags\<close>

datatype ns_type =
  NsMount | NsCgroup | NsUts | NsIpc | NsUser | NsPid | NsNetwork | NsTime

record linux_namespace =
  ns_typ :: ns_type
  ns_path :: "string option"

type_synonym clone_flags = "32 word"

definition CLONE_NEWTIME :: clone_flags where "CLONE_NEWTIME = 0x80"
definition CLONE_NEWNS :: clone_flags where "CLONE_NEWNS = 0x20000"
definition CLONE_NEWCGROUP :: clone_flags where "CLONE_NEWCGROUP = 0x02000000"
definition CLONE_NEWUTS :: clone_flags where "CLONE_NEWUTS = 0x04000000"
definition CLONE_NEWIPC :: clone_flags where "CLONE_NEWIPC = 0x08000000"
definition CLONE_NEWUSER :: clone_flags where "CLONE_NEWUSER = 0x10000000"
definition CLONE_NEWPID :: clone_flags where "CLONE_NEWPID = 0x20000000"
definition CLONE_NEWNET :: clone_flags where "CLONE_NEWNET = 0x40000000"

lemmas clone_flag_defs =
  CLONE_NEWTIME_def CLONE_NEWNS_def CLONE_NEWCGROUP_def CLONE_NEWUTS_def
  CLONE_NEWIPC_def CLONE_NEWUSER_def CLONE_NEWPID_def CLONE_NEWNET_def

fun flag_for :: "ns_type \<Rightarrow> clone_flags" where
  "flag_for NsMount = CLONE_NEWNS"
| "flag_for NsPid = CLONE_NEWPID"
| "flag_for NsNetwork = CLONE_NEWNET"
| "flag_for NsIpc = CLONE_NEWIPC"
| "flag_for NsUts = CLONE_NEWUTS"
| "flag_for NsUser = CLONE_NEWUSER"
| "flag_for NsCgroup = CLONE_NEWCGROUP"
| "flag_for NsTime = CLONE_NEWTIME"

definition flags_contain :: "'a::len word \<Rightarrow> 'a word \<Rightarrow> bool" where
  "flags_contain flags f = (flags AND f = f)"

definition without :: "clone_flags \<Rightarrow> clone_flags \<Rightarrow> clone_flags" where
  "without flags unwanted = flags AND NOT unwanted"

section \<open>The join order\<close>

definition JOIN_ORDER :: "ns_type list" where
  "JOIN_ORDER = [NsUser, NsIpc, NsUts, NsNetwork, NsPid, NsCgroup, NsMount]"

fun position :: "'k list \<Rightarrow> 'k \<Rightarrow> nat option" where
  "position [] k = None"
| "position (x # xs) k = (if x = k then Some 0 else map_option Suc (position xs k))"

text \<open>\<^verbatim>\<open>usize::MAX\<close> for a kind the table does not list.\<close>

definition join_rank :: "'k list \<Rightarrow> 'k \<Rightarrow> nat" where
  "join_rank table k = get_or (2 ^ 64 - 1) (position table k)"

record ns_layout =
  lay_create :: clone_flags
  lay_join :: "(ns_type \<times> string) list"

fun layout_scan ::
  "(string \<Rightarrow> bool) \<Rightarrow> linux_namespace list \<Rightarrow> clone_flags \<Rightarrow> (ns_type \<times> string) list
    \<Rightarrow> (clone_flags \<times> (ns_type \<times> string) list) res" where
  "layout_scan exists [] create join = Inr (create, join)"
| "layout_scan exists (ns # rest) create join =
     (let flag = flag_for (ns_typ ns) in
      case ns_path ns of
        Some path \<Rightarrow>
          if path \<noteq> [] then
            if \<not> exists path then Inl (Invalid ''namespace points at a path which does not exist'')
            else layout_scan exists rest create (join @ [(ns_typ ns, path)])
          else layout_scan exists rest (create OR flag) join
      | None \<Rightarrow> layout_scan exists rest (create OR flag) join)"

definition layout :: "(string \<Rightarrow> bool) \<Rightarrow> linux_namespace list \<Rightarrow> ns_layout res" where
  "layout exists namespaces =
     and_then (layout_scan exists namespaces 0 []) (\<lambda>(create, join).
       Inr \<lparr>lay_create = create, lay_join = sort_key (\<lambda>(kind, _). join_rank JOIN_ORDER kind) join\<rparr>)"

definition clone_flags_of :: "(string \<Rightarrow> bool) \<Rightarrow> linux_namespace list \<Rightarrow> clone_flags res" where
  "clone_flags_of exists namespaces = and_then (layout exists namespaces) (\<lambda>l. Inr (lay_create l))"

section \<open>Flags as sets of bits\<close>

fun ns_bit :: "ns_type \<Rightarrow> nat" where
  "ns_bit NsTime = 7"
| "ns_bit NsMount = 17"
| "ns_bit NsCgroup = 25"
| "ns_bit NsUts = 26"
| "ns_bit NsIpc = 27"
| "ns_bit NsUser = 28"
| "ns_bit NsPid = 29"
| "ns_bit NsNetwork = 30"

lemma flag_for_bit: "flag_for k = push_bit (ns_bit k) 1"
  by (cases k) (simp_all add: clone_flag_defs push_bit_eq_mult)

lemma ns_bit_less: "ns_bit k < 32"
  by (cases k) simp_all

lemma ns_bit_inj [simp]: "ns_bit j = ns_bit k \<longleftrightarrow> j = k"
  by (cases j; cases k) simp_all

lemma bit_flag_for: "bit (flag_for k) n \<longleftrightarrow> n = ns_bit k"
  using ns_bit_less [of k] by (auto simp: flag_for_bit bit_simps)

lemma contain_flag_for: "flags_contain flags (flag_for k) \<longleftrightarrow> bit flags (ns_bit k)"
proof
  assume "flags_contain flags (flag_for k)"
  then have "bit (flags AND flag_for k) (ns_bit k)" by (simp add: flags_contain_def bit_flag_for)
  then show "bit flags (ns_bit k)" by (simp add: bit_and_iff)
next
  assume "bit flags (ns_bit k)"
  then show "flags_contain flags (flag_for k)"
    unfolding flags_contain_def
    by (intro bit_word_eqI) (auto simp: bit_and_iff bit_flag_for)
qed

lemma contain_without:
  "flags_contain (without flags (flag_for u)) (flag_for k) \<longleftrightarrow>
     k \<noteq> u \<and> flags_contain flags (flag_for k)"
  using ns_bit_less [of k]
  by (auto simp: contain_flag_for without_def bit_simps bit_flag_for)

definition joins :: "linux_namespace \<Rightarrow> bool" where
  "joins ns = (\<exists>p. ns_path ns = Some p \<and> p \<noteq> [])"

definition join_target :: "linux_namespace \<Rightarrow> ns_type \<times> string" where
  "join_target ns = (ns_typ ns, get_or [] (ns_path ns))"

lemma layout_scan_spec:
  "layout_scan exists nss c j = Inr (c', j') \<Longrightarrow>
     j' = j @ map join_target (filter joins nss)
     \<and> (\<forall>ns \<in> set nss. joins ns \<longrightarrow> exists (snd (join_target ns)))
     \<and> (\<forall>n < 32. bit c' n \<longleftrightarrow> bit c n \<or> (\<exists>ns \<in> set nss. \<not> joins ns \<and> n = ns_bit (ns_typ ns)))"
proof (induction exists nss c j rule: layout_scan.induct)
  case (2 exists ns rest c j)
  then show ?case
    by (cases "ns_path ns")
      (auto simp: joins_def join_target_def Let_def bit_or_iff bit_flag_for split: if_splits)
qed simp

lemma layout_scan_fails:
  "(\<exists>e. layout_scan exists nss c j = Inl e) \<longleftrightarrow>
     (\<exists>ns \<in> set nss. joins ns \<and> \<not> exists (snd (join_target ns)))"
  by (induction exists nss c j rule: layout_scan.induct)
    (auto simp: joins_def join_target_def Let_def split: option.splits)

section \<open>The contract of a join table\<close>

text \<open>
  Both join tables list distinct kinds, the user namespace first and the mount namespace last.
  A sequence of joins whose kinds are in table order then enters the user namespace before any
  other and the mount namespace after every other: once inside, a path of the host no longer
  resolves.
\<close>

locale join_table =
  fixes table :: "'k list" and user :: 'k and mnt :: 'k
  assumes table_distinct: "distinct table"
    and table_user: "\<exists>rest. table = user # rest"
    and table_mnt: "\<exists>front. table = front @ [mnt]"
    and table_two: "user \<noteq> mnt"
begin

lemma position_nth: "k \<in> set xs \<Longrightarrow> \<exists>i < length xs. position xs k = Some i \<and> xs ! i = k"
  by (induction xs) force+

lemma rank_user: "join_rank table user = 0"
  using table_user by (auto simp: join_rank_def)

lemma rank_0: "k \<in> set table \<Longrightarrow> join_rank table k = 0 \<Longrightarrow> k = user"
  using position_nth [of k table] table_user by (auto simp: join_rank_def)

lemma rank_less: "k \<in> set table \<Longrightarrow> join_rank table k < length table"
  using position_nth [of k table] by (auto simp: join_rank_def)

lemma rank_nth: "k \<in> set table \<Longrightarrow> table ! join_rank table k = k"
  using position_nth [of k table] by (auto simp: join_rank_def)

lemma rank_inj:
  assumes "j \<in> set table" "k \<in> set table" "join_rank table j = join_rank table k"
  shows "j = k"
  by (metis assms rank_nth)

lemma rank_mnt: "join_rank table mnt = length table - 1"
proof -
  have m: "mnt \<in> set table" using table_mnt by auto
  have "table ! (length table - 1) = mnt" "length table - 1 < length table"
    using table_mnt by auto
  with rank_nth [OF m] rank_less [OF m] table_distinct show ?thesis
    by (metis nth_eq_iff_index_eq)
qed

text \<open>Sorted by rank, everything before a user namespace is one, everything after a mount namespace too.\<close>

lemma user_first:
  assumes "sorted (map (join_rank table) (xs @ user # ys))" "set xs \<subseteq> set table" "x \<in> set xs"
  shows "x = user"
proof -
  from assms(1,3) have "join_rank table x \<le> join_rank table user"
    by (auto simp: sorted_append)
  with assms(2,3) show ?thesis by (auto simp: rank_user intro: rank_0)
qed

lemma mnt_last:
  assumes "sorted (map (join_rank table) (xs @ mnt # ys))" "set ys \<subseteq> set table" "y \<in> set ys"
  shows "y = mnt"
proof -
  from assms(1,3) have "join_rank table mnt \<le> join_rank table y"
    by (auto simp: sorted_append)
  moreover from assms(2,3) have y: "y \<in> set table" by auto
  then have "join_rank table y < length table" by (rule rank_less)
  ultimately have "join_rank table y = join_rank table mnt" by (simp add: rank_mnt)
  moreover have "mnt \<in> set table" using table_mnt by auto
  ultimately show ?thesis using rank_inj y by blast
qed

lemma unlisted_after_mnt:
  assumes "sorted (map (join_rank table) (xs @ k # ys))" "k \<notin> set table"
    "y \<in> set ys" "length table < 2 ^ 64 - 1"
  shows "y \<notin> set table"
proof
  have none: "position zs k = None" if "k \<notin> set zs" for zs
    using that by (induction zs) auto
  assume "y \<in> set table"
  then have "join_rank table y < length table" by (rule rank_less)
  moreover from assms(1,3) have "join_rank table k \<le> join_rank table y"
    by (auto simp: sorted_append)
  moreover have "join_rank table k = 2 ^ 64 - 1"
    using none [OF assms(2)] by (simp add: join_rank_def)
  ultimately show False using assms(4) by simp
qed

end

interpretation bundle_joins: join_table JOIN_ORDER NsUser NsMount
  by unfold_locales (auto simp: JOIN_ORDER_def)

lemma not_listed_iff: "k \<notin> set JOIN_ORDER \<longleftrightarrow> k = NsTime"
  by (cases k) (auto simp: JOIN_ORDER_def)

section \<open>What the layout is\<close>

text \<open>
  C30: a successful layout splits the namespaces exactly. A kind's flag is in the create set exactly
  when the bundle lists it without a (non-empty) path; the joins are a permutation of the namespaces
  that have one, every one of which exists; nothing is both dropped and not reported.
\<close>

theorem layout_partitions:
  assumes "layout exists nss = Inr l"
  shows "(\<forall>k. flags_contain (lay_create l) (flag_for k) \<longleftrightarrow>
              (\<exists>ns \<in> set nss. ns_typ ns = k \<and> \<not> joins ns))
    \<and> mset (lay_join l) = mset (map join_target (filter joins nss))
    \<and> (\<forall>(k, p) \<in> set (lay_join l). p \<noteq> [] \<and> exists p)"
proof -
  from assms obtain c j where scan: "layout_scan exists nss 0 [] = Inr (c, j)"
    and l: "l = \<lparr>lay_create = c, lay_join = sort_key (\<lambda>(kind, _). join_rank JOIN_ORDER kind) j\<rparr>"
    by (auto simp: layout_def result_simps)
  note spec = layout_scan_spec [OF scan]
  have "flags_contain c (flag_for k) \<longleftrightarrow> (\<exists>ns \<in> set nss. ns_typ ns = k \<and> \<not> joins ns)" for k
    using spec ns_bit_less [of k] by (auto simp: contain_flag_for)
  moreover have "\<forall>(k, p) \<in> set j. p \<noteq> [] \<and> exists p"
    using spec by (auto simp: join_target_def joins_def)
  ultimately show ?thesis using spec l by auto
qed

lemma layout_partitions_witness:
  "flags_contain CLONE_NEWPID (flag_for NsPid) \<and> \<not> flags_contain CLONE_NEWPID (flag_for NsUts)"
proof -
  let ?nss = "[\<lparr>ns_typ = NsUts, ns_path = Some ''/p''\<rparr>, \<lparr>ns_typ = NsPid, ns_path = None\<rparr>]"
  have "layout (\<lambda>_. True) ?nss = Inr \<lparr>lay_create = CLONE_NEWPID, lay_join = [(NsUts, ''/p'')]\<rparr>"
    by (simp add: layout_def)
  then have "\<forall>k. flags_contain CLONE_NEWPID (flag_for k) \<longleftrightarrow>
      (\<exists>ns \<in> set ?nss. ns_typ ns = k \<and> \<not> joins ns)"
    using layout_partitions [of "\<lambda>_. True" ?nss] by simp
  then have "flags_contain CLONE_NEWPID (flag_for NsPid) \<longleftrightarrow>
      (\<exists>ns \<in> set ?nss. ns_typ ns = NsPid \<and> \<not> joins ns)"
    "flags_contain CLONE_NEWPID (flag_for NsUts) \<longleftrightarrow>
      (\<exists>ns \<in> set ?nss. ns_typ ns = NsUts \<and> \<not> joins ns)" by blast+
  then show ?thesis by (simp add: joins_def)
qed



text \<open>
  Removing the cgroup flag from a create set removes that flag and no other, whichever bits
  \<^verbatim>\<open>CloneFlags\<close> has names for; in particular a requested time namespace survives.
\<close>

theorem without_removes_one_flag:
  "flags_contain (without flags (flag_for u)) (flag_for k) \<longleftrightarrow> k \<noteq> u \<and> flags_contain flags (flag_for k)"
  by (rule contain_without)

text \<open>
  The layout fails exactly when some namespace has a path that does not exist: an unusable
  join is reported here and never reaches \<^verbatim>\<open>setns\<close>.
\<close>

theorem layout_fails_iff:
  "(\<exists>e. layout exists nss = Inl e) \<longleftrightarrow>
     (\<exists>ns \<in> set nss. \<exists>p. ns_path ns = Some p \<and> p \<noteq> [] \<and> \<not> exists p)"
proof -
  have "(\<exists>e. layout exists nss = Inl e) \<longleftrightarrow> (\<exists>e. layout_scan exists nss 0 [] = Inl e)"
    by (cases "layout_scan exists nss 0 []") (auto simp: layout_def)
  then show ?thesis
    unfolding layout_scan_fails joins_def join_target_def by fastforce
qed

end
