(* ===== verification/Oci.thy ===== *)
theory Oci
  imports Namespace
begin

text \<open>
  The data of an OCI bundle as the program sees it. The types belong to the \<^verbatim>\<open>oci_spec\<close>
  crate; each record here has one field for each accessor the sources call, with the type of that
  accessor. Unsigned numbers are \<^typ>\<open>nat\<close>, signed ones \<^typ>\<open>int\<close>. A \<^verbatim>\<open>HashMap\<close> is
  the list of its entries in the (unspecified) order in which iterating visits them, a
  \<^verbatim>\<open>HashSet\<close> the list of its elements: theorems about every list are theorems about every
  iteration order.
\<close>

type_synonym str_map = "(string \<times> string) list"

section \<open>Process\<close>

datatype rlimit_type =
  RlimitCpu | RlimitFsize | RlimitData | RlimitStack | RlimitCore | RlimitRss | RlimitNproc
  | RlimitNofile | RlimitMemlock | RlimitAs | RlimitLocks | RlimitSigpending | RlimitMsgqueue
  | RlimitNice | RlimitRtprio | RlimitRttime

record rlimit =
  rl_typ :: rlimit_type
  rl_soft :: nat
  rl_hard :: nat

record user =
  us_uid :: nat
  us_gid :: nat
  us_umask :: "nat option"
  us_additional_gids :: "nat list option"

record capabilities =
  ca_bounding :: "string list option"
  ca_effective :: "string list option"
  ca_inheritable :: "string list option"
  ca_permitted :: "string list option"
  ca_ambient :: "string list option"

record process =
  pr_terminal :: "bool option"
  pr_user :: user
  pr_args :: "string list option"
  pr_env :: "string list option"
  pr_cwd :: string
  pr_capabilities :: "capabilities option"
  pr_rlimits :: "rlimit list option"
  pr_no_new_privileges :: "bool option"
  pr_oom_score_adj :: "int option"

section \<open>Resources\<close>

record memory =
  me_limit :: "int option"
  me_reservation :: "int option"
  me_swap :: "int option"

record cpu =
  cp_shares :: "nat option"
  cp_quota :: "int option"
  cp_period :: "nat option"
  cp_cpus :: "string option"
  cp_mems :: "string option"

record throttle_device =
  td_major :: int
  td_minor :: int
  td_rate :: nat

record block_io =
  bi_weight :: "nat option"
  bi_read_bps :: "throttle_device list option"
  bi_write_bps :: "throttle_device list option"
  bi_read_iops :: "throttle_device list option"
  bi_write_iops :: "throttle_device list option"

record resources =
  rs_memory :: "memory option"
  rs_cpu :: "cpu option"
  rs_pids :: "int option"
  rs_block_io :: "block_io option"
  rs_unified :: "str_map option"

section \<open>Seccomp\<close>

datatype seccomp_action =
  ScmpActKill | ScmpActKillProcess | ScmpActKillThread | ScmpActTrap | ScmpActErrno
  | ScmpActTrace | ScmpActAllow | ScmpActLog | ScmpActNotify

datatype seccomp_arch =
  ScmpArchNative | ScmpArchX86 | ScmpArchX86_64 | ScmpArchX32 | ScmpArchArm | ScmpArchAarch64
  | ScmpArchMips | ScmpArchMips64 | ScmpArchMips64n32 | ScmpArchMipsel | ScmpArchMipsel64
  | ScmpArchMipsel64n32 | ScmpArchPpc | ScmpArchPpc64 | ScmpArchPpc64le | ScmpArchS390
  | ScmpArchS390x | ScmpArchParisc | ScmpArchParisc64 | ScmpArchRiscv64 | ScmpArchOther string

datatype seccomp_flag = FlagLog | FlagTsync | FlagSpecAllow | FlagWaitKillableRecv

datatype seccomp_operator = CmpNe | CmpLt | CmpLe | CmpEq | CmpGe | CmpGt | CmpMaskedEq

record seccomp_arg =
  sa_index :: nat
  sa_value :: nat
  sa_value_two :: "nat option"
  sa_op :: seccomp_operator

record seccomp_syscall =
  sy_names :: "string list"
  sy_action :: seccomp_action
  sy_errno_ret :: "nat option"
  sy_args :: "seccomp_arg list option"

record seccomp =
  se_default_action :: seccomp_action
  se_default_errno_ret :: "nat option"
  se_architectures :: "seccomp_arch list option"
  se_flags :: "seccomp_flag list option"
  se_syscalls :: "seccomp_syscall list option"

section \<open>Mounts, devices, mappings, hooks\<close>

record mount_spec =
  mt_destination :: string
  mt_typ :: "string option"
  mt_source :: "string option"
  mt_options :: "string list option"

datatype device_type = DevAll | DevBlock | DevChar | DevUnbuffered | DevPipe

record device =
  de_path :: string
  de_typ :: device_type
  de_major :: int
  de_minor :: int
  de_file_mode :: "nat option"
  de_uid :: "nat option"
  de_gid :: "nat option"

record id_mapping =
  im_container_id :: nat
  im_host_id :: nat
  im_size :: nat

record time_offset =
  to_secs :: "int option"
  to_nanosecs :: "nat option"

record hook =
  ho_path :: string
  ho_args :: "string list option"
  ho_env :: "string list option"
  ho_timeout :: "int option"

record hooks =
  hk_prestart :: "hook list option"
  hk_create_runtime :: "hook list option"
  hk_create_container :: "hook list option"
  hk_start_container :: "hook list option"
  hk_poststart :: "hook list option"
  hk_poststop :: "hook list option"

section \<open>The specification\<close>

record root_spec =
  ro_path :: string
  ro_readonly :: "bool option"

record linux =
  li_namespaces :: "linux_namespace list option"
  li_uid_mappings :: "id_mapping list option"
  li_gid_mappings :: "id_mapping list option"
  li_devices :: "device list option"
  li_resources :: "resources option"
  li_cgroups_path :: "string option"
  li_seccomp :: "seccomp option"
  li_masked_paths :: "string list option"
  li_readonly_paths :: "string list option"
  li_time_offsets :: "(string \<times> time_offset) list option"
  li_sysctl :: "str_map option"
  li_rootfs_propagation :: "string option"

record spec =
  sp_version :: string
  sp_root :: "root_spec option"
  sp_process :: "process option"
  sp_hostname :: "string option"
  sp_domainname :: "string option"
  sp_mounts :: "mount_spec list option"
  sp_hooks :: "hooks option"
  sp_annotations :: "str_map option"
  sp_linux :: "linux option"
  sp_solaris :: bool
  sp_windows :: bool
  sp_vm :: bool
  sp_zos :: bool

text \<open>\<^verbatim>\<open>iter().flatten()\<close> over an optional list.\<close>

abbreviation flat :: "'a list option \<Rightarrow> 'a list" where
  "flat xs \<equiv> get_or [] xs"

end
