(* ===== verification/Validate.thy ===== *)
theory Validate
  imports Oci
begin

text \<open>
  \<^verbatim>\<open>src/src/bundle/validate.rs\<close>: the checks a \<^verbatim>\<open>config.json\<close> passes before
  anything is done with it, check by check in the order of the source, with the error each raises.
  \<open>spec_accepts\<close> then says what an accepted specification looks like.
\<close>

definition SUPPORTED_MAJOR :: nat where "SUPPORTED_MAJOR = 1"

definition PROPAGATIONS :: "string list" where
  "PROPAGATIONS = [''shared'', ''slave'', ''private'', ''unbindable'']"

definition platform :: "spec \<Rightarrow> unit res" where
  "platform s =
     each_res (\<lambda>(what, present). guard_res present (OutOfScope what))
       [(''the solaris section of config.json'', sp_solaris s),
        (''the windows section of config.json'', sp_windows s),
        (''the vm section of config.json'', sp_vm s),
        (''the zos section of config.json'', sp_zos s)]"

text \<open>\<open>split(['-', '+']).next()\<close> is the part before the first of the two characters.\<close>

definition numeric_part :: "string \<Rightarrow> string" where
  "numeric_part v = takeWhile (\<lambda>c. c \<noteq> CHR ''-'' \<and> c \<noteq> CHR ''+'') v"

definition version :: "string \<Rightarrow> unit res" where
  "version v =
     (let parts = split_on (CHR ''.'') (numeric_part v) in
      if length parts \<noteq> 3 \<or> list_ex (\<lambda>p. parse_unsigned u64_bound p = None) parts
      then Inl (Invalid ''ociVersion is not a major.minor.patch version'')
      else (case parse_unsigned u64_bound (parts ! 0) of
              Some major \<Rightarrow>
                if major \<noteq> SUPPORTED_MAJOR
                then Inl (Invalid ''ociVersion declares another runtime-spec major version'')
                else Inr ()
            | None \<Rightarrow> Inl (Invalid ''ociVersion is not a major.minor.patch version'')))"

text \<open>
  The last branch stands for the \<^verbatim>\<open>unwrap\<close> of \<^verbatim>\<open>parts[0]\<close>, which cannot fail there:
  \<open>version_major_parses\<close> below.
\<close>

fun distinct_types :: "ns_type list \<Rightarrow> linux_namespace list \<Rightarrow> ns_type list res" where
  "distinct_types seen [] = Inr seen"
| "distinct_types seen (ns # rest) =
     (if ns_typ ns \<in> set seen then Inl (Invalid ''namespace type is listed more than once'')
      else distinct_types (seen @ [ns_typ ns]) rest)"

definition spec_namespaces :: "spec \<Rightarrow> linux_namespace list" where
  "spec_namespaces s = flat (Option.bind (sp_linux s) li_namespaces)"

definition namespace_types :: "spec \<Rightarrow> ns_type list res" where
  "namespace_types s = distinct_types [] (spec_namespaces s)"

fun check_rlimits :: "rlimit_type list \<Rightarrow> rlimit list \<Rightarrow> unit res" where
  "check_rlimits limits [] = Inr ()"
| "check_rlimits limits (r # rest) =
     (if rl_typ r \<in> set limits then Inl (Invalid ''process.rlimits lists a type more than once'')
      else if rl_soft r > rl_hard r
        then Inl (Invalid ''process.rlimits has a soft limit above its hard limit'')
      else check_rlimits (limits @ [rl_typ r]) rest)"

definition check_process :: "spec \<Rightarrow> unit res" where
  "check_process s = (case sp_process s of
     None \<Rightarrow> Inr ()
   | Some p \<Rightarrow>
       (case flat (pr_args p) of
          [] \<Rightarrow> Inl (SpecField ''process.args'')
        | arg0 # _ \<Rightarrow>
            if arg0 = [] then Inl (Invalid ''process.args[0] is empty; there is no program to execute'')
            else if \<not> is_absolute (pr_cwd p) then Inl (Invalid ''process.cwd is not an absolute path'')
            else and_then
              (each_res (\<lambda>entry. guard_res (CHR ''='' \<notin> set entry)
                  (Invalid ''process.env entry is not in KEY=VALUE form'')) (flat (pr_env p)))
              (\<lambda>_. check_rlimits [] (flat (pr_rlimits p)))))"

definition check_mounts :: "spec \<Rightarrow> unit res" where
  "check_mounts s =
     each_res (\<lambda>m. guard_res (\<not> is_absolute (mt_destination m))
       (Invalid ''mount destination is not an absolute path'')) (flat (sp_mounts s))"

definition validate_spec :: "spec \<Rightarrow> unit res" where
  "validate_spec s =
     and_then (platform s) (\<lambda>_.
     and_then (version (sp_version s)) (\<lambda>_.
     and_then (ok_or (sp_root s) (SpecField ''root'')) (\<lambda>root.
     and_then (guard_res (ro_path root = []) (Invalid ''root.path is empty'')) (\<lambda>_.
     and_then (ok_or (sp_linux s) (SpecField ''linux'')) (\<lambda>linux.
     and_then (namespace_types s) (\<lambda>namespaces.
     and_then (check_process s) (\<lambda>_.
     and_then (check_mounts s) (\<lambda>_.
     and_then (guard_res (sp_hostname s \<noteq> None \<and> NsUts \<notin> set namespaces)
       (Invalid ''hostname is set but the container has no UTS namespace'')) (\<lambda>_.
     and_then (guard_res (sp_domainname s \<noteq> None \<and> NsUts \<notin> set namespaces)
       (Invalid ''domainname is set but the container has no UTS namespace'')) (\<lambda>_.
     and_then (case li_rootfs_propagation linux of
         None \<Rightarrow> Inr ()
       | Some p \<Rightarrow> guard_res (p \<notin> set PROPAGATIONS)
           (Invalid ''linux.rootfsPropagation is not one of the known modes'')) (\<lambda>_.
     each_res (\<lambda>path. guard_res (\<not> is_absolute path) (Invalid ''entry is not an absolute path''))
       (flat (li_masked_paths linux) @ flat (li_readonly_paths linux)))))))))))))"

section \<open>What is accepted\<close>

lemma distinct_types_Inr:
  "distinct_types seen nss = Inr types \<Longrightarrow> distinct seen \<Longrightarrow>
     types = seen @ map ns_typ nss \<and> distinct types"
  by (induction seen nss rule: distinct_types.induct) (fastforce split: if_splits)+

lemma distinct_types_iff:
  "distinct seen \<Longrightarrow> (\<exists>types. distinct_types seen nss = Inr types) \<longleftrightarrow> distinct (seen @ map ns_typ nss)"
proof (induction seen nss rule: distinct_types.induct)
  case (2 seen ns rest)
  then show ?case by (cases "ns_typ ns \<in> set seen") auto
qed simp

lemma check_rlimits_iff:
  "distinct limits \<Longrightarrow> check_rlimits limits rs = Inr () \<longleftrightarrow>
     distinct (limits @ map rl_typ rs) \<and> (\<forall>r \<in> set rs. rl_soft r \<le> rl_hard r)"
proof (induction limits rs rule: check_rlimits.induct)
  case (2 limits r rest)
  then show ?case by (cases "rl_typ r \<in> set limits") auto
qed simp

lemma version_major_parses:
  "\<not> (length parts \<noteq> 3 \<or> list_ex (\<lambda>p. parse_unsigned u64_bound p = None) parts) \<Longrightarrow>
     \<exists>n. parse_unsigned u64_bound (parts ! 0) = Some n"
  by (auto simp: list_ex_iff)

lemma version_Inr_iff:
  "version v = Inr () \<longleftrightarrow> (\<exists>minor patch a b c.
      numeric_part v = a @ ''.'' @ b @ ''.'' @ c \<and> CHR ''.'' \<notin> set a \<and> CHR ''.'' \<notin> set b \<and> CHR ''.'' \<notin> set c
      \<and> parse_unsigned u64_bound a = Some 1 \<and> parse_unsigned u64_bound b = Some minor
      \<and> parse_unsigned u64_bound c = Some patch)"
proof -
  let ?p = "split_on (CHR ''.'') (numeric_part v)"
  have "version v = Inr () \<longleftrightarrow> (\<exists>a b c minor patch. ?p = [a, b, c]
      \<and> parse_unsigned u64_bound a = Some 1 \<and> parse_unsigned u64_bound b = Some minor
      \<and> parse_unsigned u64_bound c = Some patch)"
    by (auto simp: version_def SUPPORTED_MAJOR_def Let_def length_Suc_conv numeral_3_eq_3
        split: option.splits if_splits)
  moreover have "?p = [a, b, c] \<longleftrightarrow> numeric_part v = a @ ''.'' @ b @ ''.'' @ c
      \<and> CHR ''.'' \<notin> set a \<and> CHR ''.'' \<notin> set b \<and> CHR ''.'' \<notin> set c" for a b c
  proof
    assume p: "?p = [a, b, c]"
    then show "numeric_part v = a @ ''.'' @ b @ ''.'' @ c
      \<and> CHR ''.'' \<notin> set a \<and> CHR ''.'' \<notin> set b \<and> CHR ''.'' \<notin> set c"
      using join_split_on [of "CHR ''.''" "numeric_part v"]
        split_on_parts_free [of _ "CHR ''.''" "numeric_part v"] by simp
  next
    assume "numeric_part v = a @ ''.'' @ b @ ''.'' @ c
      \<and> CHR ''.'' \<notin> set a \<and> CHR ''.'' \<notin> set b \<and> CHR ''.'' \<notin> set c"
    then show "?p = [a, b, c]" by (simp add: split_on_append split_on_free)
  qed
  ultimately show ?thesis by blast
qed

text \<open>
  The conditions as a reader of the OCI specification would list them, without the order in which
  the code tests them.
\<close>

definition wf_version :: "string \<Rightarrow> bool" where
  "wf_version v = (\<exists>minor patch a b c.
      numeric_part v = a @ ''.'' @ b @ ''.'' @ c \<and> CHR ''.'' \<notin> set a \<and> CHR ''.'' \<notin> set b \<and> CHR ''.'' \<notin> set c
      \<and> parse_unsigned u64_bound a = Some 1 \<and> parse_unsigned u64_bound b = Some minor
      \<and> parse_unsigned u64_bound c = Some patch)"

definition wf_process :: "process \<Rightarrow> bool" where
  "wf_process p \<longleftrightarrow>
     (\<exists>arg0 rest. pr_args p = Some (arg0 # rest) \<and> arg0 \<noteq> [])
     \<and> is_absolute (pr_cwd p)
     \<and> (\<forall>entry \<in> set (flat (pr_env p)). CHR ''='' \<in> set entry)
     \<and> distinct (map rl_typ (flat (pr_rlimits p)))
     \<and> (\<forall>r \<in> set (flat (pr_rlimits p)). rl_soft r \<le> rl_hard r)"

definition wf_linux :: "linux \<Rightarrow> bool" where
  "wf_linux l \<longleftrightarrow>
     distinct (map ns_typ (flat (li_namespaces l)))
     \<and> (\<forall>p. li_rootfs_propagation l = Some p \<longrightarrow> p \<in> set PROPAGATIONS)
     \<and> (\<forall>p \<in> set (flat (li_masked_paths l)) \<union> set (flat (li_readonly_paths l)). is_absolute p)"

definition wf_spec :: "spec \<Rightarrow> bool" where
  "wf_spec s \<longleftrightarrow>
     \<not> sp_solaris s \<and> \<not> sp_windows s \<and> \<not> sp_vm s \<and> \<not> sp_zos s
     \<and> wf_version (sp_version s)
     \<and> (\<exists>r. sp_root s = Some r \<and> ro_path r \<noteq> [])
     \<and> (\<exists>l. sp_linux s = Some l \<and> wf_linux l)
     \<and> (\<forall>p. sp_process s = Some p \<longrightarrow> wf_process p)
     \<and> (\<forall>m \<in> set (flat (sp_mounts s)). is_absolute (mt_destination m))
     \<and> (sp_hostname s \<noteq> None \<or> sp_domainname s \<noteq> None \<longrightarrow>
          NsUts \<in> ns_typ ` set (spec_namespaces s))"

lemma version_wf: "version v = Inr () \<longleftrightarrow> wf_version v"
  unfolding wf_version_def by (rule version_Inr_iff)

lemma platform_iff:
  "platform s = Inr () \<longleftrightarrow> \<not> sp_solaris s \<and> \<not> sp_windows s \<and> \<not> sp_vm s \<and> \<not> sp_zos s"
  by (simp add: platform_def result_simps)

lemma check_process_iff:
  "check_process s = Inr () \<longleftrightarrow> (\<forall>p. sp_process s = Some p \<longrightarrow> wf_process p)"
proof (cases "sp_process s")
  case (Some p)
  show ?thesis
  proof (cases "pr_args p")
    case args: (Some args)
    with Some show ?thesis
      by (cases args) (auto simp: check_process_def wf_process_def result_simps check_rlimits_iff)
  qed (use Some in \<open>simp add: check_process_def wf_process_def\<close>)
qed (simp add: check_process_def)

lemma check_mounts_iff:
  "check_mounts s = Inr () \<longleftrightarrow> (\<forall>m \<in> set (flat (sp_mounts s)). is_absolute (mt_destination m))"
  by (simp add: check_mounts_def result_simps)

lemma validate_spec_wf: "validate_spec s = Inr () \<longleftrightarrow> wf_spec s"
proof (cases "sp_linux s")
  case (Some l)
  have ns: "namespace_types s = Inr types \<longleftrightarrow>
      distinct (map ns_typ (flat (li_namespaces l))) \<and> types = map ns_typ (flat (li_namespaces l))" for types
    using distinct_types_iff [of "[]"] distinct_types_Inr [of "[]"] Some
    by (fastforce simp: namespace_types_def spec_namespaces_def)
  have uts: "NsUts \<in> ns_typ ` set (spec_namespaces s) \<longleftrightarrow> NsUts \<in> ns_typ ` set (flat (li_namespaces l))"
    using Some by (simp add: spec_namespaces_def)
  have propagation: "(case li_rootfs_propagation l of None \<Rightarrow> Inr ()
      | Some p \<Rightarrow> guard_res (p \<notin> set PROPAGATIONS) e) = Inr () \<longleftrightarrow>
      (\<forall>p. li_rootfs_propagation l = Some p \<longrightarrow> p \<in> set PROPAGATIONS)" for e
    by (auto simp: result_simps split: option.splits)
  show ?thesis
    unfolding validate_spec_def wf_spec_def wf_linux_def uts
    by (simp add: result_simps Some ns propagation platform_iff check_process_iff check_mounts_iff
        version_wf)
       (cases "sp_hostname s"; cases "sp_domainname s"; simp; blast)
qed (auto simp: validate_spec_def wf_spec_def result_simps)

text \<open>
  C19: the validator accepts exactly the well-formed specifications: version 1.x.y with numeric
  parts, a non-empty root path, a linux section with pairwise distinct namespace types, a process
  with a program, an absolute cwd, KEY=VALUE environment entries and consistent rlimits, absolute
  mount, masked and read-only paths, a known propagation mode, and a UTS namespace whenever a host or
  domain name is set (so that setting it cannot rename the host).
\<close>

theorem validate_spec_iff_wf: "validate_spec s = Inr () \<longleftrightarrow> wf_spec s"
  by (rule validate_spec_wf)

end
