(* ===== verification/Data.thy ===== *)
theory Data
  imports Oci
begin

text \<open>
  The data the processes of the runtime exchange: the container status and the persisted state
  (\<^verbatim>\<open>src/src/state.rs\<close>), the messages of the synchronisation channel
  (\<^verbatim>\<open>src/src/sync.rs\<close>) and the timed phases they carry (\<^verbatim>\<open>src/src/telemetry.rs\<close>).
\<close>

datatype status = Creating | Created | Running | Stopped | Paused

definition status_text :: "status \<Rightarrow> string" where
  "status_text s = (case s of
     Creating \<Rightarrow> ''creating'' | Created \<Rightarrow> ''created'' | Running \<Rightarrow> ''running''
   | Stopped \<Rightarrow> ''stopped'' | Paused \<Rightarrow> ''paused'')"

record persisted =
  pe_oci_version :: string
  pe_id :: string
  pe_pid :: int
  pe_start_time :: nat
  pe_bundle :: string
  pe_rootfs :: string
  pe_cgroup :: string
  pe_created :: string
  pe_rootless :: bool
  pe_annotations :: str_map

record oci_state =
  os_version :: string
  os_id :: string
  os_status :: status
  os_pid :: "int option"
  os_bundle :: string
  os_annotations :: "str_map option"

record phase =
  ph_name :: string
  ph_start_us :: "64 word"
  ph_end_us :: "64 word"

datatype message =
    RequestUserMapping
  | UserMappingDone
  | InitPid int "phase list"
  | CgroupApplied int
  | InitReady "phase list"
  | Failed string

definition OCI_VERSION :: string where "OCI_VERSION = ''1.0.2''"

text \<open>\<^verbatim>\<open>to_string\<close> of an error, as its \<^verbatim>\<open>#[error]\<close> attributes give it; an errno is rendered by its name.\<close>

definition errno_text :: "errno \<Rightarrow> string" where
  "errno_text e = (case e of
     EPERM \<Rightarrow> ''EPERM'' | ENOENT \<Rightarrow> ''ENOENT'' | EACCES \<Rightarrow> ''EACCES'' | EBUSY \<Rightarrow> ''EBUSY''
   | ECHILD \<Rightarrow> ''ECHILD'' | EPIPE \<Rightarrow> ''EPIPE'' | EOVERFLOW \<Rightarrow> ''EOVERFLOW'' | EOTHER n \<Rightarrow> dec_text n)"

fun error_text :: "error \<Rightarrow> string" where
  "error_text (NotFound i) = ''container '' @ i @ '' does not exist''"
| "error_text (AlreadyExists i) = ''container '' @ i @ '' already exists''"
| "error_text (InvalidId i) = ''invalid container id '' @ i @ '': must be non-empty and match [a-zA-Z0-9._+-]+''"
| "error_text (BadState i actual expected) =
     ''container '' @ i @ '' is '' @ actual @ '', expected '' @ expected"
| "error_text (MissingConfig d) = ''bundle '' @ d @ '' has no config.json''"
| "error_text (SpecField f) = ''config.json is missing required field '' @ f"
| "error_text (Invalid m) = ''config.json is invalid: '' @ m"
| "error_text (OverlayErr m) = ''overlay rootfs: '' @ m"
| "error_text (RootfsMissing d) = ''rootfs '' @ d @ '' does not exist or is not a directory''"
| "error_text (ExecutableNotFound p) = ''executable '' @ p @ '' not found in the container PATH''"
| "error_text (NulByte s) = s @ '' contains a nul byte and cannot be passed to execve''"
| "error_text (InitFailed m) = ''container init failed: '' @ m"
| "error_text (SyncErr m) = ''synchronisation error: '' @ m"
| "error_text SyncClosed = ''synchronisation channel closed before the container reported readiness''"
| "error_text (OutOfScope m) = m @ '' is deliberately out of scope for mars''"
| "error_text (Unimplemented m) = m @ '' is not implemented yet''"
| "error_text NoCgroupV2 = ''cgroup v2 unified hierarchy not found at /sys/fs/cgroup''"
| "error_text (IoErr c e) = c @ '': '' @ errno_text e"
| "error_text (NixErr c e) = c @ '': '' @ errno_text e"
| "error_text JsonErr = ''json''"
| "error_text (SyscallErr e) = errno_text e"
| "error_text SpecErr = ''spec''"
| "error_text Diverged = []"
| "error_text Panicked = []"

end
