(* ===== verification/Kernel.thy ===== *)
theory Kernel
  imports Data
begin

text \<open>
  The boundary of the program. Everything outside its own code (the Linux kernel through
  \<^verbatim>\<open>std\<close> and \<^verbatim>\<open>nix\<close>, the libraries \<^verbatim>\<open>libseccomp\<close>, \<^verbatim>\<open>caps\<close>,
  \<^verbatim>\<open>serde_json\<close>) is a parameter \<open>K\<close> of the model. A call across the boundary is a
  \<open>sysop\<close>; its answer may depend on everything the process has done before, in any way, so a
  theorem for all \<open>K\<close> holds for every kernel, every failure and every interference by other
  processes.

  A piece of the program is a function from the history of calls (most recent first) to a result
  and the extended history. \<open>wp\<close> is its weakest precondition; the rules at the end are the
  verification conditions the components use.
\<close>

section \<open>Calls\<close>

datatype cap_set = CapEffective | CapPermitted | CapInheritable | CapBounding | CapAmbient

datatype node_kind = NodeChar | NodeBlock | NodeFifo

text \<open>\<open>OAppend\<close> creates a missing file and writes at its end.\<close>

datatype open_mode = OPath | ORead | OWrite | ODirectory | OAppend

datatype wait_status = WExited int int | WSignaled int int | WStillAlive | WOther

datatype scmp_action =
  AKillThread | AKillProcess | ATrap | AErrno "32 word" | ATrace "16 word" | AAllow | ALog

datatype scmp_op = OpNe | OpLt | OpLe | OpEq | OpGe | OpGt | OpMaskedEq nat

type_synonym mount_flags = "64 word"

datatype fs_query =
    Exists string | IsFile string | IsDir string | LinkMeta string | ReadFile string
  | ReadDir string | ReadLink string | Canonicalize string | StatDev string | StatFs string

datatype fs_op =
    WriteFile string string | CreateFile string | MkDir string | MkDirAll string
  | RmFile string | RmDir string | RmDirAll string | Rename string string
  | Symlink string string | Chmod string nat | Chown string "nat option" "nat option"
  | MkFifo string nat | MkNod string node_kind nat nat nat

datatype fd_op = OpenFd string open_mode | FdWrite int string | FdRead int

datatype mnt_op =
    Mount "string option" string "string option" mount_flags "string option"
  | UmountDetach string | PivotRoot string string | Chdir string | FChdir int

datatype ns_op =
  Unshare clone_flags | SetNs int clone_flags | SetHostname string | SetDomainname string

datatype proc_op =
    Fork | Execve string "string list" "string list" | ExitProc nat | WaitPid "int option"
  | KillProc int int | SubReaper | SigBlock "int list" | SigUnblockAll | SigWait

datatype cred_op =
    GetEuid | SetResGid nat | SetResUid nat | SetGroups "nat list" | SetGid nat | SetUid nat
  | Umask nat | SetRlimit rlimit_type nat nat | KeepCaps bool | NoNewPrivs

datatype cap_op =
    CapsRead cap_set | CapsDrop cap_set string | CapsSet cap_set "string list"
  | CapsClear cap_set | CapsRaise cap_set string

datatype sc_op =
    ScNew scmp_action | ScAddArch seccomp_arch | ScSetAttr string nat
  | ScAddRule scmp_action string "(nat \<times> scmp_op \<times> nat) list" | ScLoad

datatype chan_op = ChanPair | ChanSend message | ChanRecv

datatype time_op = Now | WallClock | SleepMs nat

datatype cmd_op =
    Spawn string string "string list" "(string \<times> string) list" | ChildStdin string
  | ChildWait | ChildTryWait | ChildKill | RunHelper string "string list"

datatype tty_op =
    NewSocket | ConnectSocket int string | OpenPty | PtsName int | SendMaster int int string | SetSid
  | ClaimTty int | Dup2 int nat | PrintOut string | PrintErr string

text \<open>
  The network, for the report of the telemetry; \<open>RandomBytes n\<close> answers with \<open>n\<close> bytes,
  \<open>NetReadAll\<close> with the response as \<^verbatim>\<open>from_utf8_lossy\<close> decodes it.
\<close>

datatype net_op =
    NetConnect string | NetReadTimeout nat | NetWriteTimeout nat | NetSend string | NetReadAll
  | HostName | RandomBytes nat

datatype sysop =
    Query fs_query | Fs fs_op | Fd fd_op | Mnt mnt_op | Ns ns_op | Proc proc_op | Cred cred_op
  | Cap cap_op | Sc sc_op | Chan chan_op | Time time_op | Cmd cmd_op | Tty tty_op | Net net_op

text \<open>
  One reply type serves all calls; each call reads the fields that concern it. \<open>r_err\<close> is
  \<^verbatim>\<open>Err\<close> of the Rust call, \<open>None\<close> for \<^verbatim>\<open>Ok\<close>.
\<close>

record reply =
  r_err :: "errno option"
  r_flag :: bool
  r_num :: int
  r_num2 :: int
  r_text :: string
  r_list :: "string list"
  r_msg :: "message option"
  r_wait :: wait_status

text \<open>
  The outside: the answers, and the pure functions of the libraries. \<open>fuel\<close> bounds the loops
  of the program that only the outside can end (waiting for a child, for a signal); a theorem for
  all \<open>K\<close> is one for every bound. A run that exceeds it fails with \<open>Diverged\<close>, which
  makes no further call of the code's own but is treated like any error by callers, so the model
  allows everything the code does and a theorem about all runs covers the unbounded ones.
\<close>

record outside =
  answer :: "sysop list \<Rightarrow> sysop \<Rightarrow> reply"
  parse_spec :: "string \<Rightarrow> spec option"
  parse_state :: "string \<Rightarrow> persisted option"
  parse_process :: "string \<Rightarrow> process option"
  parse_resources :: "string \<Rightarrow> resources option"
  state_json :: "persisted \<Rightarrow> string option"
  oci_json :: "oci_state \<Rightarrow> string option"
  known_cap :: "string \<Rightarrow> bool"
  known_syscall :: "string \<Rightarrow> bool"
  known_signal :: "int \<Rightarrow> bool"
  signal_named :: "string \<Rightarrow> int option"
  fuel :: nat

section \<open>Programs\<close>

type_synonym history = "sysop list"
type_synonym 'a prog = "history \<Rightarrow> 'a res \<times> history"

definition ret :: "'a \<Rightarrow> 'a prog" where
  "ret x = (\<lambda>h. (Inr x, h))"

definition fail :: "error \<Rightarrow> 'a prog" where
  "fail e = (\<lambda>h. (Inl e, h))"

definition bind_p :: "'a prog \<Rightarrow> ('a \<Rightarrow> 'b prog) \<Rightarrow> 'b prog" where
  "bind_p m f = (\<lambda>h. case m h of (r, h') \<Rightarrow> (case r of Inl e \<Rightarrow> (Inl e, h') | Inr x \<Rightarrow> f x h'))"

text \<open>\<^verbatim>\<open>match m { ... }\<close> on a result: both outcomes go on.\<close>

definition on_result :: "'a prog \<Rightarrow> ('a res \<Rightarrow> 'b prog) \<Rightarrow> 'b prog" where
  "on_result m f = (\<lambda>h. case m h of (r, h') \<Rightarrow> f r h')"

definition call :: "outside \<Rightarrow> sysop \<Rightarrow> reply prog" where
  "call K op = (\<lambda>h. (Inr (answer K h op), op # h))"

definition lift_res :: "'a res \<Rightarrow> 'a prog" where
  "lift_res r = (\<lambda>h. (r, h))"

text \<open>
  The derived forms: a call whose failure is an error built by \<open>c\<close> (\<^verbatim>\<open>.ctx(..)?\<close>),
  one that cannot fail, \<^verbatim>\<open>let _ = m\<close>, \<^verbatim>\<open>m.ok()\<close>, a \<^verbatim>\<open>for\<close> loop with
  \<^verbatim>\<open>?\<close> in its body, and \<^verbatim>\<open>if\<close> without \<^verbatim>\<open>else\<close>.
\<close>

definition io :: "outside \<Rightarrow> (errno \<Rightarrow> error) \<Rightarrow> sysop \<Rightarrow> (reply \<Rightarrow> 'a) \<Rightarrow> 'a prog" where
  "io K c op f = bind_p (call K op)
     (\<lambda>r. case r_err r of Some e \<Rightarrow> fail (c e) | None \<Rightarrow> ret (f r))"

definition do_op :: "outside \<Rightarrow> (errno \<Rightarrow> error) \<Rightarrow> sysop \<Rightarrow> unit prog" where
  "do_op K c op = io K c op (\<lambda>_. ())"

definition ask :: "outside \<Rightarrow> sysop \<Rightarrow> (reply \<Rightarrow> 'a) \<Rightarrow> 'a prog" where
  "ask K op f = bind_p (call K op) (\<lambda>r. ret (f r))"

definition seq_p :: "unit prog \<Rightarrow> 'b prog \<Rightarrow> 'b prog" where
  "seq_p m n = bind_p m (\<lambda>_. n)"

definition ignore :: "'a prog \<Rightarrow> unit prog" where
  "ignore m = on_result m (\<lambda>_. ret ())"

definition or_else :: "'a \<Rightarrow> 'a prog \<Rightarrow> 'a prog" where
  "or_else d m = on_result m (\<lambda>r. case r of Inl _ \<Rightarrow> ret d | Inr x \<Rightarrow> ret x)"

definition when_p :: "bool \<Rightarrow> unit prog \<Rightarrow> unit prog" where
  "when_p b m = (if b then m else ret ())"

definition given :: "'a option \<Rightarrow> ('a \<Rightarrow> unit prog) \<Rightarrow> unit prog" where
  "given x f = (case x of None \<Rightarrow> ret () | Some y \<Rightarrow> f y)"

fun each :: "('a \<Rightarrow> unit prog) \<Rightarrow> 'a list \<Rightarrow> unit prog" where
  "each f [] = ret ()"
| "each f (x # xs) = seq_p (f x) (each f xs)"

fun steps :: "unit prog list \<Rightarrow> unit prog" where
  "steps [] = ret ()"
| "steps (m # ms) = seq_p m (steps ms)"

section \<open>Weakest preconditions\<close>

definition wp :: "'a prog \<Rightarrow> ('a \<Rightarrow> history \<Rightarrow> bool) \<Rightarrow> (error \<Rightarrow> history \<Rightarrow> bool) \<Rightarrow> history \<Rightarrow> bool" where
  "wp m Q E h = (case m h of (r, h') \<Rightarrow> (case r of Inl e \<Rightarrow> E e h' | Inr x \<Rightarrow> Q x h'))"

named_theorems wp_simps \<open>computation of weakest preconditions\<close>

lemma wp_ret [wp_simps]: "wp (ret x) Q E = Q x"
  by (simp add: fun_eq_iff wp_def ret_def)

lemma wp_fail [wp_simps]: "wp (fail e) Q E = E e"
  by (simp add: fun_eq_iff wp_def fail_def)

lemma wp_bind [wp_simps]: "wp (bind_p m f) Q E = wp m (\<lambda>x. wp (f x) Q E) E"
  by (auto simp: fun_eq_iff wp_def bind_p_def split: prod.splits sum.splits)

lemma wp_on_result [wp_simps]:
  "wp (on_result m f) Q E = wp m (\<lambda>x. wp (f (Inr x)) Q E) (\<lambda>e. wp (f (Inl e)) Q E)"
  by (auto simp: fun_eq_iff wp_def on_result_def split: prod.splits sum.splits)

lemma wp_call [wp_simps]: "wp (call K op) Q E = (\<lambda>h. Q (answer K h op) (op # h))"
  by (simp add: fun_eq_iff wp_def call_def)

lemma wp_lift_res [wp_simps]:
  "wp (lift_res r) Q E = (case r of Inl e \<Rightarrow> E e | Inr x \<Rightarrow> Q x)"
  by (simp add: fun_eq_iff wp_def lift_res_def split: sum.splits)

lemma wp_io [wp_simps]:
  "wp (io K c op f) Q E = (\<lambda>h.
     case r_err (answer K h op) of
       Some e \<Rightarrow> E (c e) (op # h) | None \<Rightarrow> Q (f (answer K h op)) (op # h))"
  by (simp add: fun_eq_iff io_def wp_bind wp_call wp_fail wp_ret split: option.splits)

lemma wp_do_op [wp_simps]:
  "wp (do_op K c op) Q E = (\<lambda>h.
     case r_err (answer K h op) of Some e \<Rightarrow> E (c e) (op # h) | None \<Rightarrow> Q () (op # h))"
  by (simp add: do_op_def wp_io)

lemma wp_ask [wp_simps]: "wp (ask K op f) Q E = (\<lambda>h. Q (f (answer K h op)) (op # h))"
  by (simp add: ask_def wp_bind wp_call wp_ret)

lemma wp_seq [wp_simps]: "wp (seq_p m n) Q E = wp m (\<lambda>_. wp n Q E) E"
  by (simp add: seq_p_def wp_bind)

lemma wp_ignore [wp_simps]: "wp (ignore m) Q E = wp m (\<lambda>_. Q ()) (\<lambda>_. Q ())"
  by (simp add: ignore_def wp_on_result wp_ret)

lemma wp_or_else [wp_simps]: "wp (or_else d m) Q E = wp m Q (\<lambda>_. Q d)"
  by (simp add: or_else_def wp_on_result wp_ret)

lemma wp_when [wp_simps]: "wp (when_p b m) Q E = (if b then wp m Q E else Q ())"
  by (simp add: when_p_def wp_ret)

lemma wp_given [wp_simps]:
  "wp (given x f) Q E = (case x of None \<Rightarrow> Q () | Some y \<Rightarrow> wp (f y) Q E)"
  by (simp add: given_def wp_ret split: option.splits)

lemma wp_if [wp_simps]: "wp (if b then m else n) Q E = (if b then wp m Q E else wp n Q E)"
  by simp

lemma wp_mono:
  assumes "wp m Q E h" "\<And>x h'. Q x h' \<Longrightarrow> Q' x h'" "\<And>e h'. E e h' \<Longrightarrow> E' e h'"
  shows "wp m Q' E' h"
  using assms by (auto simp: wp_def split: prod.splits sum.splits)

lemma wp_each_inv:
  assumes "I h" "\<And>x h'. x \<in> set xs \<Longrightarrow> I h' \<Longrightarrow> wp (f x) (\<lambda>_. I) E h'"
  shows "wp (each f xs) (\<lambda>_. I) E h"
  using assms
proof (induction xs arbitrary: h)
  case (Cons x xs)
  have rest: "wp (each f xs) (\<lambda>_. I) E h'" if "I h'" for h'
    using that by (rule Cons.IH) (simp add: Cons.prems(2))
  have "wp (f x) (\<lambda>_. I) E h" by (rule Cons.prems) (simp_all add: Cons.prems)
  then show ?case
    unfolding each.simps wp_seq by (rule wp_mono) (auto intro: rest)
qed (simp add: wp_ret)

lemma wp_sound: "wp m Q E h \<Longrightarrow> m h = (Inr x, h') \<Longrightarrow> Q x h'"
  by (simp add: wp_def)

lemma wp_sound_err: "wp m Q E h \<Longrightarrow> m h = (Inl e, h') \<Longrightarrow> E e h'"
  by (simp add: wp_def)

lemma wp_true [simp]: "wp m (\<lambda>_ _. True) (\<lambda>_ _. True) h"
  by (auto simp: wp_def split: prod.splits sum.splits)

lemma wpI:
  assumes "\<And>x h'. m h = (Inr x, h') \<Longrightarrow> Q x h'" "\<And>e h'. m h = (Inl e, h') \<Longrightarrow> E e h'"
  shows "wp m Q E h"
  using assms by (auto simp: wp_def split: prod.splits sum.splits)

section \<open>What a program may call\<close>

text \<open>
  \<open>emits P m\<close>: on every outcome \<open>m\<close> only adds calls to the history, and each of them
  satisfies \<open>P\<close>. The rules follow the program's structure.
\<close>

definition emits :: "(sysop \<Rightarrow> bool) \<Rightarrow> 'a prog \<Rightarrow> bool" where
  "emits P m \<longleftrightarrow> (\<forall>h. \<exists>l. snd (m h) = l @ h \<and> list_all P l)"

named_theorems emits_intros \<open>structural rules for emits\<close>

lemma emits_ret [emits_intros]: "emits P (ret x)"
  by (simp add: emits_def ret_def)

lemma emits_fail [emits_intros]: "emits P (fail e)"
  by (simp add: emits_def fail_def)

lemma emits_lift_res [emits_intros]: "emits P (lift_res r)"
  by (simp add: emits_def lift_res_def)

lemma emits_call [emits_intros]: "P op \<Longrightarrow> emits P (call K op)"
  by (auto simp: emits_def call_def intro: exI [of _ "[op]"])

lemma emits_on_result [emits_intros]:
  assumes "emits P m" "\<And>r. emits P (f r)"
  shows "emits P (on_result m f)"
  unfolding emits_def
proof
  fix h
  obtain r h1 where m: "m h = (r, h1)" by (cases "m h")
  from assms(1) m obtain l where l: "h1 = l @ h" "list_all P l"
    unfolding emits_def by (metis snd_conv)
  from assms(2) [of r] obtain k where k: "snd (f r h1) = k @ h1" "list_all P k"
    unfolding emits_def by blast
  with l m show "\<exists>l. snd (on_result m f h) = l @ h \<and> list_all P l"
    by (auto simp: on_result_def intro!: exI [of _ "k @ l"])
qed

lemma bind_p_on_result:
  "bind_p m f = on_result m (\<lambda>r. case r of Inl e \<Rightarrow> fail e | Inr x \<Rightarrow> f x)"
  by (auto simp: fun_eq_iff bind_p_def on_result_def fail_def split: prod.splits sum.splits)

lemma emits_bind [emits_intros]:
  assumes "emits P m" "\<And>x. emits P (f x)"
  shows "emits P (bind_p m f)"
  unfolding bind_p_on_result
  by (intro emits_on_result) (auto simp: assms emits_fail split: sum.splits)

lemma emits_seq [emits_intros]: "emits P m \<Longrightarrow> emits P n \<Longrightarrow> emits P (seq_p m n)"
  by (simp add: seq_p_def emits_bind)

lemma emits_io [emits_intros]: "P op \<Longrightarrow> emits P (io K c op f)"
  unfolding io_def by (intro emits_bind) (auto intro: emits_intros split: option.splits)

lemma emits_do_op [emits_intros]: "P op \<Longrightarrow> emits P (do_op K c op)"
  by (simp add: do_op_def emits_io)

lemma emits_ask [emits_intros]: "P op \<Longrightarrow> emits P (ask K op f)"
  by (simp add: ask_def emits_bind emits_call emits_ret)

lemma emits_ignore [emits_intros]: "emits P m \<Longrightarrow> emits P (ignore m)"
  by (simp add: ignore_def emits_on_result emits_ret)

lemma emits_or_else [emits_intros]: "emits P m \<Longrightarrow> emits P (or_else d m)"
  unfolding or_else_def by (intro emits_on_result) (auto intro: emits_intros split: sum.splits)

lemma emits_when [emits_intros]: "(b \<Longrightarrow> emits P m) \<Longrightarrow> emits P (when_p b m)"
  by (simp add: when_p_def emits_ret)

lemma emits_given [emits_intros]: "(\<And>y. x = Some y \<Longrightarrow> emits P (f y)) \<Longrightarrow> emits P (given x f)"
  by (simp add: given_def emits_ret split: option.splits)

lemma emits_if [emits_intros]:
  "(b \<Longrightarrow> emits P m) \<Longrightarrow> (\<not> b \<Longrightarrow> emits P n) \<Longrightarrow> emits P (if b then m else n)"
  by simp

lemma emits_option [emits_intros]:
  "(x = None \<Longrightarrow> emits P m) \<Longrightarrow> (\<And>y. x = Some y \<Longrightarrow> emits P (f y)) \<Longrightarrow>
     emits P (case x of None \<Rightarrow> m | Some y \<Rightarrow> f y)"
  by (simp split: option.splits)

lemma emits_sum [emits_intros]:
  "(\<And>e. r = Inl e \<Longrightarrow> emits P (g e)) \<Longrightarrow> (\<And>y. r = Inr y \<Longrightarrow> emits P (f y)) \<Longrightarrow>
     emits P (case r of Inl e \<Rightarrow> g e | Inr y \<Rightarrow> f y)"
  by (simp split: sum.splits)

lemma emits_prod [emits_intros]:
  "(\<And>a b. p = (a, b) \<Longrightarrow> emits P (f a b)) \<Longrightarrow> emits P (case p of (a, b) \<Rightarrow> f a b)"
  by (simp split: prod.splits)

lemma emits_let [emits_intros]: "(\<And>x. x = a \<Longrightarrow> emits P (f x)) \<Longrightarrow> emits P (let x = a in f x)"
  by simp

lemma emits_each [emits_intros]:
  "(\<And>x. x \<in> set xs \<Longrightarrow> emits P (f x)) \<Longrightarrow> emits P (each f xs)"
  by (induction xs) (auto intro: emits_intros)

lemma emits_steps: "(\<And>m. m \<in> set ms \<Longrightarrow> emits P m) \<Longrightarrow> emits P (steps ms)"
  by (induction ms) (auto intro: emits_intros)

lemma emits_mono: "emits P m \<Longrightarrow> (\<And>op. P op \<Longrightarrow> Q op) \<Longrightarrow> emits Q m"
  unfolding emits_def by (metis list.pred_mono_strong)

lemma emits_wp:
  assumes "emits P m"
  shows "wp m (\<lambda>_ h'. \<exists>l. h' = l @ h \<and> list_all P l) (\<lambda>_ h'. \<exists>l. h' = l @ h \<and> list_all P l) h"
  using assms unfolding emits_def wp_def by (metis (mono_tags, lifting) case_prod_beta' sum.case_eq_if)

lemma wp_grow:
  assumes "emits P m" "\<And>l. list_all P l \<Longrightarrow> Q (l @ h)"
  shows "wp m (\<lambda>_. Q) (\<lambda>_. Q) h"
  by (rule wp_mono [OF emits_wp [OF assms(1)]]) (auto intro: assms(2))

lemma emitsD:
  assumes "emits P m" "m h = (r, h')"
  obtains l where "h' = l @ h" "list_all P l"
  using assms unfolding emits_def by (metis snd_conv)

section \<open>Success facts and guarded calls\<close>

text \<open>
  \<open>ensures m F\<close>: whenever \<open>m\<close> succeeds, the history satisfies \<open>F\<close>.
  \<open>guarded P F m\<close>: on every outcome, a call satisfying \<open>P\<close> is made only at a point where
  the history satisfies \<open>F\<close>. Facts that later calls cannot undo are \<open>stable\<close>.
\<close>

definition stable :: "(history \<Rightarrow> bool) \<Rightarrow> bool" where
  "stable F \<longleftrightarrow> (\<forall>h l. F h \<longrightarrow> F (l @ h))"

definition grows :: "'a prog \<Rightarrow> bool" where
  "grows m = emits (\<lambda>_. True) m"

definition ensures :: "'a prog \<Rightarrow> (history \<Rightarrow> bool) \<Rightarrow> bool" where
  "ensures m F \<longleftrightarrow> (\<forall>h x h'. m h = (Inr x, h') \<longrightarrow> F h')"

definition guarded :: "(sysop \<Rightarrow> bool) \<Rightarrow> (history \<Rightarrow> bool) \<Rightarrow> 'a prog \<Rightarrow> bool" where
  "guarded P F m \<longleftrightarrow> (\<forall>h l1 op l2. snd (m h) = l1 @ op # l2 @ h \<longrightarrow> P op \<longrightarrow> F (l2 @ h))"

lemma stable_conj [intro]: "stable F \<Longrightarrow> stable G \<Longrightarrow> stable (\<lambda>h. F h \<and> G h)"
  by (simp add: stable_def)

lemma stable_disj [intro]: "stable F \<Longrightarrow> stable G \<Longrightarrow> stable (\<lambda>h. F h \<or> G h)"
  by (auto simp: stable_def)

lemma stable_const [intro]: "stable (\<lambda>_. b)"
  by (simp add: stable_def)

lemma stable_imp [intro]: "(b \<Longrightarrow> stable F) \<Longrightarrow> stable (\<lambda>h. b \<longrightarrow> F h)"
  by (auto simp: stable_def)

lemma stable_all [intro]: "(\<And>x. stable (F x)) \<Longrightarrow> stable (\<lambda>h. \<forall>x. F x h)"
  by (auto simp: stable_def)

lemma stable_ball [intro]: "(\<And>x. stable (F x)) \<Longrightarrow> stable (\<lambda>h. \<forall>x \<in> A. F x h)"
  by (auto simp: stable_def)

lemma stable_ex [intro]: "(\<And>x. stable (F x)) \<Longrightarrow> stable (\<lambda>h. \<exists>x. F x h)"
  by (auto simp: stable_def)

lemma emits_grows: "emits P m \<Longrightarrow> grows m"
  unfolding grows_def by (rule emits_mono) simp_all

lemma ensures_wp: "ensures m F \<longleftrightarrow> (\<forall>h. wp m (\<lambda>_. F) (\<lambda>_ _. True) h)"
  by (auto simp: ensures_def wp_def split: prod.splits sum.splits)

lemma ensuresI: "(\<And>h. wp m (\<lambda>_. F) (\<lambda>_ _. True) h) \<Longrightarrow> ensures m F"
  by (simp add: ensures_wp)

lemma ensures_mono: "ensures m F \<Longrightarrow> (\<And>h. F h \<Longrightarrow> G h) \<Longrightarrow> ensures m G"
  by (auto simp: ensures_def)

lemma ensures_conj: "ensures m F \<Longrightarrow> ensures m G \<Longrightarrow> ensures m (\<lambda>h. F h \<and> G h)"
  by (auto simp: ensures_def)

lemma ensures_first:
  assumes "ensures m F" "stable F" "\<And>x. grows (f x)"
  shows "ensures (bind_p m f) F"
proof (rule ensuresI)
  fix h
  have "wp (f x) (\<lambda>_. F) (\<lambda>_ _. True) h1" if "F h1" for x h1
    by (rule wp_mono [OF wp_grow [OF assms(3) [unfolded grows_def]]])
      (use that assms(2) in \<open>auto simp: stable_def\<close>)
  moreover have "wp m (\<lambda>_. F) (\<lambda>_ _. True) h" using assms(1) by (simp add: ensures_wp)
  ultimately show "wp (bind_p m f) (\<lambda>_. F) (\<lambda>_ _. True) h"
    unfolding wp_bind by (elim wp_mono) auto
qed

lemma ensures_then: "(\<And>x. ensures (f x) F) \<Longrightarrow> ensures (bind_p m f) F"
  unfolding ensures_wp wp_bind by (auto intro: wp_mono [OF wp_true])

lemma ensures_lift:
  "(\<And>x. r = Inr x \<Longrightarrow> ensures (f x) F) \<Longrightarrow> ensures (bind_p (lift_res r) f) F"
  by (cases r) (simp_all add: ensures_def bind_p_def lift_res_def)

lemma ensures_seq_first: "ensures m F \<Longrightarrow> stable F \<Longrightarrow> grows n \<Longrightarrow> ensures (seq_p m n) F"
  unfolding seq_p_def by (rule ensures_first)

lemma ensures_seq_then: "ensures n F \<Longrightarrow> ensures (seq_p m n) F"
  unfolding seq_p_def by (rule ensures_then)

lemma guarded_conj: "guarded P F m \<Longrightarrow> guarded P G m \<Longrightarrow> guarded P (\<lambda>h. F h \<and> G h) m"
  by (simp add: guarded_def)

lemma guarded_mono: "guarded P F m \<Longrightarrow> (\<And>h. F h \<Longrightarrow> G h) \<Longrightarrow> guarded P G m"
  by (simp add: guarded_def)

text \<open>Calls after a successful prefix that made none of them and ensured the fact.\<close>

lemma guarded_after:
  assumes no: "emits (\<lambda>op. \<not> P op) m" and m: "ensures m F" "stable F" and f: "\<And>x. grows (f x)"
  shows "guarded P F (bind_p m f)"
  unfolding guarded_def
proof (intro allI impI)
  fix h l1 op l2
  assume run: "snd (bind_p m f h) = l1 @ op # l2 @ h" and op: "P op"
  obtain r h1 where m1: "m h = (r, h1)" by (cases "m h")
  obtain l where l: "h1 = l @ h" "list_all (\<lambda>op. \<not> P op) l" using emitsD [OF no m1] .
  have notin: "op \<notin> set l" using l(2) op by (auto simp: list_all_iff)
  show "F (l2 @ h)"
  proof (cases r)
    case (Inl e)
    with run m1 l have "l = l1 @ op # l2" by (simp add: bind_p_def)
    with notin show ?thesis by simp
  next
    case (Inr x)
    obtain k where "snd (f x h1) = k @ h1"
      using f [of x] by (auto simp: grows_def emits_def)
    with run m1 l Inr have eq: "k @ l = l1 @ op # l2" by (simp add: bind_p_def)
    then have "\<exists>k'. l2 = k' @ l"
      using notin by (auto simp: append_eq_append_conv2 append_eq_Cons_conv Cons_eq_append_conv)
    moreover have "F (l @ h)" using m(1) m1 l Inr by (auto simp: ensures_def)
    ultimately show ?thesis using m(2) by (auto simp: stable_def)
  qed
qed

lemma guarded_seq_after:
  "emits (\<lambda>op. \<not> P op) m \<Longrightarrow> ensures m F \<Longrightarrow> stable F \<Longrightarrow> grows n \<Longrightarrow> guarded P F (seq_p m n)"
  unfolding seq_p_def by (rule guarded_after)

section \<open>What was answered\<close>

text \<open>
  \<open>asked K h op P\<close>: somewhere in the history \<open>h\<close> the call \<open>op\<close> was made and its
  answer satisfied \<open>P\<close>.
\<close>

fun asked :: "outside \<Rightarrow> history \<Rightarrow> sysop \<Rightarrow> (reply \<Rightarrow> bool) \<Rightarrow> bool" where
  "asked K [] op P = False"
| "asked K (op' # h) op P = (op' = op \<and> P (answer K h op) \<or> asked K h op P)"

lemma asked_append: "asked K h op P \<Longrightarrow> asked K (l @ h) op P"
  by (induction l) auto

lemma stable_asked [intro]: "stable (\<lambda>h. asked K h op P)"
  by (simp add: stable_def asked_append)

lemma ensures_do_op: "ensures (do_op K c op) (\<lambda>h. asked K h op (\<lambda>r. r_err r = None))"
  by (rule ensuresI) (simp add: wp_do_op split: option.split)

lemma asked_mono: "asked K h op P \<Longrightarrow> (\<And>r. P r \<Longrightarrow> Q r) \<Longrightarrow> asked K h op Q"
  by (induction h) auto

lemma asked_member: "asked K h op P \<Longrightarrow> op \<in> set h"
  by (induction h) auto

text \<open>A loop whose body establishes a fact about its element that later calls preserve.\<close>

lemma wp_each_all:
  assumes "I h" "\<And>x h'. x \<in> set xs \<Longrightarrow> I h' \<Longrightarrow> wp (f x) (\<lambda>_ h''. I h'' \<and> R x h'') E h'"
    and "\<And>x y h'. x \<in> set xs \<Longrightarrow> I h' \<Longrightarrow> R y h' \<Longrightarrow> wp (f x) (\<lambda>_ h''. R y h'') (\<lambda>_ _. True) h'"
  shows "wp (each f xs) (\<lambda>_ h'. I h' \<and> (\<forall>x \<in> set xs. R x h')) E h"
proof -
  have "wp (each f ys) (\<lambda>_ h'. I h' \<and> (\<forall>x \<in> set ys \<union> D. R x h')) E h0"
    if "set ys \<subseteq> set xs" "I h0" "\<forall>y \<in> D. R y h0" for ys h0 D
    using that
  proof (induction ys arbitrary: h0 D)
    case (Cons y ys)
    have "wp (f y) (\<lambda>_ h''. I h'' \<and> (\<forall>x \<in> insert y D. R x h'')) E h0"
    proof (rule wpI)
      fix u h1 assume run: "f y h0 = (Inr u, h1)"
      have "I h1 \<and> R y h1"
        using wp_sound [OF assms(2) run] Cons.prems by simp
      moreover have "R x h1" if "x \<in> D" for x
        using wp_sound [OF assms(3) run] that Cons.prems by simp
      ultimately show "I h1 \<and> (\<forall>x \<in> insert y D. R x h1)" by simp
    next
      fix e h1 assume run: "f y h0 = (Inl e, h1)"
      show "E e h1" using wp_sound_err [OF assms(2) run] Cons.prems by simp
    qed
    then show ?case
      unfolding each.simps wp_seq
    proof (rule wp_mono)
      fix u h1 assume "I h1 \<and> (\<forall>x \<in> insert y D. R x h1)"
      then show "wp (each f ys) (\<lambda>_ h'. I h' \<and> (\<forall>x \<in> set (y # ys) \<union> D. R x h')) E h1"
        using Cons.IH [of h1 "insert y D"] Cons.prems(1) by simp
    qed
  qed (simp add: wp_ret)
  from this [of xs h "{}"] assms(1) show ?thesis by simp
qed

section \<open>Guarded calls along a path\<close>

text \<open>
  \<open>guards P G F m\<close> is \<open>guarded P F m\<close> for the runs that begin with the facts \<open>G\<close>: the
  form in which the facts that a long sequence establishes one by one add up. The rules follow the
  sequence: a step whose success is not needed is skipped, one that establishes a fact notes it.
\<close>

definition guards :: "(sysop \<Rightarrow> bool) \<Rightarrow> (history \<Rightarrow> bool) \<Rightarrow> (history \<Rightarrow> bool) \<Rightarrow> 'a prog \<Rightarrow> bool" where
  "guards P G F m \<longleftrightarrow> (\<forall>h. G h \<longrightarrow> (\<exists>l. snd (m h) = l @ h
     \<and> (\<forall>l1 op l2. l = l1 @ op # l2 \<longrightarrow> P op \<longrightarrow> F (l2 @ h))))"

lemma guarded_guards: "guards P (\<lambda>_. True) F m \<Longrightarrow> guarded P F m"
  unfolding guards_def guarded_def by (metis append_Cons append_assoc append_same_eq)

lemma guards_no_call: "emits (\<lambda>op. \<not> P op) m \<Longrightarrow> guards P G F m"
  unfolding guards_def emits_def by (fastforce simp: list_all_iff)

lemma guards_known: "grows m \<Longrightarrow> stable F \<Longrightarrow> (\<And>h. G h \<Longrightarrow> F h) \<Longrightarrow> guards P G F m"
  unfolding guards_def grows_def emits_def stable_def by blast

lemma guards_weaken: "guards P G F m \<Longrightarrow> (\<And>h. G' h \<Longrightarrow> G h) \<Longrightarrow> guards P G' F m"
  unfolding guards_def by blast

lemma guards_on_result:
  assumes m: "guards P G F m" and E: "\<And>h. G h \<Longrightarrow> wp m (\<lambda>x. E (Inr x)) (\<lambda>e. E (Inl e)) h"
    and f: "\<And>r. guards P (E r) F (f r)"
  shows "guards P G F (on_result m f)"
  unfolding guards_def
proof (intro allI impI)
  fix h assume g: "G h"
  obtain r h1 where m1: "m h = (r, h1)" by (cases "m h")
  obtain l where l: "h1 = l @ h" "\<forall>l1 op l2. l = l1 @ op # l2 \<longrightarrow> P op \<longrightarrow> F (l2 @ h)"
    using m g m1 unfolding guards_def by fastforce
  have "E r h1" using E [OF g] m1 by (cases r) (auto simp: wp_def)
  then obtain k where k: "snd (f r h1) = k @ h1" "\<forall>l1 op l2. k = l1 @ op # l2 \<longrightarrow> P op \<longrightarrow> F (l2 @ h1)"
    using f [of r] unfolding guards_def by blast
  have "F (l2 @ h)" if "k @ l = l1 @ op # l2" "P op" for l1 op l2
  proof (cases "\<exists>k'. l2 = k' @ l")
    case True
    then obtain k' where k': "l2 = k' @ l" ..
    with that(1) have "k = l1 @ op # k'" by simp
    with k(2) that(2) l(1) k' show ?thesis by fastforce
  next
    case False
    with that(1) have "\<exists>l1'. l = l1' @ op # l2"
      by (auto simp: append_eq_append_conv2 append_eq_Cons_conv Cons_eq_append_conv)
    with l(2) that(2) show ?thesis by blast
  qed
  moreover have "snd (on_result m f h) = (k @ l) @ h" using m1 k(1) l(1) by (simp add: on_result_def)
  ultimately show "\<exists>l. snd (on_result m f h) = l @ h \<and> (\<forall>l1 op l2. l = l1 @ op # l2 \<longrightarrow> P op \<longrightarrow> F (l2 @ h))"
    by blast
qed

lemma guards_fail: "guards P G F (fail e)"
  by (rule guards_no_call) (rule emits_fail)

lemma guards_bind:
  assumes m: "guards P G F m" and E: "\<And>h. G h \<Longrightarrow> wp m E (\<lambda>_ _. True) h" and f: "\<And>x. guards P (E x) F (f x)"
  shows "guards P G F (bind_p m f)"
  unfolding bind_p_on_result
proof (rule guards_on_result [OF m, where E = "\<lambda>r. case r of Inl _ \<Rightarrow> \<lambda>_. True | Inr x \<Rightarrow> E x"])
  show "wp m (\<lambda>x. case Inr x of Inl _ \<Rightarrow> \<lambda>_. True | Inr x \<Rightarrow> E x)
      (\<lambda>e. case Inl e of Inl _ \<Rightarrow> \<lambda>_. True | Inr x \<Rightarrow> E x) h" if "G h" for h
    using E [OF that] by simp
qed (auto simp: guards_fail f split: sum.split)

lemma emits_keeps: "emits P m \<Longrightarrow> stable G \<Longrightarrow> G h \<Longrightarrow> wp m (\<lambda>_. G) (\<lambda>_. G) h"
  by (rule wp_grow) (auto simp: stable_def)

lemma guards_skip:
  assumes "emits (\<lambda>op. \<not> P op) m" "stable G" "\<And>x. guards P G F (f x)"
  shows "guards P G F (bind_p m f)"
  by (rule guards_bind [where E = "\<lambda>_. G"])
    (auto intro: guards_no_call assms wp_mono [OF emits_keeps [OF assms(1,2)]])

lemma guards_note:
  assumes "emits (\<lambda>op. \<not> P op) m" "stable G" "ensures m E" "\<And>x. guards P (\<lambda>h. G h \<and> E h) F (f x)"
  shows "guards P G F (bind_p m f)"
proof (rule guards_bind [where E = "\<lambda>_ h. G h \<and> E h"])
  show "wp m (\<lambda>_ h. G h \<and> E h) (\<lambda>_ _. True) h" if "G h" for h
  proof (rule wpI)
    fix x h' assume run: "m h = (Inr x, h')"
    show "G h' \<and> E h'"
      using wp_sound [OF emits_keeps [OF assms(1,2) that] run] assms(3) run by (auto simp: ensures_def)
  qed simp
qed (auto intro: guards_no_call assms)

lemma guards_skip_seq: "emits (\<lambda>op. \<not> P op) m \<Longrightarrow> stable G \<Longrightarrow> guards P G F n \<Longrightarrow> guards P G F (seq_p m n)"
  unfolding seq_p_def by (rule guards_skip)

lemma guards_note_seq:
  "emits (\<lambda>op. \<not> P op) m \<Longrightarrow> stable G \<Longrightarrow> ensures m E \<Longrightarrow> guards P (\<lambda>h. G h \<and> E h) F n \<Longrightarrow>
     guards P G F (seq_p m n)"
  unfolding seq_p_def by (rule guards_note)

lemma guards_do_op: "(\<And>h. P op \<Longrightarrow> G h \<Longrightarrow> F h) \<Longrightarrow> guards P G F (do_op K c op)"
  by (auto simp: guards_def do_op_def io_def bind_p_def call_def fail_def ret_def Cons_eq_append_conv split: option.split)

lemma ensures_when: "(b \<Longrightarrow> ensures m F) \<Longrightarrow> ensures (when_p b m) (\<lambda>h. b \<longrightarrow> F h)"
  by (auto simp: ensures_def when_p_def ret_def)

lemma ensures_given: "(\<And>y. x = Some y \<Longrightarrow> ensures (f y) (F y)) \<Longrightarrow> ensures (given x f) (\<lambda>h. \<forall>y. x = Some y \<longrightarrow> F y h)"
  by (cases x) (auto simp: ensures_def given_def ret_def)

lemma ensures_each:
  assumes "\<And>x. x \<in> set xs \<Longrightarrow> ensures (f x) (F x)" "\<And>x. x \<in> set xs \<Longrightarrow> grows (f x)" "\<And>x. stable (F x)"
  shows "ensures (each f xs) (\<lambda>h. \<forall>x \<in> set xs. F x h)"
  using assms(1,2)
proof (induction xs)
  case (Cons x xs)
  have "grows (each f xs)" using Cons.prems by (auto simp: grows_def intro: emits_each)
  with Cons assms(3) have "ensures (each f (x # xs)) (\<lambda>h. F x h \<and> (\<forall>y \<in> set xs. F y h))"
    by (auto intro!: ensures_conj intro: ensures_seq_first ensures_seq_then)
  then show ?case by simp
qed (simp add: ensures_def)

lemma grows_intros: "grows (ret x)" "grows (fail e)" "grows (lift_res r)" "grows (call K op)" "grows (do_op K c op)"
  by (simp_all add: grows_def emits_intros)

section \<open>What ran before\<close>

text \<open>
  \<open>earlier m x h\<close>: at some earlier point of the history the program \<open>m\<close> ran and answered \<open>x\<close>.
\<close>

definition earlier :: "'a prog \<Rightarrow> 'a \<Rightarrow> history \<Rightarrow> bool" where
  "earlier m x h \<longleftrightarrow> (\<exists>l h0 h1. h = l @ h1 \<and> m h0 = (Inr x, h1))"

lemma stable_earlier [intro]: "stable (earlier m x)"
  unfolding stable_def earlier_def by (metis append_assoc)

lemma earlier_run: "m h = (Inr x, h') \<Longrightarrow> earlier m x h'"
  unfolding earlier_def by (metis append_Nil)

lemma wp_earlier: "wp m (\<lambda>x. earlier m x) (\<lambda>_ _. True) h"
  by (rule wpI) (simp_all add: earlier_run)

lemma earlier_append: "earlier m x h \<Longrightarrow> earlier m x (op # h)"
  using stable_earlier [of m x, unfolded stable_def, rule_format, of h "[op]"] by simp

section \<open>Queries and signals\<close>

fun is_query :: "sysop \<Rightarrow> bool" where
  "is_query (Query _) = True"
| "is_query _ = False"

fun_cases is_queryE: "is_query op"

abbreviation effect :: "sysop \<Rightarrow> bool" where
  "effect op \<equiv> \<not> is_query op"

fun is_kill :: "sysop \<Rightarrow> bool" where
  "is_kill (Proc (KillProc _ _)) = True"
| "is_kill _ = False"

fun_cases is_killE: "is_kill op"

abbreviation no_kill :: "sysop \<Rightarrow> bool" where
  "no_kill op \<equiv> \<not> is_kill op"

lemma query_no_kill: "emits is_query m \<Longrightarrow> emits no_kill m"
  by (erule emits_mono) (auto elim: is_queryE)

section \<open>A step that is undone in any case\<close>

lemma ensures_finally:
  assumes "ensures m F" "stable F" "grows n"
  shows "ensures (on_result m (\<lambda>r. seq_p n (lift_res r))) F"
proof (rule ensuresI)
  fix h
  have "wp (seq_p n (lift_res r)) (\<lambda>_. F) (\<lambda>_ _. True) h1" if "F h1" for r :: "'a res" and h1
    unfolding wp_seq
    by (rule wp_mono [OF emits_keeps [OF assms(3) [unfolded grows_def] assms(2) that]]) (auto simp: wp_lift_res split: sum.split)
  moreover have "wp (seq_p n (lift_res (Inl e :: 'a res))) (\<lambda>_. F) (\<lambda>_ _. True) h1" for e h1
    unfolding wp_seq by (rule wp_mono [OF wp_true]) (simp_all add: wp_lift_res)
  moreover have "wp m (\<lambda>_. F) (\<lambda>_ _. True) h" using assms(1) by (simp add: ensures_wp)
  ultimately show "wp (on_result m (\<lambda>r. seq_p n (lift_res r))) (\<lambda>_. F) (\<lambda>_ _. True) h"
    unfolding wp_on_result by (elim wp_mono) auto
qed

section \<open>Outsides for examples\<close>

text \<open>
  An outside that grants every call, answering with the given adjustment of a plain reply. Only the
  witnesses of theorems use it.
\<close>

definition plain_reply :: reply where
  "plain_reply = \<lparr>r_err = None, r_flag = True, r_num = 0, r_num2 = 0, r_text = [], r_list = [],
     r_msg = None, r_wait = WExited 0 0\<rparr>"

definition granting :: "(sysop \<Rightarrow> reply \<Rightarrow> reply) \<Rightarrow> outside" where
  "granting f = \<lparr>answer = (\<lambda>h op. f op plain_reply), parse_spec = (\<lambda>_. None), parse_state = (\<lambda>_. None),
     parse_process = (\<lambda>_. None), parse_resources = (\<lambda>_. None), state_json = (\<lambda>_. Some []),
     oci_json = (\<lambda>_. Some []), known_cap = (\<lambda>_. True), known_syscall = (\<lambda>_. True),
     known_signal = (\<lambda>_. True), signal_named = (\<lambda>_. None), fuel = 3\<rparr>"

end
