(* ===== verification/Cgroup.thy ===== *)
theory Cgroup
  imports Kernel
begin

text \<open>
  Control groups: \<^verbatim>\<open>src/src/cgroup/events.rs\<close> (the flat-keyed files) and
  \<^verbatim>\<open>src/src/cgroup/v2.rs\<close> (the paths, the limits and their conversion from the v1 units of
  the OCI specification, and the operations on a cgroup directory). A \<^verbatim>\<open>HashMap\<close> collected
  from pairs is the map in which the last pair of a key wins. The locale \<open>weight_map\<close> is the
  contract of the two conversions of a v1 weight to the v2 range.
\<close>

section \<open>Event files\<close>

definition parse_flat_line :: "string \<Rightarrow> (string \<times> nat) option" where
  "parse_flat_line line = (case split_whitespace line of
     key # v # _ \<Rightarrow> map_option (\<lambda>n. (key, n)) (parse_unsigned u64_bound v)
   | _ \<Rightarrow> None)"

definition parse_flat_keyed :: "string \<Rightarrow> string \<rightharpoonup> nat" where
  "parse_flat_keyed text = map_of (rev (List.map_filter parse_flat_line (str_lines text)))"

definition counter :: "(string \<rightharpoonup> nat) \<Rightarrow> string \<Rightarrow> nat" where
  "counter parsed key = get_or 0 (parsed key)"

record memory_stats =
  ev_low :: nat
  ev_high :: nat
  ev_max :: nat
  ev_oom :: nat
  ev_oom_kill :: nat

record cpu_stats =
  st_usage_usec :: nat
  st_nr_periods :: nat
  st_nr_throttled :: nat
  st_throttled_usec :: nat

section \<open>Paths\<close>

definition MOUNT_POINT :: string where "MOUNT_POINT = ''/sys/fs/cgroup''"
definition DEFAULT_PARENT :: string where "DEFAULT_PARENT = ''mars''"
definition WANTED :: "string list" where
  "WANTED = [''memory'', ''pids'', ''cpu'', ''cpuset'', ''io'']"
definition CGROUP2_SUPER_MAGIC :: int where "CGROUP2_SUPER_MAGIC = 0x63677270"

fun push_normals :: "string \<Rightarrow> comp list \<Rightarrow> string" where
  "push_normals out [] = out"
| "push_normals out (Normal part # cs) = push_normals (path_join out part) cs"
| "push_normals out (_ # cs) = push_normals out cs"

definition normalise :: "string \<Rightarrow> string" where
  "normalise path = push_normals [] (components path)"

definition relative_path :: "string option \<Rightarrow> string \<Rightarrow> string" where
  "relative_path cgroups_path cid = (case cgroups_path of
     Some path \<Rightarrow> if path \<noteq> [] then normalise path else path_join DEFAULT_PARENT cid
   | None \<Rightarrow> path_join DEFAULT_PARENT cid)"

section \<open>Values\<close>

definition limit_value :: "int \<Rightarrow> string" where
  "limit_value bytes = (if bytes \<le> 0 then ''max'' else int_text bytes)"

definition swap_value :: "int \<Rightarrow> int option \<Rightarrow> string" where
  "swap_value swap limit =
     (if swap \<le> 0 then ''max''
      else (case limit of
         Some l \<Rightarrow> if l > 0 \<and> swap > l then int_text (swap - l)
                   else if l > 0 then ''0'' else int_text swap
       | None \<Rightarrow> int_text swap))"

definition cpu_max_value :: "int \<Rightarrow> nat \<Rightarrow> string" where
  "cpu_max_value quota period =
     (if quota \<le> 0 then ''max '' @ dec_text period
      else int_text quota @ '' '' @ dec_text period)"

definition clamp :: "'a::linorder \<Rightarrow> 'a \<Rightarrow> 'a \<Rightarrow> 'a" where
  "clamp lo hi x = max lo (min hi x)"

definition shares_to_weight :: "64 word \<Rightarrow> 64 word" where
  "shares_to_weight shares =
     (if shares = 0 then 100
      else let s = clamp 2 262144 shares in 1 + ((s - 2) * 9999) div 262142)"

definition blkio_to_io_weight :: "16 word \<Rightarrow> 64 word" where
  "blkio_to_io_weight weight =
     (let w = clamp 10 1000 (ucast weight :: 64 word) in 1 + (w - 10) * 9999 div 990)"

definition io_max_line :: "string \<Rightarrow> throttle_device \<Rightarrow> string" where
  "io_max_line key d =
     int_text (td_major d) @ '':'' @ int_text (td_minor d) @ '' '' @ key @ ''='' @ dec_text (td_rate d)"

definition io_max_lines :: "block_io \<Rightarrow> string list" where
  "io_max_lines b = concat (map (\<lambda>(key, devices). map (io_max_line key) (flat devices))
     [(''rbps'', bi_read_bps b), (''wbps'', bi_write_bps b),
      (''riops'', bi_read_iops b), (''wiops'', bi_write_iops b)])"

section \<open>The weight contract\<close>

text \<open>
  Both conversions send a clamped v1 range onto the v2 range 1 to 10000 by the same integer formula;
  on machine words it is exact, because nothing wraps.
\<close>

locale weight_map =
  fixes f :: "'w::len word \<Rightarrow> 64 word" and ok :: "'w word \<Rightarrow> bool" and lo hi :: nat
  assumes lo_hi: "lo < hi"
    and scaled: "ok w \<Longrightarrow> unat (f w) = 1 + (clamp lo hi (unat w) - lo) * 9999 div (hi - lo)"
begin

lemma in_range: "ok w \<Longrightarrow> 1 \<le> unat (f w) \<and> unat (f w) \<le> 10000"
proof -
  assume w: "ok w"
  let ?x = "clamp lo hi (unat w) - lo"
  have "?x \<le> hi - lo" using lo_hi by (auto simp: clamp_def)
  then have "?x * 9999 \<le> (hi - lo) * 9999" by simp
  then have "?x * 9999 div (hi - lo) \<le> 9999"
    using lo_hi by (metis div_le_mono nonzero_mult_div_cancel_left less_numeral_extra(3) zero_less_diff)
  then show ?thesis using scaled [OF w] by simp
qed

lemma monotone: "ok v \<Longrightarrow> ok w \<Longrightarrow> v \<le> w \<Longrightarrow> f v \<le> f w"
proof -
  assume vw: "ok v" "ok w" "v \<le> w"
  then have "clamp lo hi (unat v) - lo \<le> clamp lo hi (unat w) - lo"
    by (auto simp: clamp_def word_le_nat_alt)
  then have "(clamp lo hi (unat v) - lo) * 9999 div (hi - lo) \<le> (clamp lo hi (unat w) - lo) * 9999 div (hi - lo)"
    by (intro div_le_mono) simp
  then show ?thesis using vw by (simp add: word_le_nat_alt scaled)
qed

lemma lower_end: "ok w \<Longrightarrow> unat w \<le> lo \<Longrightarrow> unat (f w) = 1"
  using lo_hi by (simp add: scaled clamp_def)

lemma upper_end: "ok w \<Longrightarrow> hi \<le> unat w \<Longrightarrow> unat (f w) = 10000"
  using lo_hi by (simp add: scaled clamp_def)

end

lemma unat_clamp:
  "unat (clamp lo hi (w :: 'a::len word)) = clamp (unat lo) (unat hi) (unat w)"
  by (auto simp: clamp_def max_def min_def word_le_nat_alt)

lemma unat_scale:
  fixes x :: "64 word"
  assumes "unat x \<le> b" "b * 9999 + 1 < 2 ^ 64" "0 < d" "d < 2 ^ 64"
  shows "unat (1 + x * 9999 div of_nat d) = 1 + unat x * 9999 div d"
proof -
  have "unat x * 9999 \<le> b * 9999" using assms(1) by simp
  then have mul: "unat (x * 9999) = unat x * 9999"
    using assms(2) by (simp add: unat_word_ariths)
  have "unat x * 9999 div d \<le> unat x * 9999" by simp
  also have "\<dots> \<le> b * 9999" by fact
  finally have "1 + unat x * 9999 div d < 2 ^ 64" using assms(2) by simp
  then show ?thesis
    using mul assms(3,4) by (simp add: unat_word_ariths unat_div_distrib unat_of_nat)
qed

interpretation shares: weight_map shares_to_weight "\<lambda>w. w \<noteq> 0" 2 262144
proof
  fix w :: "64 word" assume w: "w \<noteq> 0"
  let ?s = "clamp 2 262144 w"
  have s: "unat ?s = clamp 2 262144 (unat w)" by (simp add: unat_clamp)
  then have le: "2 \<le> unat ?s" "unat ?s \<le> 262144" by (auto simp: clamp_def)
  then have sub: "unat (?s - 2) = unat ?s - 2" by (simp add: unat_sub word_le_nat_alt)
  have "unat (1 + (?s - 2) * 9999 div of_nat 262142) = 1 + unat (?s - 2) * 9999 div 262142"
    by (rule unat_scale [where b = 262142]) (use le sub in simp_all)
  then show "unat (shares_to_weight w) = 1 + (clamp 2 262144 (unat w) - 2) * 9999 div (262144 - 2)"
    using w s sub by (simp add: shares_to_weight_def Let_def)
qed simp

interpretation blkio: weight_map blkio_to_io_weight "\<lambda>_. True" 10 1000
proof
  fix w :: "16 word"
  let ?w = "clamp 10 1000 (ucast w :: 64 word)"
  have "unat w < 2 ^ 64" using unsigned_less [of w, where ?'a = nat] by simp
  then have s: "unat ?w = clamp 10 1000 (unat w)"
    by (simp add: unat_clamp unsigned_ucast_eq take_bit_nat_eq_self)
  then have le: "10 \<le> unat ?w" "unat ?w \<le> 1000" by (auto simp: clamp_def)
  then have sub: "unat (?w - 10) = unat ?w - 10" by (simp add: unat_sub word_le_nat_alt)
  have "unat (1 + (?w - 10) * 9999 div of_nat 990) = 1 + unat (?w - 10) * 9999 div 990"
    by (rule unat_scale [where b = 990]) (use le sub in simp_all)
  then show "unat (blkio_to_io_weight w) = 1 + (clamp 10 1000 (unat w) - 10) * 9999 div (1000 - 10)"
    using s sub by (simp add: blkio_to_io_weight_def Let_def)
qed simp

text \<open>
  C33: cpu shares and block-io weights land in the range 1 to 10000 that the v2 files accept,
  for every 64-bit and 16-bit input; the conversion respects the order, sends the ends of the v1
  range to the ends of the v2 range, and none of its machine arithmetic wraps.
\<close>

theorem weights_in_v2_range:
  "1 \<le> unat (shares_to_weight s) \<and> unat (shares_to_weight s) \<le> 10000
   \<and> 1 \<le> unat (blkio_to_io_weight w) \<and> unat (blkio_to_io_weight w) \<le> 10000
   \<and> shares_to_weight 2 = 1 \<and> shares_to_weight 262144 = 10000
   \<and> blkio_to_io_weight 10 = 1 \<and> blkio_to_io_weight 1000 = 10000"
proof -
  have "1 \<le> unat (shares_to_weight s) \<and> unat (shares_to_weight s) \<le> 10000"
    using shares.in_range [of s] by (cases "s = 0") (simp_all add: shares_to_weight_def)
  moreover have "unat (shares_to_weight 2) = unat (1 :: 64 word)"
    "unat (shares_to_weight 262144) = unat (10000 :: 64 word)"
    "unat (blkio_to_io_weight 10) = unat (1 :: 64 word)"
    "unat (blkio_to_io_weight 1000) = unat (10000 :: 64 word)"
    by (simp_all add: shares.lower_end shares.upper_end blkio.lower_end blkio.upper_end)
  ultimately show ?thesis using blkio.in_range [of w] by (simp only: word_unat_eq_iff)
qed

text \<open>
  A larger cpu share never gets a smaller v2 weight (nor a larger block-io weight a smaller
  one), so the relative priority of two containers survives the conversion.
\<close>

theorem weights_monotone:
  assumes "a \<noteq> 0" "a \<le> b" "v \<le> w"
  shows "shares_to_weight a \<le> shares_to_weight b \<and> blkio_to_io_weight v \<le> blkio_to_io_weight w"
proof -
  have "b \<noteq> 0" using assms(1,2) by (metis word_le_0_iff)
  with assms show ?thesis by (simp add: shares.monotone blkio.monotone)
qed

lemma weights_monotone_witness:
  "shares_to_weight 512 \<le> shares_to_weight 1024 \<and> blkio_to_io_weight 100 \<le> blkio_to_io_weight 500"
  by (rule weights_monotone) simp_all

section \<open>Limits\<close>

text \<open>
  The swap conversion turns the v1 total (memory plus swap) into the v2 swap-only limit. For
  a positive total inside the i64 range and a positive memory limit, the subtraction stays in the i64
  range, the text written parses back, and memory plus the written swap is the larger of the two
  limits; a non-positive total means no limit.
\<close>

theorem swap_value_total:
  assumes "0 < swap" "swap < 2 ^ 63" "0 < limit" "limit < 2 ^ 63"
  shows "\<exists>v. parse_signed i64_bound (swap_value swap (Some limit)) = Some v
    \<and> 0 \<le> v \<and> v < 2 ^ 63 \<and> limit + v = max limit swap
    \<and> swap_value (- swap) (Some limit) = ''max''"
proof (cases "swap > limit")
  case True
  with assms show ?thesis by (auto simp: swap_value_def intro!: exI [of _ "swap - limit"])
next
  case False
  have "parse_signed i64_bound ''0'' = Some 0"
    by (simp add: parse_signed_def parse_unsigned_def digit_val_def)
  with False assms show ?thesis by (auto simp: swap_value_def)
qed

lemma swap_value_total_witness:
  "\<exists>v. parse_signed i64_bound (swap_value 200 (Some 100)) = Some v \<and> 100 + v = max 100 200"
  using swap_value_total [of 200 100] by auto

lemma limit_value_parses:
  "0 < b \<Longrightarrow> b < 2 ^ 63 \<Longrightarrow> parse_signed i64_bound (limit_value b) = Some b"
  by (simp add: limit_value_def)

section \<open>The cgroup path stays below the mount point\<close>

lemma push_normals_comps:
  "\<forall>c \<in> set cs. \<forall>p. c = Normal p \<longrightarrow> normal_name p \<Longrightarrow>
     components (push_normals out cs) = components out @ filter is_normal cs"
  by (induction out cs rule: push_normals.induct) auto

lemma components_normalise: "components (normalise path) = filter is_normal (components path)"
  unfolding normalise_def by (subst push_normals_comps) (auto simp: components_normal)

definition cgroup_dir :: "string \<Rightarrow> string" where
  "cgroup_dir relative = path_join MOUNT_POINT relative"

lemma relative_path_normal:
  assumes "validate_id cid = Inr ()"
  shows "\<forall>c \<in> set (components (relative_path cp cid)). is_normal c"
proof -
  have "normal_name DEFAULT_PARENT" by (simp add: normal_name_def real_part_def DEFAULT_PARENT_def)
  then show ?thesis
    using validate_id_normal [OF assms]
    by (auto simp: relative_path_def components_normalise components_name split: option.splits)
qed

lemma no_root_relative: "RootDir \<notin> set (components p) \<Longrightarrow> \<not> is_absolute p"
  by (auto simp: components_alt)

lemma no_curdir_body:
  assumes "\<forall>c \<in> set (components p). is_normal c"
  shows "\<not> is_absolute p" "body_comps (split_on slash p) = components p"
proof -
  have "RootDir \<notin> set (components p)" "CurDir \<notin> set (components p)"
    using assms by fastforce+
  then show "\<not> is_absolute p" "body_comps (split_on slash p) = components p"
    by (auto simp: components_alt split: if_splits)
qed

text \<open>
  C28: whatever \<^verbatim>\<open>linux.cgroupsPath\<close> a bundle asks for, the container's cgroup directory is
  the cgroup mount point followed by ordinary names: dot-dot components and a leading separator
  cannot lead out of it.
\<close>

theorem cgroup_path_cannot_escape:
  assumes "validate_id cid = Inr ()"
  shows "\<exists>names. components (cgroup_dir (relative_path cp cid)) = components MOUNT_POINT @ names
    \<and> list_all is_normal names"
proof -
  note n = relative_path_normal [OF assms, of cp]
  have "components (cgroup_dir (relative_path cp cid))
      = components MOUNT_POINT @ components (relative_path cp cid)"
    unfolding cgroup_dir_def
    by (subst components_join)
      (use no_curdir_body [OF n] in \<open>simp_all add: MOUNT_POINT_def\<close>)
  with n show ?thesis by (auto simp: list_all_iff)
qed

lemma cgroup_path_cannot_escape_witness:
  "\<exists>names. components (cgroup_dir (relative_path (Some ''/../../escape'') ''abc'')) = components MOUNT_POINT @ names
    \<and> list_all is_normal names"
  by (rule cgroup_path_cannot_escape) code_simp

section \<open>Operations on a cgroup directory\<close>

record cgroup =
  cg_path :: string
  cg_relative :: string

definition cg_attach :: "string \<Rightarrow> cgroup" where
  "cg_attach relative = \<lparr>cg_path = cgroup_dir relative, cg_relative = relative\<rparr>"

definition is_unified :: "outside \<Rightarrow> bool prog" where
  "is_unified K = ask K (Query (StatFs MOUNT_POINT))
     (\<lambda>r. r_err r = None \<and> r_num r = CGROUP2_SUPER_MAGIC)"

definition cg_exists :: "outside \<Rightarrow> cgroup \<Rightarrow> bool prog" where
  "cg_exists K cg = ask K (Query (IsDir (cg_path cg))) r_flag"

definition cg_write :: "outside \<Rightarrow> cgroup \<Rightarrow> string \<Rightarrow> string \<Rightarrow> unit prog" where
  "cg_write K cg file text = do_op K (IoErr ''write'') (Fs (WriteFile (path_join (cg_path cg) file) text))"

definition cg_read :: "outside \<Rightarrow> cgroup \<Rightarrow> string \<Rightarrow> string prog" where
  "cg_read K cg file = io K (IoErr ''read'') (Query (ReadFile (path_join (cg_path cg) file))) r_text"

definition memory_events :: "outside \<Rightarrow> cgroup \<Rightarrow> memory_stats prog" where
  "memory_events K cg = bind_p (cg_read K cg ''memory.events'') (\<lambda>text.
     let parsed = parse_flat_keyed text in
     ret \<lparr>ev_low = counter parsed ''low'', ev_high = counter parsed ''high'',
          ev_max = counter parsed ''max'', ev_oom = counter parsed ''oom'',
          ev_oom_kill = counter parsed ''oom_kill''\<rparr>)"

definition cpu_stat :: "outside \<Rightarrow> cgroup \<Rightarrow> cpu_stats prog" where
  "cpu_stat K cg = bind_p (cg_read K cg ''cpu.stat'') (\<lambda>text.
     let parsed = parse_flat_keyed text in
     ret \<lparr>st_usage_usec = counter parsed ''usage_usec'', st_nr_periods = counter parsed ''nr_periods'',
          st_nr_throttled = counter parsed ''nr_throttled'',
          st_throttled_usec = counter parsed ''throttled_usec''\<rparr>)"

definition read_list :: "outside \<Rightarrow> string \<Rightarrow> string list prog" where
  "read_list K path = io K (IoErr ''read'') (Query (ReadFile path)) (\<lambda>r. split_whitespace (r_text r))"

definition missing_controllers :: "string list \<Rightarrow> string list \<Rightarrow> string list" where
  "missing_controllers available enabled =
     map (\<lambda>wanted. CHR ''+'' # wanted)
       (filter (\<lambda>wanted. wanted \<in> set available \<and> wanted \<notin> set enabled) WANTED)"

definition delegate :: "outside \<Rightarrow> string \<Rightarrow> unit prog" where
  "delegate K dir =
     bind_p (read_list K (path_join dir ''cgroup.controllers'')) (\<lambda>available.
     bind_p (or_else [] (read_list K (path_join dir ''cgroup.subtree_control''))) (\<lambda>enabled.
     let missing = missing_controllers available enabled in
     if missing = [] then ret ()
     else do_op K (IoErr ''enable controllers'')
       (Fs (WriteFile (path_join dir ''cgroup.subtree_control'') (join_with '' '' missing)))))"

text \<open>
  The loop of \<^verbatim>\<open>Cgroup::create\<close>; a component that is not an ordinary name is skipped,
  and the \<^verbatim>\<open>break\<close> at the leaf is the end of the list.
\<close>

fun create_levels :: "outside \<Rightarrow> string \<Rightarrow> comp list \<Rightarrow> string prog" where
  "create_levels K current [] = ret current"
| "create_levels K current (Normal part # cs) =
     seq_p (delegate K current)
     (let current' = path_join current part in
      bind_p (ask K (Query (IsDir current')) r_flag) (\<lambda>is_dir.
      seq_p (when_p (\<not> is_dir) (do_op K (IoErr ''create cgroup'') (Fs (MkDir current'))))
        (create_levels K current' cs)))"
| "create_levels K current (_ # cs) = create_levels K current cs"

definition cg_create :: "outside \<Rightarrow> string \<Rightarrow> cgroup prog" where
  "cg_create K relative =
     bind_p (is_unified K) (\<lambda>unified.
     if \<not> unified then fail NoCgroupV2
     else bind_p (create_levels K MOUNT_POINT (components relative)) (\<lambda>path.
       ret \<lparr>cg_path = path, cg_relative = relative\<rparr>))"

definition cg_procs :: "outside \<Rightarrow> cgroup \<Rightarrow> int list prog" where
  "cg_procs K cg = bind_p (cg_read K cg ''cgroup.procs'') (\<lambda>text.
     ret (List.map_filter (\<lambda>line. parse_signed i32_bound (trim line)) (str_lines text)))"

definition frozen_text :: "string \<Rightarrow> bool" where
  "frozen_text text = (counter (parse_flat_keyed text) ''frozen'' = 1)"

definition is_frozen :: "outside \<Rightarrow> cgroup \<Rightarrow> bool prog" where
  "is_frozen K cg = or_else False
     (bind_p (cg_read K cg ''cgroup.events'') (\<lambda>text. ret (frozen_text text)))"

fun await_frozen :: "outside \<Rightarrow> cgroup \<Rightarrow> bool \<Rightarrow> nat \<Rightarrow> unit prog" where
  "await_frozen K cg frozen 0 = fail (Invalid ''did not reach frozen within 5s'')"
| "await_frozen K cg frozen (Suc n) =
     bind_p (is_frozen K cg) (\<lambda>b.
     if b = frozen then ret ()
     else seq_p (ask K (Time (SleepMs 10)) (\<lambda>_. ())) (await_frozen K cg frozen n))"

definition cg_freeze :: "outside \<Rightarrow> cgroup \<Rightarrow> bool \<Rightarrow> unit prog" where
  "cg_freeze K cg frozen =
     seq_p (cg_write K cg ''cgroup.freeze'' (if frozen then ''1'' else ''0''))
       (await_frozen K cg frozen 500)"

definition cg_add_process :: "outside \<Rightarrow> cgroup \<Rightarrow> int \<Rightarrow> unit prog" where
  "cg_add_process K cg pid = cg_write K cg ''cgroup.procs'' (int_text pid)"

text \<open>\<open>n\<close> counts the attempts left; the last one does not retry a busy directory.\<close>

fun remove_retry :: "outside \<Rightarrow> string \<Rightarrow> nat \<Rightarrow> unit prog" where
  "remove_retry K path 0 = ret ()"
| "remove_retry K path (Suc n) =
     bind_p (call K (Fs (RmDir path))) (\<lambda>r.
     case r_err r of
       None \<Rightarrow> ret ()
     | Some e \<Rightarrow>
         if e = EBUSY \<and> n \<noteq> 0
         then seq_p (ask K (Time (SleepMs 20)) (\<lambda>_. ())) (remove_retry K path n)
         else fail (IoErr ''remove cgroup'' e))"

definition cg_destroy :: "outside \<Rightarrow> cgroup \<Rightarrow> unit prog" where
  "cg_destroy K cg =
     seq_p (remove_retry K (cg_path cg) 50)
       (given (path_parent (cg_path cg)) (\<lambda>parent.
          when_p (\<not> path_eq parent MOUNT_POINT)
            (ignore (do_op K (IoErr ''remove cgroup'') (Fs (RmDir parent))))))"

text \<open>
  \<^verbatim>\<open>Cgroup::apply\<close> as the list of files it writes, in order; the writes stop at the first
  failure.
\<close>

definition memory_writes :: "memory \<Rightarrow> (string \<times> string) list" where
  "memory_writes m =
     (case me_limit m of Some bytes \<Rightarrow> [(''memory.max'', limit_value bytes)] | None \<Rightarrow> [])
   @ (case me_reservation m of Some bytes \<Rightarrow> [(''memory.low'', limit_value bytes)] | None \<Rightarrow> [])
   @ (case me_swap m of Some swap \<Rightarrow> [(''memory.swap.max'', swap_value swap (me_limit m))] | None \<Rightarrow> [])"

definition cpu_writes :: "cpu \<Rightarrow> (string \<times> string) list" where
  "cpu_writes c =
     (let period = get_or 100000 (cp_period c) in
      (case cp_quota c of Some quota \<Rightarrow> [(''cpu.max'', cpu_max_value quota period)] | None \<Rightarrow> [])
    @ (case cp_shares c of
         Some shares \<Rightarrow> if shares \<noteq> 0
           then [(''cpu.weight'', dec_text (unat (shares_to_weight (of_nat shares))))] else []
       | None \<Rightarrow> [])
    @ (case cp_cpus c of Some cpus \<Rightarrow> if cpus \<noteq> [] then [(''cpuset.cpus'', cpus)] else [] | None \<Rightarrow> [])
    @ (case cp_mems c of Some mems \<Rightarrow> if mems \<noteq> [] then [(''cpuset.mems'', mems)] else [] | None \<Rightarrow> []))"

definition block_io_writes :: "block_io \<Rightarrow> (string \<times> string) list" where
  "block_io_writes b =
     (case bi_weight b of
        Some weight \<Rightarrow> if weight \<noteq> 0
          then [(''io.weight'', dec_text (unat (blkio_to_io_weight (of_nat weight))))] else []
      | None \<Rightarrow> [])
   @ map (\<lambda>line. (''io.max'', line)) (io_max_lines b)"

definition apply_writes :: "resources \<Rightarrow> (string \<times> string) list" where
  "apply_writes rs =
     (case rs_memory rs of Some m \<Rightarrow> memory_writes m | None \<Rightarrow> [])
   @ (case rs_cpu rs of Some c \<Rightarrow> cpu_writes c | None \<Rightarrow> [])
   @ (case rs_pids rs of Some limit \<Rightarrow> [(''pids.max'', limit_value limit)] | None \<Rightarrow> [])
   @ (case rs_block_io rs of Some b \<Rightarrow> block_io_writes b | None \<Rightarrow> [])
   @ flat (rs_unified rs)"

definition cg_apply :: "outside \<Rightarrow> cgroup \<Rightarrow> resources \<Rightarrow> unit prog" where
  "cg_apply K cg rs = each (\<lambda>(file, text). cg_write K cg file text) (apply_writes rs)"

section \<open>What the operations do\<close>

text \<open>
  Unlike the path of the group, the keys of \<^verbatim>\<open>unified\<close> are not confined: an absolute key
  replaces the directory of the group when it is joined to it.
\<close>

lemma unified_key_escapes:
  assumes "is_absolute file"
  shows "snd (cg_apply K cg \<lparr>rs_memory = None, rs_cpu = None, rs_pids = None, rs_block_io = None,
      rs_unified = Some [(file, content)]\<rparr> h) = Fs (WriteFile file content) # h"
proof -
  let ?here = "\<lambda>h'. h' = Fs (WriteFile file content) # h"
  have "wp (cg_write K cg file content) (\<lambda>_. ?here) (\<lambda>_. ?here) h"
    using assms by (auto simp: cg_write_def path_join_def wp_do_op split: option.split)
  then have "wp (cg_apply K cg \<lparr>rs_memory = None, rs_cpu = None, rs_pids = None, rs_block_io = None,
      rs_unified = Some [(file, content)]\<rparr>) (\<lambda>_. ?here) (\<lambda>_. ?here) h"
    by (auto simp: cg_apply_def apply_writes_def wp_seq wp_ret elim: wp_mono)
  then show ?thesis by (auto simp: wp_def split: prod.splits sum.splits)
qed

text \<open>The calls that creating a cgroup may make: queries, and changes strictly inside the mount point.\<close>

definition inside_mount :: "string \<Rightarrow> bool" where
  "inside_mount p \<longleftrightarrow> (\<exists>n ns. components p = components MOUNT_POINT @ n # ns \<and> list_all is_normal (n # ns))"

fun create_call :: "sysop \<Rightarrow> bool" where
  "create_call (Query _) = True"
| "create_call (Fs (MkDir d)) = inside_mount d"
| "create_call (Fs (WriteFile f _)) = inside_mount f"
| "create_call _ = False"

lemma subtree_control_normal [simp]: "normal_name ''cgroup.subtree_control''"
  by (simp add: normal_name_def real_part_def)

lemma delegate_calls:
  assumes "components dir = components MOUNT_POINT @ ns" "list_all is_normal ns"
  shows "emits create_call (delegate K dir)"
proof -
  have "inside_mount (path_join dir ''cgroup.subtree_control'')"
    using assms by (cases ns) (auto simp: inside_mount_def)
  then show ?thesis
    unfolding delegate_def read_list_def by (intro emits_intros) auto
qed

lemma create_levels_spec:
  assumes "components current = components MOUNT_POINT @ ns" "list_all is_normal ns"
    and "\<forall>c \<in> set cs. \<forall>p. c = Normal p \<longrightarrow> normal_name p"
  shows "emits create_call (create_levels K current cs)
    \<and> (\<forall>h. wp (create_levels K current cs)
        (\<lambda>path _. components path = components MOUNT_POINT @ ns @ filter is_normal cs) (\<lambda>_ _. True) h)"
  using assms
proof (induction K current cs arbitrary: ns rule: create_levels.induct)
  case (2 K current part cs)
  let ?cur = "path_join current part"
  have part: "normal_name part" using "2.prems" by simp
  then have cur: "components ?cur = components MOUNT_POINT @ ns @ [Normal part]"
    and all: "list_all is_normal (ns @ [Normal part])"
    using "2.prems" by simp_all
  have rest: "emits create_call (create_levels K ?cur cs)"
    "\<And>h. wp (create_levels K ?cur cs)
       (\<lambda>path _. components path = components MOUNT_POINT @ (ns @ [Normal part]) @ filter is_normal cs)
       (\<lambda>_ _. True) h"
    using "2.IH" [where ns = "ns @ [Normal part]"] cur all "2.prems"(3) by auto
  have "inside_mount ?cur"
    using cur all by (cases ns) (auto simp: inside_mount_def)
  then have calls: "emits create_call (create_levels K current (Normal part # cs))"
    unfolding create_levels.simps Let_def
    by (intro emits_intros delegate_calls [OF "2.prems"(1,2)] rest(1)) auto
  have "wp (create_levels K current (Normal part # cs))
      (\<lambda>path _. components path = components MOUNT_POINT @ ns @ Normal part # filter is_normal cs)
      (\<lambda>_ _. True) h" for h
    unfolding create_levels.simps Let_def wp_simps
    by (rule wp_mono [OF wp_true]) (use rest(2) in \<open>auto split: option.splits\<close>)
  with calls part show ?case by simp
qed (auto simp: wp_simps intro: emits_intros)

lemma cg_create_cases:
  assumes "cg_create K relative h = (r, h')"
  shows "\<exists>l. h' = l @ h \<and> list_all create_call l"
    and "r = Inr cg \<Longrightarrow> components (cg_path cg) = components MOUNT_POINT @ filter is_normal (components relative)
       \<and> cg_relative cg = relative"
proof -
  have norm: "\<forall>c \<in> set (components relative). \<forall>p. c = Normal p \<longrightarrow> normal_name p"
    by (auto simp: components_normal)
  note spec = create_levels_spec [of MOUNT_POINT "[]" "components relative" K, simplified, OF norm]
  have "emits create_call (cg_create K relative)"
    unfolding cg_create_def is_unified_def by (intro emits_intros conjunct1 [OF spec]) auto
  then show "\<exists>l. h' = l @ h \<and> list_all create_call l" using assms emitsD by blast
  have "wp (cg_create K relative)
    (\<lambda>cg _. components (cg_path cg) = components MOUNT_POINT @ filter is_normal (components relative)
       \<and> cg_relative cg = relative) (\<lambda>_ _. True) h"
    using spec by (auto simp: cg_create_def is_unified_def wp_simps)
  then show "r = Inr cg \<Longrightarrow> components (cg_path cg) = components MOUNT_POINT @ filter is_normal (components relative)
       \<and> cg_relative cg = relative"
    using assms by (auto dest: wp_sound)
qed

text \<open>
  Creating a container's cgroup touches nothing outside the cgroup mount point, whatever the
  kernel answers and wherever it fails: every directory made and every file written lies strictly
  below it. On success the directory is the one that later commands find through
  \<^verbatim>\<open>Cgroup::attach\<close> from the recorded relative path.
\<close>

theorem cg_create_contained:
  assumes "validate_id cid = Inr ()"
    and "cg_create K (relative_path cp cid) h = (r, h')"
  shows "\<exists>l. h' = l @ h \<and> list_all create_call l
    \<and> list_all (\<lambda>cg. path_eq (cg_path cg) (cg_path (cg_attach (cg_relative cg)))) (case r of Inr cg \<Rightarrow> [cg] | Inl _ \<Rightarrow> [])"
proof -
  note n = relative_path_normal [OF assms(1), of cp]
  have "components (cgroup_dir (relative_path cp cid)) = components MOUNT_POINT @ components (relative_path cp cid)"
    unfolding cgroup_dir_def
    by (subst components_join) (use no_curdir_body [OF n] in \<open>simp_all add: MOUNT_POINT_def\<close>)
  moreover have "filter is_normal (components (relative_path cp cid)) = components (relative_path cp cid)"
    using n by (simp add: filter_id_conv)
  ultimately show ?thesis
    using cg_create_cases [OF assms(2)]
    by (cases r) (auto simp: path_eq_def cg_attach_def)
qed

lemma cg_create_contained_witness:
  "case cg_create (granting (\<lambda>op r. r\<lparr>r_num := CGROUP2_SUPER_MAGIC\<rparr>)) (relative_path (Some ''/../up/x'') ''abc'') []
     of (r, h') \<Rightarrow> (\<exists>l. h' = l @ [] \<and> list_all create_call l)
      \<and> list_all (\<lambda>cg. path_eq (cg_path cg) (cg_path (cg_attach (cg_relative cg)))) (case r of Inr cg \<Rightarrow> [cg] | Inl _ \<Rightarrow> [])
      \<and> r = Inr \<lparr>cg_path = ''/sys/fs/cgroup/up/x'', cg_relative = ''up/x''\<rparr>"
proof -
  have "validate_id ''abc'' = Inr ()" by code_simp
  note t = cg_create_contained [OF this, of "granting (\<lambda>op r. r\<lparr>r_num := CGROUP2_SUPER_MAGIC\<rparr>)" "Some ''/../up/x''" "[]"]
  have "fst (cg_create (granting (\<lambda>op r. r\<lparr>r_num := CGROUP2_SUPER_MAGIC\<rparr>)) (relative_path (Some ''/../up/x'') ''abc'') [])
      = Inr \<lparr>cg_path = ''/sys/fs/cgroup/up/x'', cg_relative = ''up/x''\<rparr>"
    by code_simp
  then show ?thesis using t by (auto split: prod.splits)
qed

text \<open>What the last poll of \<^verbatim>\<open>cgroup.events\<close> says; an unreadable file counts as not frozen.\<close>

definition polled :: "outside \<Rightarrow> cgroup \<Rightarrow> history \<Rightarrow> bool" where
  "polled K cg h =
     (let r = answer K h (Query (ReadFile (path_join (cg_path cg) ''cgroup.events'')))
      in r_err r = None \<and> frozen_text (r_text r))"

lemma wp_is_frozen:
  "wp (is_frozen K cg) Q E = (\<lambda>h. Q (polled K cg h)
     (Query (ReadFile (path_join (cg_path cg) ''cgroup.events'')) # h))"
  by (auto simp: fun_eq_iff is_frozen_def cg_read_def wp_simps polled_def Let_def split: option.splits)

lemma await_frozen_wp:
  "wp (await_frozen K cg b n)
     (\<lambda>_ h'. \<exists>h0. h' = Query (ReadFile (path_join (cg_path cg) ''cgroup.events'')) # h0
        \<and> polled K cg h0 = b \<and> length h' \<le> length h + 2 * n)
     (\<lambda>_ h'. length h' \<le> length h + 2 * n) h"
proof (induction n arbitrary: h)
  case (Suc n)
  show ?case
    by (auto simp: wp_simps wp_is_frozen intro!: wp_mono [OF Suc.IH])
qed (simp add: wp_simps)

text \<open>
  Freezing (or thawing) reports success only when the last thing it did was to read
  \<^verbatim>\<open>cgroup.events\<close> and the file said so, and it gives up after at most 500 polls: on any
  outcome it makes at most 1001 calls.
\<close>

theorem freeze_confirmed_and_bounded:
  assumes "cg_freeze K cg b h = (r, h')"
  shows "length h' \<le> length h + 1001
    \<and> (r = Inr () \<longrightarrow> (\<exists>h0. h' = Query (ReadFile (path_join (cg_path cg) ''cgroup.events'')) # h0
         \<and> polled K cg h0 = b))"
proof -
  have "wp (cg_freeze K cg b)
     (\<lambda>_ h'. \<exists>h0. h' = Query (ReadFile (path_join (cg_path cg) ''cgroup.events'')) # h0
        \<and> polled K cg h0 = b \<and> length h' \<le> length h + 1001)
     (\<lambda>_ h'. length h' \<le> length h + 1001) h"
    unfolding cg_freeze_def cg_write_def wp_simps
    by (auto split: option.splits intro!: wp_mono [OF await_frozen_wp])
  then show ?thesis using assms by (cases r) (auto simp: wp_def)
qed

lemma freeze_first_poll:
  assumes "\<And>h op. r_err (answer K h op) = None" "\<And>h. polled K cg h = b"
  shows "fst (cg_freeze K cg b h) = Inr ()"
proof -
  have "wp (await_frozen K cg b (Suc n)) (\<lambda>_ _. True) (\<lambda>_ _. False) h'" for n h'
    unfolding await_frozen.simps(2) wp_simps wp_is_frozen by (simp add: assms(2))
  from this [of 499] have "wp (await_frozen K cg b 500) (\<lambda>_ _. True) (\<lambda>_ _. False) h'" for h'
    by simp
  then have "wp (cg_freeze K cg b) (\<lambda>_ _. True) (\<lambda>_ _. False) h"
    unfolding cg_freeze_def cg_write_def wp_simps by (simp add: assms(1))
  then show ?thesis by (auto simp: wp_def split: prod.splits sum.splits)
qed

lemma freeze_confirmed_and_bounded_witness:
  "\<exists>h'. cg_freeze (granting (\<lambda>op r. r\<lparr>r_text := ''frozen 1''\<rparr>)) (cg_attach ''mars/abc'') True [] = (Inr (), h')
     \<and> length h' \<le> 1001 \<and> hd h' = Query (ReadFile ''/sys/fs/cgroup/mars/abc/cgroup.events'')"
proof -
  let ?run = "cg_freeze (granting (\<lambda>op r. r\<lparr>r_text := ''frozen 1''\<rparr>)) (cg_attach ''mars/abc'') True []"
  have "frozen_text ''frozen 1''" by code_simp
  then have "fst ?run = Inr ()"
    by (intro freeze_first_poll) (simp_all add: polled_def granting_def plain_reply_def)
  moreover have "path_join (cg_path (cg_attach ''mars/abc'')) ''cgroup.events'' = ''/sys/fs/cgroup/mars/abc/cgroup.events''"
    by code_simp
  ultimately show ?thesis
    using freeze_confirmed_and_bounded [of "granting (\<lambda>op r. r\<lparr>r_text := ''frozen 1''\<rparr>)" "cg_attach ''mars/abc''" True "[]"]
    by (cases ?run) fastforce
qed

section \<open>The freezer as an interface\<close>

text \<open>
  What a caller that signals the processes of a group relies on: asking whether it is frozen changes
  nothing, freezing sends no signal, and when freezing returns the group was confirmed to be in the
  wanted state. Whatever is done between freezing and thawing is then done to a frozen group.
\<close>

definition while_frozen :: "bool prog \<Rightarrow> (bool \<Rightarrow> unit prog) \<Rightarrow> unit prog \<Rightarrow> unit prog" where
  "while_frozen state set_state m =
     bind_p state (\<lambda>frozen.
     seq_p (when_p (\<not> frozen) (set_state True))
     (on_result m (\<lambda>result. seq_p (when_p (\<not> frozen) (set_state False)) (lift_res result))))"

locale freezer =
  fixes state :: "bool prog" and set_state :: "bool \<Rightarrow> unit prog"
  assumes asks_only: "emits is_query state"
    and sends_no_signal: "emits no_kill (set_state b)"
    and confirmed: "ensures (set_state b) (earlier state b)"
begin

lemma state_grows: "grows (set_state b)"
  by (rule emits_grows [OF sends_no_signal])

lemma frozen_meanwhile:
  assumes "grows m"
  shows "guarded is_kill (earlier state True) (while_frozen state set_state m)"
proof (rule guarded_guards)
  have rest: "grows (on_result m (\<lambda>result. seq_p (when_p (\<not> frozen) (set_state False)) (lift_res result)))" for frozen
    unfolding grows_def
    by (intro emits_intros assms [unfolded grows_def] state_grows [unfolded grows_def])
  have freeze: "emits no_kill (when_p (\<not> frozen) (set_state True))" for frozen
    by (intro emits_intros sends_no_signal)
  have confirm: "ensures (when_p (\<not> frozen) (set_state True)) (\<lambda>h. \<not> frozen \<longrightarrow> earlier state True h)" for frozen
    by (intro ensures_when confirmed)
  show "guards is_kill (\<lambda>_. True) (earlier state True) (while_frozen state set_state m)"
    unfolding while_frozen_def
    by (rule guards_bind [OF guards_no_call [OF query_no_kill [OF asks_only]] wp_earlier],
        rule guards_note_seq [OF freeze stable_earlier confirm], rule guards_known [OF rest stable_earlier]) auto
qed

lemma outcome_kept:
  assumes "ensures m F" "stable F"
  shows "ensures (while_frozen state set_state m) F"
  unfolding while_frozen_def
  by (rule ensures_then, rule ensures_seq_then, rule ensures_finally [OF assms])
    (simp add: grows_def when_p_def state_grows [unfolded grows_def] emits_ret)

end

lemma frozen_queries: "emits is_query (is_frozen K cg)"
  unfolding is_frozen_def cg_read_def by (intro emits_intros) auto

lemma procs_queries: "emits is_query (cg_procs K cg)"
  unfolding cg_procs_def cg_read_def by (intro emits_intros) auto

lemma freeze_calls: "emits (\<lambda>op. case op of Query _ \<Rightarrow> True | Fs (WriteFile _ _) \<Rightarrow> True | Time _ \<Rightarrow> True | _ \<Rightarrow> False) (cg_freeze K cg b)"
proof -
  have "emits (\<lambda>op. case op of Query _ \<Rightarrow> True | Fs (WriteFile _ _) \<Rightarrow> True | Time _ \<Rightarrow> True | _ \<Rightarrow> False) (await_frozen K cg b n)" for n
    by (induction n) (auto intro!: emits_intros emits_mono [OF frozen_queries] elim: is_queryE)
  then show ?thesis unfolding cg_freeze_def cg_write_def by (intro emits_intros) auto
qed

lemma freeze_no_kill: "emits no_kill (cg_freeze K cg b)"
  by (rule emits_mono [OF freeze_calls]) (auto elim: is_killE split: sysop.splits)

lemma freeze_confirms: "ensures (cg_freeze K cg b) (earlier (is_frozen K cg) b)"
proof -
  have poll: "earlier (is_frozen K cg) b (Query (ReadFile (path_join (cg_path cg) ''cgroup.events'')) # h0)" if "polled K cg h0 = b" for h0
  proof (rule earlier_run)
    show "is_frozen K cg h0 = (Inr b, Query (ReadFile (path_join (cg_path cg) ''cgroup.events'')) # h0)"
      using that fun_cong [OF wp_is_frozen [of K cg "\<lambda>x h'. x = b \<and> h' = Query (ReadFile (path_join (cg_path cg) ''cgroup.events'')) # h0" "\<lambda>_ _. False"], of h0]
      by (auto simp: wp_def split: prod.splits sum.splits)
  qed
  show ?thesis
    unfolding cg_freeze_def
    by (intro ensures_seq_then ensuresI wp_mono [OF await_frozen_wp]) (elim exE conjE, simp only:, rule poll, simp_all)
qed

interpretation cgroup_freezer: freezer "is_frozen K cg" "cg_freeze K cg" for K cg
  by unfold_locales (rule frozen_queries freeze_no_kill freeze_confirms)+

end
