(* ===== verification/Overlay.thy ===== *)
theory Overlay
  imports Kernel
begin

text \<open>
  \<^verbatim>\<open>src/src/rootfs/overlay.rs\<close>: the overlay layers a bundle asks for in its annotations,
  the text of the mount option and its escaping, the checks made before the mount, and the fallback
  to paths relative to a common parent when the option string exceeds one page.
\<close>

definition LOWERDIR :: string where "LOWERDIR = ''dev.mars.overlay.lowerdir''"
definition UPPERDIR :: string where "UPPERDIR = ''dev.mars.overlay.upperdir''"
definition WORKDIR :: string where "WORKDIR = ''dev.mars.overlay.workdir''"
definition MAX_OPTION_BYTES :: nat where "MAX_OPTION_BYTES = 4096"
definition MIN_READONLY_LOWER :: nat where "MIN_READONLY_LOWER = 2"

record layers =
  la_lower :: "string list"
  la_upper :: "string option"
  la_work :: "string option"

definition is_readonly :: "layers \<Rightarrow> bool" where
  "is_readonly l = (la_upper l = None)"

abbreviation backslash :: char where "backslash \<equiv> CHR 0x5C"

section \<open>The option text\<close>

text \<open>The loop of \<^verbatim>\<open>split_lowerdir\<close>; the first argument is \<^verbatim>\<open>current\<close>.\<close>

fun lower_parts :: "string \<Rightarrow> string \<Rightarrow> string list" where
  "lower_parts current [] = [current]"
| "lower_parts current (c # chars) =
     (if c = backslash then
        (case chars of [] \<Rightarrow> lower_parts current [] | escaped # rest \<Rightarrow> lower_parts (current @ [escaped]) rest)
      else if c = CHR '':'' then current # lower_parts [] chars
      else lower_parts (current @ [c]) chars)"

definition split_lowerdir :: "string \<Rightarrow> string list" where
  "split_lowerdir v = filter (\<lambda>part. part \<noteq> []) (lower_parts [] v)"

definition escape :: "string \<Rightarrow> string res" where
  "escape text =
     (if CHR '','' \<in> set text then Inl (OverlayErr ''contains a comma'')
      else Inr (replace_char (CHR '':'') [backslash, CHR '':'']
             (replace_char backslash [backslash, backslash] text)))"

definition options :: "layers \<Rightarrow> string res" where
  "options l =
     and_then (map_res escape (la_lower l)) (\<lambda>lower.
     and_then (case la_upper l of
         None \<Rightarrow> Inr [] | Some u \<Rightarrow> and_then (escape u) (\<lambda>e. Inr [''upperdir='' @ e])) (\<lambda>upper.
     and_then (case la_work l of
         None \<Rightarrow> Inr [] | Some w \<Rightarrow> and_then (escape w) (\<lambda>e. Inr [''workdir='' @ e])) (\<lambda>work.
     Inr (join_with '','' ([''lowerdir='' @ join_with '':'' lower] @ upper @ work)))))"

definition absolute :: "string \<Rightarrow> string \<Rightarrow> string" where
  "absolute bundle dir = (if is_absolute dir then dir else path_join bundle dir)"

definition from_annotations :: "str_map \<Rightarrow> string \<Rightarrow> layers option res" where
  "from_annotations annotations bundle =
     (let lower = map_of annotations LOWERDIR; upper = map_of annotations UPPERDIR;
          work = map_of annotations WORKDIR in
      case lower of
        Some v \<Rightarrow>
          if trim v \<noteq> [] then
            (let dirs = map (absolute bundle) (split_lowerdir v) in
             if dirs = [] then Inl (OverlayErr ''lists no directories'')
             else Inr (Some \<lparr>la_lower = dirs, la_upper = map_option (absolute bundle) upper,
                        la_work = map_option (absolute bundle) work\<rparr>))
          else if upper \<noteq> None \<or> work \<noteq> None
            then Inl (OverlayErr ''upperdir or workdir is set but lowerdir is not'') else Inr None
      | None \<Rightarrow>
          if upper \<noteq> None \<or> work \<noteq> None
            then Inl (OverlayErr ''upperdir or workdir is set but lowerdir is not'') else Inr None)"

section \<open>Relative paths\<close>

definition shared_with :: "comp list \<Rightarrow> comp list \<Rightarrow> comp list" where
  "shared_with shared candidate = take (length (takeWhile (\<lambda>(a, b). a = b) (zip shared candidate))) shared"

fun share_parents :: "comp list \<Rightarrow> string list \<Rightarrow> comp list option" where
  "share_parents shared [] = Some shared"
| "share_parents shared (path # paths) =
     (case path_parent path of
        None \<Rightarrow> None
      | Some parent \<Rightarrow> share_parents (shared_with shared (components parent)) paths)"

definition all_layers :: "layers \<Rightarrow> string list" where
  "all_layers l = la_lower l @ (case la_upper l of Some u \<Rightarrow> [u] | None \<Rightarrow> [])
     @ (case la_work l of Some w \<Rightarrow> [w] | None \<Rightarrow> [])"

definition common_parent :: "layers \<Rightarrow> string option" where
  "common_parent l = (case all_layers l of
     [] \<Rightarrow> None
   | first # rest \<Rightarrow>
       Option.bind (path_parent first) (\<lambda>parent.
       Option.bind (share_parents (components parent) rest) (\<lambda>shared.
         let joined = path_of_comps shared in if is_absolute joined then Some joined else None)))"

definition strip :: "string \<Rightarrow> string \<Rightarrow> string option" where
  "strip base path = (case path_strip_prefix path base of
     Some rest \<Rightarrow> if rest \<noteq> [] then Some rest else None | None \<Rightarrow> None)"

fun map_opt :: "('a \<Rightarrow> 'b option) \<Rightarrow> 'a list \<Rightarrow> 'b list option" where
  "map_opt f [] = Some []"
| "map_opt f (x # xs) = Option.bind (f x) (\<lambda>y. Option.bind (map_opt f xs) (\<lambda>ys. Some (y # ys)))"

definition strip_opt :: "string \<Rightarrow> string option \<Rightarrow> string option option" where
  "strip_opt base dir = (case dir of Some d \<Rightarrow> map_option Some (strip base d) | None \<Rightarrow> Some None)"

definition relative_to :: "layers \<Rightarrow> string \<Rightarrow> layers option" where
  "relative_to l base =
     Option.bind (map_opt (strip base) (la_lower l)) (\<lambda>lower.
     Option.bind (strip_opt base (la_upper l)) (\<lambda>upper.
     Option.bind (strip_opt base (la_work l)) (\<lambda>work.
       Some \<lparr>la_lower = lower, la_upper = upper, la_work = work\<rparr>)))"

section \<open>Preparation and mount\<close>

definition check_same_filesystem :: "outside \<Rightarrow> string \<Rightarrow> string \<Rightarrow> unit prog" where
  "check_same_filesystem K upper work =
     bind_p (io K (IoErr ''stat upperdir'') (Query (StatDev upper)) r_num) (\<lambda>upper_dev.
     bind_p (io K (IoErr ''stat workdir'') (Query (StatDev work)) r_num) (\<lambda>work_dev.
     if upper_dev \<noteq> work_dev then fail (OverlayErr ''workdir and upperdir are on different devices'')
     else ret ()))"

definition check_not_nested :: "string \<Rightarrow> string \<Rightarrow> unit res" where
  "check_not_nested upper work =
     (if starts_with work upper then Inl (OverlayErr ''workdir is inside upperdir'')
      else if starts_with upper work then Inl (OverlayErr ''upperdir is inside workdir'')
      else Inr ())"

definition check_lower :: "outside \<Rightarrow> string \<Rightarrow> string \<Rightarrow> unit prog" where
  "check_lower K upper dir =
     bind_p (io K (IoErr ''resolve lower layer'') (Query (Canonicalize dir)) r_text) (\<lambda>lower.
     if path_eq lower upper \<or> starts_with upper lower \<or> starts_with lower upper
     then fail (OverlayErr ''lower layer overlaps the upper layer'') else ret ())"

definition prepare_writable :: "outside \<Rightarrow> layers \<Rightarrow> string \<Rightarrow> string \<Rightarrow> unit prog" where
  "prepare_writable K l upper work =
     seq_p (do_op K (IoErr ''create upperdir'') (Fs (MkDirAll upper)))
     (seq_p (do_op K (IoErr ''create workdir'') (Fs (MkDirAll work)))
     (bind_p (io K (IoErr ''resolve upperdir'') (Query (Canonicalize upper)) r_text) (\<lambda>upper.
      bind_p (io K (IoErr ''resolve workdir'') (Query (Canonicalize work)) r_text) (\<lambda>work.
      seq_p (check_same_filesystem K upper work)
      (seq_p (lift_res (check_not_nested upper work))
      (each (check_lower K upper) (la_lower l)))))))"

definition lower_is_dir :: "outside \<Rightarrow> string \<Rightarrow> unit prog" where
  "lower_is_dir K dir = bind_p (ask K (Query (IsDir dir)) r_flag) (\<lambda>is_dir.
     if is_dir then ret () else fail (OverlayErr ''lower layer does not exist or is not a directory''))"

definition prepare :: "outside \<Rightarrow> layers \<Rightarrow> unit prog" where
  "prepare K l =
     seq_p (each (lower_is_dir K) (la_lower l))
     (case la_upper l of
        Some upper \<Rightarrow>
          (case la_work l of
             Some work \<Rightarrow> prepare_writable K l upper work
           | None \<Rightarrow> fail (OverlayErr ''upperdir requires workdir''))
      | None \<Rightarrow>
          (case la_work l of
             Some _ \<Rightarrow> fail (OverlayErr ''workdir was set without upperdir'')
           | None \<Rightarrow>
               if length (la_lower l) < MIN_READONLY_LOWER
               then fail (OverlayErr ''a read-only overlay needs at least 2 lower layers'')
               else ret ()))"

definition too_long :: "string option \<Rightarrow> error" where
  "too_long base = OverlayErr (case base of
     Some _ \<Rightarrow> ''the mount option string is over the page the kernel accepts even relative to the base''
   | None \<Rightarrow> ''the mount option string is over the page and the layers share no common parent'')"

text \<open>The data of the mount, and the directory to change to first when its paths are relative.\<close>

definition mount_data :: "layers \<Rightarrow> (string \<times> string option) res" where
  "mount_data l =
     and_then (options l) (\<lambda>full.
     if length full \<le> MAX_OPTION_BYTES then Inr (full, None)
     else and_then (ok_or (common_parent l) (too_long None)) (\<lambda>base.
          and_then (ok_or (relative_to l base) (too_long (Some base))) (\<lambda>relative.
          and_then (options relative) (\<lambda>shortened.
          if length shortened > MAX_OPTION_BYTES then Inl (too_long (Some base))
          else Inr (shortened, Some base)))))"

definition mount_at :: "outside \<Rightarrow> string \<Rightarrow> layers \<Rightarrow> unit prog" where
  "mount_at K target l =
     bind_p (lift_res (mount_data l)) (\<lambda>(data, base).
     seq_p (given base (\<lambda>b. do_op K (NixErr ''chdir to overlay base'') (Mnt (Chdir b))))
     (on_result
        (do_op K (NixErr ''mount overlay'')
          (Mnt (Mount (Some ''overlay'') target (Some ''overlay'') 0 (Some data))))
        (\<lambda>result.
         seq_p (when_p (base \<noteq> None)
             (do_op K (NixErr ''chdir back to / after mounting the overlay'') (Mnt (Chdir ''/''))))
           (lift_res result))))"

section \<open>The text round trip\<close>

definition esc :: "string \<Rightarrow> string" where
  "esc text = replace_char (CHR '':'') [backslash, CHR '':''] (replace_char backslash [backslash, backslash] text)"

lemma escape_alt: "escape text = (if CHR '','' \<in> set text then Inl (OverlayErr ''contains a comma'') else Inr (esc text))"
  by (simp add: escape_def esc_def)

lemma esc_simps [simp]:
  "esc [] = []"
  "esc (c # cs) = (if c = CHR '':'' \<or> c = backslash then backslash # c # esc cs else c # esc cs)"
  by (simp_all add: esc_def)

interpretation lowerdir: escaping esc "\<lambda>c. if c = CHR '':'' \<or> c = backslash then Some c else None" id
  by unfold_locales (auto split: if_splits)

lemma lower_parts_esc: "lower_parts current (esc path @ rest) = lower_parts (current @ path) rest"
  by (induction path arbitrary: current) auto

lemma lower_parts_join:
  "paths \<noteq> [] \<Longrightarrow> lower_parts [] (join_with '':'' (map esc paths)) = paths"
proof (induction paths rule: induct_list012)
  case (2 p)
  then show ?case using lower_parts_esc [of "[]" p "[]"] by simp
next
  case (3 p q paths)
  then show ?case by (simp add: lower_parts_esc)
qed simp

text \<open>
  C31: the escaping of layer directories loses nothing. Whenever the paths of the lower layers are
  accepted, splitting the joined \<^verbatim>\<open>lowerdir\<close> value by the rules of overlayfs gives back
  exactly the list of layers, in order, colons and backslashes in their names included.
\<close>

theorem lowerdir_round_trip:
  assumes "paths \<noteq> []" "[] \<notin> set paths" "map_res escape paths = Inr escaped"
  shows "split_lowerdir (join_with '':'' escaped) = paths"
proof -
  have "map_res escape paths = Inr escaped \<Longrightarrow> escaped = map esc paths" for escaped
    by (induction paths arbitrary: escaped) (auto simp: result_simps escape_alt split: if_splits)
  with assms show ?thesis
    by (auto simp: split_lowerdir_def lower_parts_join filter_id_conv)
qed

lemma lowerdir_round_trip_witness:
  "split_lowerdir (join_with '':'' [''/a'' @ backslash # '':b'', ''/c'' @ [backslash, backslash]]) = [''/a:b'', ''/c'' @ [backslash]]"
  by (rule lowerdir_round_trip) code_simp+

section \<open>Relative paths name the same directories\<close>

lemma shared_with_prefix: "prefix (shared_with a b) a"
  by (simp add: shared_with_def take_is_prefix)

lemma share_parents_prefix: "share_parents shared paths = Some cs \<Longrightarrow> prefix cs shared"
  by (induction shared paths rule: share_parents.induct)
    (auto split: option.splits dest: prefix_order.trans [OF _ shared_with_prefix])

lemma absolute_components: "is_absolute s \<Longrightarrow> \<exists>cs. components s = RootDir # cs"
  by (simp add: components_alt)

lemma strip_rejoins:
  assumes "strip base path = Some r" "is_absolute base"
  shows "components (path_join base r) = components path"
proof -
  from assms have r: "path_strip_prefix path base = Some r"
    by (auto simp: strip_def split: option.splits if_splits)
  obtain cs where base: "components base = RootDir # cs" using absolute_components [OF assms(2)] ..
  then have path: "components path = components base @ components r"
    using components_strip_prefix [OF r] by simp
  obtain ps where "components path = path_lead path @ ps" "RootDir \<notin> set ps" "CurDir \<notin> set ps"
    by (rule components_shape)
  with base path path_lead_cases [of path] have "RootDir \<notin> set (components r)" "CurDir \<notin> set (components r)"
    by (auto simp: append_eq_Cons_conv)
  then have "\<not> is_absolute r" "body_comps (split_on slash r) = components r"
    by (auto simp: components_alt split: if_splits)
  then show ?thesis using path assms(2) by (subst components_join) auto
qed

lemma common_parent_absolute: "common_parent l = Some base \<Longrightarrow> is_absolute base"
  by (auto simp: common_parent_def Let_def bind_eq_Some_conv split: list.splits if_splits)

text \<open>The layers \<open>l'\<close>, seen from the working directory \<open>base\<close>, are the directories of \<open>l\<close>.\<close>

definition seen_from :: "string \<Rightarrow> string \<Rightarrow> string \<Rightarrow> bool" where
  "seen_from base short long = path_eq (path_join base short) long"

definition same_layers :: "string \<Rightarrow> layers \<Rightarrow> layers \<Rightarrow> bool" where
  "same_layers base l' l =
     (list_all2 (seen_from base) (la_lower l') (la_lower l)
      \<and> rel_option (seen_from base) (la_upper l') (la_upper l)
      \<and> rel_option (seen_from base) (la_work l') (la_work l))"

lemma map_opt_Some_iff: "map_opt f xs = Some ys \<longleftrightarrow> list_all2 (\<lambda>x y. f x = Some y) xs ys"
  by (induction xs arbitrary: ys) (auto simp: bind_eq_Some_conv list_all2_Cons1)

lemma relative_to_same:
  assumes "relative_to l base = Some l'" "is_absolute base"
  shows "same_layers base l' l"
proof -
  have seen: "seen_from base r d" if "strip base d = Some r" for d r
    using strip_rejoins [OF that assms(2)] by (simp add: seen_from_def path_eq_def)
  from assms(1) show ?thesis
    by (auto simp: relative_to_def bind_eq_Some_conv map_opt_Some_iff strip_opt_def same_layers_def
        list_all2_conv_all_nth intro: seen split: option.splits)
qed

lemma mount_data_cases:
  assumes "mount_data l = Inr (data, base)"
  obtains "base = None" "options l = Inr data" "length data \<le> MAX_OPTION_BYTES"
  | b l' where "base = Some b" "options l' = Inr data" "length data \<le> MAX_OPTION_BYTES"
      "is_absolute b" "same_layers b l' l"
  using assms relative_to_same common_parent_absolute
  by (auto simp: mount_data_def result_simps split: if_splits)

abbreviation overlay_mount :: "string \<Rightarrow> string \<Rightarrow> sysop" where
  "overlay_mount target data \<equiv> Mnt (Mount (Some ''overlay'') target (Some ''overlay'') 0 (Some data))"

text \<open>
  C32: mounting an overlay makes exactly one mount call, whose option string fits the page the
  kernel reads. Either its paths are the layers themselves and the working directory is not
  touched, or they are relative to an absolute base from which they name the same directories, the
  working directory is that base during the call, and the return to the root directory follows
  whether the mount succeeds or not. If it fails before that, the mount call is not reached.
\<close>

theorem overlay_mount_trace:
  assumes "mount_at K target l h = (r, h')"
  shows "(\<exists>e. r = Inl e \<and> mount_data l = Inl e \<and> h' = h)
    \<or> (\<exists>data. options l = Inr data \<and> length data \<le> MAX_OPTION_BYTES \<and> h' = overlay_mount target data # h)
    \<or> (\<exists>b l' data. options l' = Inr data \<and> length data \<le> MAX_OPTION_BYTES
        \<and> is_absolute b \<and> same_layers b l' l
        \<and> (h' = Mnt (Chdir b) # h \<and> (\<exists>e. r = Inl e)
           \<or> h' = Mnt (Chdir ''/'') # overlay_mount target data # Mnt (Chdir b) # h))"
proof (cases "mount_data l")
  case (Inl e)
  with assms show ?thesis by (simp add: mount_at_def bind_p_def lift_res_def)
next
  case (Inr p)
  obtain data base where p: "mount_data l = Inr (data, base)" using Inr by (cases p) auto
  have run: "wp (mount_at K target l)
     (\<lambda>_ h'. base = None \<and> h' = overlay_mount target data # h
        \<or> (\<exists>b. base = Some b \<and> h' = Mnt (Chdir ''/'') # overlay_mount target data # Mnt (Chdir b) # h))
     (\<lambda>_ h'. base = None \<and> h' = overlay_mount target data # h
        \<or> (\<exists>b. base = Some b \<and> (h' = Mnt (Chdir b) # h
             \<or> h' = Mnt (Chdir ''/'') # overlay_mount target data # Mnt (Chdir b) # h))) h"
    unfolding mount_at_def wp_simps p by (auto simp: wp_simps split: option.splits)
  from p show ?thesis
  proof (cases rule: mount_data_cases)
    case 1
    with run assms show ?thesis by (cases r) (auto simp: wp_def)
  next
    case (2 b l')
    with run assms show ?thesis by (cases r) (auto simp: wp_def)
  qed
qed

definition lower_apart :: "outside \<Rightarrow> string \<Rightarrow> history \<Rightarrow> string \<Rightarrow> bool" where
  "lower_apart K u h dir \<longleftrightarrow> (\<exists>c. asked K h (Query (Canonicalize dir)) (\<lambda>r. r_err r = None \<and> r_text r = c)
     \<and> \<not> path_eq c u \<and> \<not> starts_with c u \<and> \<not> starts_with u c)"

lemma lower_layers_apart:
  "wp (each (check_lower K u) dirs)
     (\<lambda>_ h'. (\<exists>l. h' = l @ h) \<and> (\<forall>dir \<in> set dirs. lower_apart K u h' dir)) (\<lambda>_ _. True) h"
proof (rule wp_each_all [where I = "\<lambda>h'. \<exists>l. h' = l @ h"])
  show "wp (check_lower K u dir) (\<lambda>_ h''. (\<exists>l. h'' = l @ h) \<and> lower_apart K u h'' dir) (\<lambda>_ _. True) h1"
    if "\<exists>l. h1 = l @ h" for dir h1
    using that unfolding check_lower_def wp_simps
    by (auto split: option.splits simp: wp_simps lower_apart_def)
  show "wp (check_lower K u x) (\<lambda>_ h''. lower_apart K u h'' y) (\<lambda>_ _. True) h1"
    if "lower_apart K u h1 y" for x y h1
    using that unfolding check_lower_def wp_simps
    by (auto split: option.splits simp: wp_simps lower_apart_def)
qed simp

definition writable_checked :: "outside \<Rightarrow> layers \<Rightarrow> string \<Rightarrow> string \<Rightarrow> history \<Rightarrow> bool" where
  "writable_checked K l upper work h' \<longleftrightarrow> (\<exists>u w dev.
      asked K h' (Query (Canonicalize upper)) (\<lambda>r. r_err r = None \<and> r_text r = u)
    \<and> asked K h' (Query (Canonicalize work)) (\<lambda>r. r_err r = None \<and> r_text r = w)
    \<and> asked K h' (Query (StatDev u)) (\<lambda>r. r_err r = None \<and> r_num r = dev)
    \<and> asked K h' (Query (StatDev w)) (\<lambda>r. r_err r = None \<and> r_num r = dev)
    \<and> \<not> starts_with w u \<and> \<not> starts_with u w \<and> list_all (lower_apart K u h') (la_lower l))"

text \<open>
  When \<^verbatim>\<open>prepare\<close> accepts a writable overlay, the upper and the work directory were
  found on one device and neither lies inside the other, and no lower layer is the upper layer or
  above or below it; all of this of the directories' canonical paths.
\<close>

theorem prepare_accepts:
  assumes "prepare K l h = (Inr (), h')" "la_upper l = Some upper" "la_work l = Some work"
  shows "writable_checked K l upper work h'"
proof -
  have each: "wp (each (check_lower K u) (la_lower l)) Q (\<lambda>_ _. True) h0"
    if "\<And>h' l'. h' = l' @ h0 \<Longrightarrow> \<forall>dir \<in> set (la_lower l). lower_apart K u h' dir \<Longrightarrow> Q () h'" for Q u h0
    by (rule wp_mono [OF lower_layers_apart]) (use that in auto)
  have "wp (prepare_writable K l upper work) (\<lambda>_. writable_checked K l upper work) (\<lambda>_ _. True) h0" for h0
    unfolding prepare_writable_def check_same_filesystem_def wp_simps check_not_nested_def
    by (auto split: option.splits simp: wp_simps list_all_iff writable_checked_def intro!: each) 
       (fastforce intro: asked_append)
  then have "wp (prepare K l) (\<lambda>_. writable_checked K l upper work) (\<lambda>_ _. True) h"
    unfolding prepare_def wp_simps assms(2,3) option.case
    by (rule wp_mono [OF wp_true])
  with assms(1) show ?thesis by (simp add: wp_def)
qed

lemma prepare_accepts_witness:
  "\<exists>h'. prepare (granting (\<lambda>op r. case op of Query (Canonicalize p) \<Rightarrow> r\<lparr>r_text := p\<rparr> | _ \<Rightarrow> r))
       \<lparr>la_lower = [''/l''], la_upper = Some ''/u'', la_work = Some ''/w''\<rparr> [] = (Inr (), h')
     \<and> writable_checked (granting (\<lambda>op r. case op of Query (Canonicalize p) \<Rightarrow> r\<lparr>r_text := p\<rparr> | _ \<Rightarrow> r))
       \<lparr>la_lower = [''/l''], la_upper = Some ''/u'', la_work = Some ''/w''\<rparr> ''/u'' ''/w'' h'"
  (is "\<exists>h'. prepare ?K ?l [] = _ \<and> _")
proof -
  have "fst (prepare ?K ?l []) = Inr ()" by code_simp
  then obtain h' where "prepare ?K ?l [] = (Inr (), h')" by (cases "prepare ?K ?l []") auto
  with prepare_accepts [OF this] show ?thesis by simp
qed

lemma overlay_mount_trace_witness:
  "\<exists>r h' data. mount_at (granting (\<lambda>_ r. r)) ''/m'' \<lparr>la_lower = [''/l'', ''/k''], la_upper = None, la_work = None\<rparr> [] = (r, h')
     \<and> h' = [overlay_mount ''/m'' data] \<and> length data \<le> MAX_OPTION_BYTES"
  (is "\<exists>r h' data. mount_at ?K ?t ?l [] = _ \<and> _")
proof -
  have run: "mount_at ?K ?t ?l [] = (Inr (), [overlay_mount ''/m'' ''lowerdir=/l:/k''])" by code_simp
  have "length ''lowerdir=/l:/k'' \<le> MAX_OPTION_BYTES"
    using overlay_mount_trace [OF run] by auto
  with run show ?thesis by blast
qed

end
