(* ===== verification/Bundle.thy ===== *)
theory Bundle
  imports Overlay Validate
begin

text \<open>
  \<^verbatim>\<open>src/src/bundle/mod.rs\<close>: loading a bundle, the view of its specification the other
  components use, the search for the container's executable, and the conversion of argument lists
  for \<^verbatim>\<open>execve\<close>.
\<close>

definition DEFAULT_PATH :: string where
  "DEFAULT_PATH = ''/usr/local/sbin:/usr/local/bin:/usr/sbin:/usr/bin:/sbin:/bin''"

record oci_bundle =
  bu_dir :: string
  bu_spec :: spec

record mappings =
  mp_uid :: "id_mapping list"
  mp_gid :: "id_mapping list"

definition bundle_load :: "outside \<Rightarrow> string \<Rightarrow> oci_bundle prog" where
  "bundle_load K dir =
     bind_p (io K (IoErr ''resolve bundle'') (Query (Canonicalize dir)) r_text) (\<lambda>dir.
     let config = path_join dir ''config.json'' in
     bind_p (ask K (Query (IsFile config)) r_flag) (\<lambda>is_file.
     if \<not> is_file then fail (MissingConfig dir)
     else bind_p (io K (IoErr ''read config'') (Query (ReadFile config)) r_text) (\<lambda>text.
       bind_p (lift_res (ok_or (parse_spec K text) JsonErr)) (\<lambda>spec.
       seq_p (lift_res (validate_spec spec))
         (ret \<lparr>bu_dir = dir, bu_spec = spec\<rparr>)))))"

section \<open>The view of the specification\<close>

definition bu_linux :: "oci_bundle \<Rightarrow> (linux \<Rightarrow> 'a option) \<Rightarrow> 'a option" where
  "bu_linux b f = Option.bind (sp_linux (bu_spec b)) f"

definition bu_annotations :: "oci_bundle \<Rightarrow> str_map" where
  "bu_annotations b = flat (sp_annotations (bu_spec b))"

definition bu_overlay :: "oci_bundle \<Rightarrow> layers option res" where
  "bu_overlay b = from_annotations (bu_annotations b) (bu_dir b)"

definition bu_rootfs :: "oci_bundle \<Rightarrow> string res" where
  "bu_rootfs b = and_then (ok_or (sp_root (bu_spec b)) (SpecField ''root'')) (\<lambda>root.
     Inr (if is_absolute (ro_path root) then ro_path root else path_join (bu_dir b) (ro_path root)))"

definition bu_namespaces :: "oci_bundle \<Rightarrow> linux_namespace list" where
  "bu_namespaces b = flat (bu_linux b li_namespaces)"

definition bu_mounts :: "oci_bundle \<Rightarrow> mount_spec list" where
  "bu_mounts b = flat (sp_mounts (bu_spec b))"

definition bu_devices :: "oci_bundle \<Rightarrow> device list" where
  "bu_devices b = flat (bu_linux b li_devices)"

definition bu_resources :: "oci_bundle \<Rightarrow> resources option" where
  "bu_resources b = bu_linux b li_resources"

definition bu_cgroups_path :: "oci_bundle \<Rightarrow> string option" where
  "bu_cgroups_path b = bu_linux b li_cgroups_path"

definition bu_hooks :: "oci_bundle \<Rightarrow> hooks option" where
  "bu_hooks b = sp_hooks (bu_spec b)"

definition bu_terminal :: "oci_bundle \<Rightarrow> bool" where
  "bu_terminal b = get_or False (Option.bind (sp_process (bu_spec b)) pr_terminal)"

definition readonly_rootfs :: "oci_bundle \<Rightarrow> bool" where
  "readonly_rootfs b = get_or False (Option.bind (sp_root (bu_spec b)) ro_readonly)"

definition bu_masked_paths :: "oci_bundle \<Rightarrow> string list" where
  "bu_masked_paths b = flat (bu_linux b li_masked_paths)"

definition bu_readonly_paths :: "oci_bundle \<Rightarrow> string list" where
  "bu_readonly_paths b = flat (bu_linux b li_readonly_paths)"

definition bu_seccomp :: "oci_bundle \<Rightarrow> seccomp option" where
  "bu_seccomp b = bu_linux b li_seccomp"

definition bu_id_mappings :: "oci_bundle \<Rightarrow> mappings" where
  "bu_id_mappings b = \<lparr>mp_uid = flat (bu_linux b li_uid_mappings), mp_gid = flat (bu_linux b li_gid_mappings)\<rparr>"

definition bu_process :: "oci_bundle \<Rightarrow> process option" where
  "bu_process b = sp_process (bu_spec b)"

definition bu_time_offsets :: "oci_bundle \<Rightarrow> (string \<times> time_offset) list" where
  "bu_time_offsets b = flat (bu_linux b li_time_offsets)"

definition bu_sysctl :: "oci_bundle \<Rightarrow> str_map" where
  "bu_sysctl b = flat (bu_linux b li_sysctl)"

definition bu_rootfs_propagation :: "oci_bundle \<Rightarrow> string option" where
  "bu_rootfs_propagation b = bu_linux b li_rootfs_propagation"

definition bu_domainname :: "oci_bundle \<Rightarrow> string option" where
  "bu_domainname b = sp_domainname (bu_spec b)"

definition bu_hostname :: "oci_bundle \<Rightarrow> string option" where
  "bu_hostname b = sp_hostname (bu_spec b)"

definition bu_cwd :: "oci_bundle \<Rightarrow> string option" where
  "bu_cwd b = map_option pr_cwd (sp_process (bu_spec b))"

definition bu_env :: "oci_bundle \<Rightarrow> string list" where
  "bu_env b = flat (Option.bind (sp_process (bu_spec b)) pr_env)"

definition bu_argv :: "oci_bundle \<Rightarrow> string list res" where
  "bu_argv b = and_then (ok_or (sp_process (bu_spec b)) (SpecField ''process'')) (\<lambda>process.
     let args = flat (pr_args process) in
     if args = [] then Inl (SpecField ''process.args'') else Inr args)"

section \<open>The executable\<close>

fun find_in :: "outside \<Rightarrow> string \<Rightarrow> string list \<Rightarrow> string prog" where
  "find_in K program [] = fail (ExecutableNotFound program)"
| "find_in K program (dir # dirs) =
     (let candidate = path_join dir program in
      bind_p (ask K (Query (IsFile candidate)) r_flag) (\<lambda>is_file.
      if is_file then ret candidate else find_in K program dirs))"

fun find_path_entry :: "string list \<Rightarrow> string option" where
  "find_path_entry [] = None"
| "find_path_entry (entry # env) =
     (case strip_prefix ''PATH='' entry of Some v \<Rightarrow> Some v | None \<Rightarrow> find_path_entry env)"

definition search_dirs :: "string list \<Rightarrow> string list" where
  "search_dirs env = filter (\<lambda>dir. dir \<noteq> []) (split_on (CHR '':'') (get_or DEFAULT_PATH (find_path_entry env)))"

definition resolve_executable :: "outside \<Rightarrow> string \<Rightarrow> string list \<Rightarrow> bool \<Rightarrow> string prog" where
  "resolve_executable K program env own_rootfs =
     (if slash \<in> set program then
        (if own_rootfs then
           bind_p (ask K (Query (IsFile program)) r_flag) (\<lambda>is_file.
           if \<not> is_file then fail (ExecutableNotFound program) else ret program)
         else ret program)
      else find_in K program (search_dirs env))"

definition to_cstrings :: "string list \<Rightarrow> string list res" where
  "to_cstrings = map_res (\<lambda>v. if CHR 0x00 \<in> set v then Inl (NulByte v) else Inr v)"

section \<open>Properties\<close>

lemma bundle_load_checked:
  assumes "bundle_load K dir h = (Inr b, h')"
  shows "wf_spec (bu_spec b)
    \<and> (\<exists>text. asked K h' (Query (ReadFile (path_join (bu_dir b) ''config.json'')))
          (\<lambda>r. r_err r = None \<and> r_text r = text) \<and> parse_spec K text = Some (bu_spec b))"
proof -
  have "wp (bundle_load K dir) (\<lambda>b h'. wf_spec (bu_spec b)
    \<and> (\<exists>text. asked K h' (Query (ReadFile (path_join (bu_dir b) ''config.json'')))
          (\<lambda>r. r_err r = None \<and> r_text r = text) \<and> parse_spec K text = Some (bu_spec b))) (\<lambda>_ _. True) h"
    unfolding bundle_load_def Let_def wp_simps
    by (auto split: option.splits sum.splits simp: wp_simps validate_spec_wf [symmetric] result_simps ok_or_def)
  then show ?thesis using assms by (simp add: wp_def)
qed

text \<open>
  What the components may rely on when they ask a loaded bundle, in terms of the accessors they use.
\<close>

definition usable :: "oci_bundle \<Rightarrow> bool" where
  "usable b \<longleftrightarrow>
     (\<exists>root. bu_rootfs b = Inr root \<and> root \<noteq> [])
     \<and> (\<forall>p. bu_process b = Some p \<longrightarrow>
          (\<exists>arg0 rest. bu_argv b = Inr (arg0 # rest) \<and> arg0 \<noteq> [])
          \<and> (\<exists>cwd. bu_cwd b = Some cwd \<and> is_absolute cwd)
          \<and> (\<forall>entry \<in> set (bu_env b). CHR ''='' \<in> set entry))
     \<and> distinct (map ns_typ (bu_namespaces b))
     \<and> (bu_hostname b \<noteq> None \<or> bu_domainname b \<noteq> None \<longrightarrow> NsUts \<in> ns_typ ` set (bu_namespaces b))
     \<and> (\<forall>m \<in> set (bu_mounts b). is_absolute (mt_destination m))
     \<and> (\<forall>p \<in> set (bu_masked_paths b) \<union> set (bu_readonly_paths b). is_absolute p)
     \<and> (\<forall>p. bu_rootfs_propagation b = Some p \<longrightarrow> p \<in> set PROPAGATIONS)"

lemma path_join_nonempty: "q \<noteq> [] \<Longrightarrow> path_join p q \<noteq> []"
  by (auto simp: path_join_def split: if_splits)

lemma wf_spec_usable:
  assumes "wf_spec (bu_spec b)"
  shows "usable b"
proof -
  obtain r l where r: "sp_root (bu_spec b) = Some r" "ro_path r \<noteq> []" and l: "sp_linux (bu_spec b) = Some l" "wf_linux l"
    using assms by (auto simp: wf_spec_def)
  have root: "\<exists>root. bu_rootfs b = Inr root \<and> root \<noteq> []"
    using r by (auto simp: bu_rootfs_def ok_or_def and_then_def path_join_nonempty)
  have process: "(\<exists>arg0 rest. bu_argv b = Inr (arg0 # rest) \<and> arg0 \<noteq> [])
      \<and> (\<exists>cwd. bu_cwd b = Some cwd \<and> is_absolute cwd) \<and> (\<forall>entry \<in> set (bu_env b). CHR ''='' \<in> set entry)"
    if "bu_process b = Some p" for p
    using assms that
    by (auto simp: wf_spec_def wf_process_def bu_process_def bu_argv_def bu_cwd_def bu_env_def ok_or_def and_then_def)
  show ?thesis
    using assms l root process unfolding usable_def
    by (auto simp: wf_spec_def wf_linux_def bu_linux_def bu_namespaces_def spec_namespaces_def bu_hostname_def
        bu_domainname_def bu_mounts_def bu_masked_paths_def bu_readonly_paths_def bu_rootfs_propagation_def)
qed


text \<open>A small valid specification, for the witnesses of this and later theories.\<close>

definition plain_process :: process where
  "plain_process = \<lparr>pr_terminal = None, pr_user = \<lparr>us_uid = 0, us_gid = 0, us_umask = None, us_additional_gids = None\<rparr>,
     pr_args = Some [''sh''], pr_env = Some [''PATH=/bin''], pr_cwd = ''/'', pr_capabilities = None,
     pr_rlimits = None, pr_no_new_privileges = None, pr_oom_score_adj = None\<rparr>"

definition plain_linux :: linux where
  "plain_linux = \<lparr>li_namespaces = None, li_uid_mappings = None, li_gid_mappings = None, li_devices = None,
     li_resources = None, li_cgroups_path = None, li_seccomp = None, li_masked_paths = None,
     li_readonly_paths = None, li_time_offsets = None, li_sysctl = None, li_rootfs_propagation = None\<rparr>"

definition plain_spec :: spec where
  "plain_spec = \<lparr>sp_version = ''1.0.2'', sp_root = Some \<lparr>ro_path = ''rootfs'', ro_readonly = None\<rparr>,
     sp_process = Some plain_process, sp_hostname = None, sp_domainname = None, sp_mounts = None,
     sp_hooks = None, sp_annotations = None, sp_linux = Some plain_linux,
     sp_solaris = False, sp_windows = False, sp_vm = False, sp_zos = False\<rparr>"


text \<open>
  The calls from \<open>h\<close> to \<open>h'\<close> ask for the program in one directory after the other,
  and the last one asked, whose path is the result, is the first with the answer that it is a file.
\<close>

definition first_hit :: "outside \<Rightarrow> string \<Rightarrow> string list \<Rightarrow> string \<Rightarrow> history \<Rightarrow> history \<Rightarrow> bool" where
  "first_hit K program dirs path h h' \<longleftrightarrow> (\<exists>before dir after. dirs = before @ dir # after \<and> path = path_join dir program
    \<and> h' = Query (IsFile path) # rev (map (\<lambda>d. Query (IsFile (path_join d program))) before) @ h
    \<and> asked K h' (Query (IsFile path)) r_flag)"

lemma first_hit_head:
  assumes "r_flag (answer K h (Query (IsFile (path_join dir program))))"
  shows "first_hit K program (dir # dirs) (path_join dir program) h (Query (IsFile (path_join dir program)) # h)"
  unfolding first_hit_def by (rule exI [of _ "[]"]) (simp add: assms)

lemma first_hit_later:
  assumes "first_hit K program dirs path (Query (IsFile (path_join dir program)) # h) h'"
  shows "first_hit K program (dir # dirs) path h h'"
proof -
  obtain before d after where step: "dirs = before @ d # after" "path = path_join d program"
      "h' = Query (IsFile path) # rev (map (\<lambda>d. Query (IsFile (path_join d program))) before)
         @ Query (IsFile (path_join dir program)) # h" "asked K h' (Query (IsFile path)) r_flag"
    using assms unfolding first_hit_def by blast
  then show ?thesis
    unfolding first_hit_def
    by (intro exI [of _ "dir # before"] exI [of _ d] exI [of _ after] conjI) simp_all
qed

lemma find_in_trace:
  "find_in K program dirs h = (Inr path, h') \<Longrightarrow> first_hit K program dirs path h h'"
proof (induction dirs arbitrary: h)
  case (Cons dir dirs)
  then show ?case
    by (cases "r_flag (answer K h (Query (IsFile (path_join dir program))))")
      (auto simp: bind_p_def ask_def call_def ret_def Let_def first_hit_head first_hit_later)
qed (simp add: fail_def)

text \<open>
  A program named without a separator resolves to the first directory of the search path that
  holds a file of that name: the directories before it were asked first, in order, and the answer
  for the chosen one was that it is a file. The search path is that of the container's own
  environment.
\<close>

theorem executable_is_first_in_path:
  assumes "resolve_executable K program env own h = (Inr path, h')" "slash \<notin> set program"
  shows "first_hit K program (search_dirs env) path h h'"
  using assms find_in_trace by (simp add: resolve_executable_def)

lemma executable_is_first_in_path_witness:
  "first_hit (granting (\<lambda>op r. r\<lparr>r_flag := (op = Query (IsFile ''/sbin/init''))\<rparr>)) ''init''
     (search_dirs [''HOME=/'', ''PATH=/bin:/sbin'']) ''/sbin/init'' []
     [Query (IsFile ''/sbin/init''), Query (IsFile ''/bin/init'')]"
  by (rule executable_is_first_in_path [where own = True]) code_simp+

end
