(* ===== verification/Mounts.thy ===== *)
theory Mounts
  imports Kernel
begin

text \<open>
  \<^verbatim>\<open>src/src/rootfs/mounts.rs\<close>: mount options as flag words and data, the resolution of a
  mount destination inside the root file system, and the mounts of a specification. The flag values
  are those of \<^verbatim>\<open>mount(2)\<close>, which \<^verbatim>\<open>MsFlags\<close> names.
\<close>

definition MS_RDONLY :: mount_flags where "MS_RDONLY = 1"
definition MS_NOSUID :: mount_flags where "MS_NOSUID = 2"
definition MS_NODEV :: mount_flags where "MS_NODEV = 4"
definition MS_NOEXEC :: mount_flags where "MS_NOEXEC = 8"
definition MS_SYNCHRONOUS :: mount_flags where "MS_SYNCHRONOUS = 16"
definition MS_REMOUNT :: mount_flags where "MS_REMOUNT = 32"
definition MS_MANDLOCK :: mount_flags where "MS_MANDLOCK = 64"
definition MS_DIRSYNC :: mount_flags where "MS_DIRSYNC = 128"
definition MS_NOATIME :: mount_flags where "MS_NOATIME = 0x400"
definition MS_NODIRATIME :: mount_flags where "MS_NODIRATIME = 0x800"
definition MS_BIND :: mount_flags where "MS_BIND = 0x1000"
definition MS_REC :: mount_flags where "MS_REC = 0x4000"
definition MS_UNBINDABLE :: mount_flags where "MS_UNBINDABLE = 0x20000"
definition MS_PRIVATE :: mount_flags where "MS_PRIVATE = 0x40000"
definition MS_SLAVE :: mount_flags where "MS_SLAVE = 0x80000"
definition MS_SHARED :: mount_flags where "MS_SHARED = 0x100000"
definition MS_RELATIME :: mount_flags where "MS_RELATIME = 0x200000"
definition MS_STRICTATIME :: mount_flags where "MS_STRICTATIME = 0x1000000"

lemmas ms_defs = MS_RDONLY_def MS_NOSUID_def MS_NODEV_def MS_NOEXEC_def MS_SYNCHRONOUS_def
  MS_REMOUNT_def MS_MANDLOCK_def MS_DIRSYNC_def MS_NOATIME_def MS_NODIRATIME_def MS_BIND_def
  MS_REC_def MS_UNBINDABLE_def MS_PRIVATE_def MS_SLAVE_def MS_SHARED_def MS_RELATIME_def
  MS_STRICTATIME_def

section \<open>Options\<close>

text \<open>One arm of the \<^verbatim>\<open>match\<close> in \<^verbatim>\<open>parse_options\<close>: what an option does to the flags.\<close>

datatype flag_effect = Keep | SetBits mount_flags | ClearBits mount_flags

definition OPTION_ARMS :: "(string \<times> flag_effect) list" where
  "OPTION_ARMS =
    [(''defaults'', Keep),
     (''ro'', SetBits MS_RDONLY), (''rw'', ClearBits MS_RDONLY),
     (''suid'', ClearBits MS_NOSUID), (''nosuid'', SetBits MS_NOSUID),
     (''dev'', ClearBits MS_NODEV), (''nodev'', SetBits MS_NODEV),
     (''exec'', ClearBits MS_NOEXEC), (''noexec'', SetBits MS_NOEXEC),
     (''sync'', SetBits MS_SYNCHRONOUS), (''async'', ClearBits MS_SYNCHRONOUS),
     (''dirsync'', SetBits MS_DIRSYNC), (''remount'', SetBits MS_REMOUNT),
     (''mand'', SetBits MS_MANDLOCK), (''nomand'', ClearBits MS_MANDLOCK),
     (''atime'', ClearBits MS_NOATIME), (''noatime'', SetBits MS_NOATIME),
     (''diratime'', ClearBits MS_NODIRATIME), (''nodiratime'', SetBits MS_NODIRATIME),
     (''relatime'', SetBits MS_RELATIME), (''norelatime'', ClearBits MS_RELATIME),
     (''strictatime'', SetBits MS_STRICTATIME), (''nostrictatime'', ClearBits MS_STRICTATIME),
     (''bind'', SetBits MS_BIND), (''rbind'', SetBits (or MS_BIND MS_REC)),
     (''unbindable'', SetBits MS_UNBINDABLE), (''runbindable'', SetBits (or MS_UNBINDABLE MS_REC)),
     (''private'', SetBits MS_PRIVATE), (''rprivate'', SetBits (or MS_PRIVATE MS_REC)),
     (''shared'', SetBits MS_SHARED), (''rshared'', SetBits (or MS_SHARED MS_REC)),
     (''slave'', SetBits MS_SLAVE), (''rslave'', SetBits (or MS_SLAVE MS_REC))]"

definition option_arm :: "string \<Rightarrow> flag_effect option" where
  "option_arm = map_of OPTION_ARMS"

fun apply_effect :: "flag_effect \<Rightarrow> mount_flags \<Rightarrow> mount_flags" where
  "apply_effect Keep flags = flags"
| "apply_effect (SetBits f) flags = or flags f"
| "apply_effect (ClearBits f) flags = and flags (not f)"

record mount_options =
  op_flags :: mount_flags
  op_data :: string

text \<open>The loop over the options; unknown ones are collected as data, in order.\<close>

fun scan_options :: "mount_flags \<Rightarrow> string list \<Rightarrow> string list \<Rightarrow> mount_flags \<times> string list" where
  "scan_options flags data [] = (flags, data)"
| "scan_options flags data (opt # opts) =
     (case option_arm opt of
        Some e \<Rightarrow> scan_options (apply_effect e flags) data opts
      | None \<Rightarrow> scan_options flags (data @ [opt]) opts)"

definition parse_options :: "string list \<Rightarrow> mount_options" where
  "parse_options opts = (case scan_options 0 [] opts of
     (flags, data) \<Rightarrow> \<lparr>op_flags = flags, op_data = join_with '','' data\<rparr>)"

section \<open>Destinations\<close>

fun resolve_comps :: "string \<Rightarrow> string \<Rightarrow> comp list \<Rightarrow> string" where
  "resolve_comps rootfs out [] = out"
| "resolve_comps rootfs out (Normal part # cs) = resolve_comps rootfs (path_join out part) cs"
| "resolve_comps rootfs out (ParentDir # cs) =
     resolve_comps rootfs (if \<not> path_eq out rootfs then path_pop out else out) cs"
| "resolve_comps rootfs out (_ # cs) = resolve_comps rootfs out cs"

definition resolve :: "string \<Rightarrow> string \<Rightarrow> string" where
  "resolve rootfs destination = resolve_comps rootfs rootfs (components destination)"

definition unified_cgroup_host :: "outside \<Rightarrow> bool prog" where
  "unified_cgroup_host K = ask K (Query (StatFs ''/sys/fs/cgroup''))
     (\<lambda>r. r_err r = None \<and> r_num r = 0x63677270)"

definition effective_fstype :: "string \<Rightarrow> bool \<Rightarrow> string" where
  "effective_fstype requested unified_host =
     (if requested = ''cgroup'' \<and> unified_host then ''cgroup2'' else requested)"

section \<open>The mounts\<close>

definition link_ptmx :: "outside \<Rightarrow> string \<Rightarrow> unit prog" where
  "link_ptmx K rootfs =
     (let ptmx = path_join rootfs ''dev/ptmx'' in
      bind_p (ask K (Query (LinkMeta ptmx)) (\<lambda>r. r_err r = None)) (\<lambda>present.
      seq_p (when_p present (do_op K (IoErr ''remove ptmx'') (Fs (RmFile ptmx))))
        (do_op K (IoErr ''symlink pts/ptmx'') (Fs (Symlink ''pts/ptmx'' ptmx)))))"

definition make_target :: "outside \<Rightarrow> bool \<Rightarrow> string \<Rightarrow> string \<Rightarrow> unit prog" where
  "make_target K bind source destination =
     bind_p (if bind then ask K (Query (IsFile source)) r_flag else ret False) (\<lambda>onto_file.
     if onto_file then
       seq_p (given (path_parent destination)
           (\<lambda>parent. do_op K (IoErr ''create parent'') (Fs (MkDirAll parent))))
       (bind_p (ask K (Query (Exists destination)) r_flag) (\<lambda>present.
        when_p (\<not> present) (do_op K (IoErr ''create destination'') (Fs (CreateFile destination)))))
     else do_op K (IoErr ''create destination'') (Fs (MkDirAll destination)))"

definition apply_one :: "outside \<Rightarrow> string \<Rightarrow> mount_spec \<Rightarrow> bool \<Rightarrow> unit prog" where
  "apply_one K rootfs m unified_host =
     (let destination = resolve rootfs (mt_destination m);
          fstype = effective_fstype (get_or ''none'' (mt_typ m)) unified_host;
          source = get_or ''none'' (mt_source m);
          opts = parse_options (flat (mt_options m));
          data = (if op_data opts = [] then None else Some (op_data opts)) in
      seq_p (make_target K (flags_contain (op_flags opts) MS_BIND) source destination)
      (seq_p (do_op K (NixErr ''mount'')
          (Mnt (Mount (Some source) destination (Some fstype) (op_flags opts) data)))
        (when_p (fstype = ''devpts'') (link_ptmx K rootfs))))"

definition apply_mounts :: "outside \<Rightarrow> string \<Rightarrow> mount_spec list \<Rightarrow> unit prog" where
  "apply_mounts K rootfs mounts =
     bind_p (unified_cgroup_host K) (\<lambda>unified. each (\<lambda>m. apply_one K rootfs m unified) mounts)"

section \<open>The last option wins\<close>

definition sets_bit :: "nat \<Rightarrow> string \<Rightarrow> bool" where
  "sets_bit n opt = (case option_arm opt of Some (SetBits f) \<Rightarrow> bit f n | _ \<Rightarrow> False)"

definition clears_bit :: "nat \<Rightarrow> string \<Rightarrow> bool" where
  "clears_bit n opt = (case option_arm opt of Some (ClearBits f) \<Rightarrow> bit f n | _ \<Rightarrow> False)"

lemma scan_options_snoc:
  "scan_options flags data (opts @ [opt]) =
     (case scan_options flags data opts of (flags', data') \<Rightarrow>
        (case option_arm opt of
           Some e \<Rightarrow> (apply_effect e flags', data') | None \<Rightarrow> (flags', data' @ [opt])))"
  by (induction flags data opts rule: scan_options.induct) (auto split: option.splits)

lemma bit_apply_effect:
  assumes "option_arm opt = Some e" "n < 64"
  shows "bit (apply_effect e flags) n \<longleftrightarrow> (sets_bit n opt \<or> bit flags n \<and> \<not> clears_bit n opt)"
  using assms
  by (cases e) (auto simp: sets_bit_def clears_bit_def bit_or_iff bit_and_iff bit_not_iff)

lemma bit_scan_snoc:
  assumes "n < 64"
  shows "bit (fst (scan_options 0 [] (opts @ [opt]))) n \<longleftrightarrow>
     (sets_bit n opt \<or> bit (fst (scan_options 0 [] opts)) n \<and> \<not> clears_bit n opt)"
proof (cases "option_arm opt")
  case None
  then show ?thesis by (simp add: scan_options_snoc sets_bit_def clears_bit_def split: prod.splits)
next
  case (Some e)
  then show ?thesis
    using bit_apply_effect [OF Some assms] by (simp add: scan_options_snoc split: prod.splits)
qed

definition set_last :: "nat \<Rightarrow> string list \<Rightarrow> bool" where
  "set_last n opts \<longleftrightarrow> (\<exists>before opt after. opts = before @ opt # after \<and> sets_bit n opt
       \<and> list_all (\<lambda>later. \<not> clears_bit n later) after)"

lemma set_last_snoc:
  "set_last n (opts @ [opt]) \<longleftrightarrow> sets_bit n opt \<or> set_last n opts \<and> \<not> clears_bit n opt"
proof
  assume "set_last n (opts @ [opt])"
  then obtain before o' after where split: "opts @ [opt] = before @ o' # after" "sets_bit n o'"
    "list_all (\<lambda>later. \<not> clears_bit n later) after"
    unfolding set_last_def by blast
  then show "sets_bit n opt \<or> set_last n opts \<and> \<not> clears_bit n opt"
    by (cases after rule: rev_cases) (auto simp: set_last_def)
next
  assume "sets_bit n opt \<or> set_last n opts \<and> \<not> clears_bit n opt"
  then show "set_last n (opts @ [opt])"
  proof
    assume "set_last n opts \<and> \<not> clears_bit n opt"
    then obtain before o' after where split: "opts = before @ o' # after" "sets_bit n o'"
      "list_all (\<lambda>later. \<not> clears_bit n later) after" "\<not> clears_bit n opt"
      unfolding set_last_def by blast
    then show ?thesis
      unfolding set_last_def
      by (intro exI [of _ before] exI [of _ o'] exI [of _ "after @ [opt]"]) simp
  next
    assume "sets_bit n opt"
    then show ?thesis
      unfolding set_last_def by (intro exI [of _ opts] exI [of _ opt] exI [of _ "[]"]) simp
  qed
qed

text \<open>
  Among contradictory mount options the last one decides. A flag bit is set after parsing
  exactly when some option sets it and no later option clears it.
\<close>

theorem last_option_wins:
  assumes "n < 64"
  shows "bit (op_flags (parse_options opts)) n \<longleftrightarrow>
    (\<exists>before opt after. opts = before @ opt # after \<and> sets_bit n opt
       \<and> list_all (\<lambda>later. \<not> clears_bit n later) after)"
proof -
  have "bit (fst (scan_options 0 [] opts)) n \<longleftrightarrow> set_last n opts"
    by (induction opts rule: rev_induct) (simp add: set_last_def, simp add: set_last_snoc bit_scan_snoc assms)
  then show ?thesis
    unfolding set_last_def parse_options_def by (cases "scan_options 0 [] opts") simp
qed

lemma last_option_wins_witness:
  "bit (op_flags (parse_options [''rw'', ''nosuid'', ''ro''])) 0"
proof -
  have "sets_bit 0 ''ro''" by code_simp
  then show ?thesis
    by (intro iffD2 [OF last_option_wins] exI [of _ "[''rw'', ''nosuid'']"] exI [of _ "''ro''"]
        exI [of _ "[]"]) simp_all
qed

section \<open>Destinations stay inside\<close>

lemma below_resolve_comps:
  "below rootfs out \<Longrightarrow> (\<forall>p. Normal p \<in> set cs \<longrightarrow> normal_name p) \<Longrightarrow> below rootfs (resolve_comps rootfs out cs)"
  by (induction rootfs out cs rule: resolve_comps.induct) (auto simp: below_pop)

lemma below_resolve [simp]: "below rootfs (resolve rootfs destination)"
  unfolding resolve_def by (rule below_resolve_comps) (auto intro: components_normal)

text \<open>The changes the mounts may make: inside the root file system, or creating its own parent.\<close>

definition parent_of :: "string \<Rightarrow> string \<Rightarrow> bool" where
  "parent_of rootfs p \<longleftrightarrow> components p = butlast (components rootfs)"

fun mount_call :: "string \<Rightarrow> sysop \<Rightarrow> bool" where
  "mount_call rootfs (Query _) = True"
| "mount_call rootfs (Fs (MkDirAll d)) = (below rootfs d \<or> parent_of rootfs d)"
| "mount_call rootfs (Fs (CreateFile f)) = below rootfs f"
| "mount_call rootfs (Fs (RmFile f)) = below rootfs f"
| "mount_call rootfs (Fs (Symlink _ f)) = below rootfs f"
| "mount_call rootfs (Mnt (Mount _ target _ _ _)) = below rootfs target"
| "mount_call rootfs _ = False"

lemma below_dev_path:
  "rootfs \<noteq> [] \<Longrightarrow> \<forall>c \<in> set (components q). is_normal c \<Longrightarrow> below rootfs (path_join rootfs q)"
  by (rule below_join_path) simp_all

lemma dev_ptmx_normal: "\<forall>c \<in> set (components ''dev/ptmx''). is_normal c"
  by code_simp

lemma parent_of_below:
  assumes "below rootfs p" "path_parent p = Some q"
  shows "below rootfs q \<or> parent_of rootfs q"
  using below_parent [OF assms] components_parent [OF assms(2)]
  by (cases "path_eq p rootfs") (auto simp: parent_of_def path_eq_def)

lemma make_target_calls:
  "below rootfs destination \<Longrightarrow> emits (mount_call rootfs) (make_target K b source destination)"
  unfolding make_target_def
  by (intro emits_intros) (auto dest: parent_of_below)



end
