(* ===== verification/Devices.thy ===== *)
theory Devices
  imports Mounts
begin

text \<open>
  \<^verbatim>\<open>src/src/rootfs/devices.rs\<close>: the device nodes every container gets, the standard
  symbolic links, and the devices of the specification; in a user namespace, and when the kernel
  refuses \<^verbatim>\<open>mknod\<close>, a node is a bind mount of the host's. A file mode is the number the
  kernel call receives.
\<close>

record default_device =
  dd_path :: string
  dd_major :: nat
  dd_minor :: nat
  dd_mode :: nat

text \<open>\<^verbatim>\<open>0o666\<close> is 438.\<close>

definition DEFAULT_DEVICES :: "default_device list" where
  "DEFAULT_DEVICES =
    [\<lparr>dd_path = ''dev/null'', dd_major = 1, dd_minor = 3, dd_mode = 438\<rparr>,
     \<lparr>dd_path = ''dev/zero'', dd_major = 1, dd_minor = 5, dd_mode = 438\<rparr>,
     \<lparr>dd_path = ''dev/full'', dd_major = 1, dd_minor = 7, dd_mode = 438\<rparr>,
     \<lparr>dd_path = ''dev/tty'', dd_major = 5, dd_minor = 0, dd_mode = 438\<rparr>,
     \<lparr>dd_path = ''dev/random'', dd_major = 1, dd_minor = 8, dd_mode = 438\<rparr>,
     \<lparr>dd_path = ''dev/urandom'', dd_major = 1, dd_minor = 9, dd_mode = 438\<rparr>]"

definition SYMLINKS :: "(string \<times> string) list" where
  "SYMLINKS = [(''/proc/self/fd'', ''dev/fd''), (''/proc/self/fd/0'', ''dev/stdin''),
     (''/proc/self/fd/1'', ''dev/stdout''), (''/proc/self/fd/2'', ''dev/stderr'')]"

fun sflag_for :: "device_type \<Rightarrow> node_kind" where
  "sflag_for DevBlock = NodeBlock"
| "sflag_for DevPipe = NodeFifo"
| "sflag_for _ = NodeChar"

definition bind_node :: "outside \<Rightarrow> string \<Rightarrow> string \<Rightarrow> unit prog" where
  "bind_node K target host =
     bind_p (ask K (Query (Exists host)) r_flag) (\<lambda>on_host.
     if \<not> on_host then fail (Invalid ''cannot provide a device because the host has none'')
     else seq_p
       (bind_p (ask K (Query (Exists target)) r_flag) (\<lambda>present.
        when_p (\<not> present) (do_op K (IoErr ''create as a bind target'') (Fs (CreateFile target)))))
       (do_op K (NixErr ''bind the host device'') (Mnt (Mount (Some host) target None MS_BIND None))))"

definition node ::
    "outside \<Rightarrow> string \<Rightarrow> string \<Rightarrow> node_kind \<Rightarrow> nat \<Rightarrow> nat \<Rightarrow> nat \<Rightarrow> bool \<Rightarrow> unit prog" where
  "node K target host kind mode major minor user_namespace =
     bind_p (ask K (Query (LinkMeta target)) (\<lambda>r. r_err r = None)) (\<lambda>present.
     if present then ret ()
     else seq_p (given (path_parent target)
         (\<lambda>parent. do_op K (IoErr ''create parent'') (Fs (MkDirAll parent))))
       (if user_namespace then bind_node K target host
        else bind_p (call K (Fs (MkNod target kind (mode mod 4096) major minor))) (\<lambda>r.
          case r_err r of
            None \<Rightarrow> do_op K (IoErr ''chmod'') (Fs (Chmod target mode))
          | Some e \<Rightarrow> if e = EPERM \<or> e = EOVERFLOW then bind_node K target host
                      else fail (NixErr ''mknod'' e))))"

definition default_node :: "outside \<Rightarrow> string \<Rightarrow> bool \<Rightarrow> default_device \<Rightarrow> unit prog" where
  "default_node K rootfs user_namespace d =
     node K (path_join rootfs (dd_path d)) (path_join ''/'' (dd_path d)) NodeChar
       (dd_mode d) (dd_major d) (dd_minor d) user_namespace"

definition make_link :: "outside \<Rightarrow> string \<Rightarrow> string \<times> string \<Rightarrow> unit prog" where
  "make_link K rootfs = (\<lambda>(source, link).
     let target = path_join rootfs link in
     bind_p (ask K (Query (LinkMeta target)) (\<lambda>r. r_err r = None)) (\<lambda>present.
     when_p (\<not> present) (do_op K (IoErr ''symlink'') (Fs (Symlink source target)))))"

text \<open>\<^verbatim>\<open>device.major() as u64\<close> keeps the bits of the 64-bit number.\<close>

definition as_u64 :: "int \<Rightarrow> nat" where
  "as_u64 i = nat (i mod 2 ^ 64)"

definition extra_node :: "outside \<Rightarrow> string \<Rightarrow> bool \<Rightarrow> device \<Rightarrow> unit prog" where
  "extra_node K rootfs user_namespace d =
     (let target = resolve rootfs (de_path d) in
      seq_p (node K target (de_path d) (sflag_for (de_typ d)) (get_or 438 (de_file_mode d))
          (as_u64 (de_major d)) (as_u64 (de_minor d)) user_namespace)
        (when_p (de_uid d \<noteq> None \<or> de_gid d \<noteq> None)
          (do_op K (NixErr ''chown'') (Fs (Chown target (de_uid d) (de_gid d))))))"

definition create_devices :: "outside \<Rightarrow> string \<Rightarrow> device list \<Rightarrow> bool \<Rightarrow> unit prog" where
  "create_devices K rootfs extra user_namespace =
     seq_p (each (default_node K rootfs user_namespace) DEFAULT_DEVICES)
     (seq_p (each (make_link K rootfs) SYMLINKS)
     (each (extra_node K rootfs user_namespace) extra))"

section \<open>Where and how nodes are made\<close>

text \<open>What creating the devices may call, in a user namespace or not.\<close>

fun device_call :: "string \<Rightarrow> bool \<Rightarrow> sysop \<Rightarrow> bool" where
  "device_call rootfs userns (Fs (MkNod p _ _ _ _)) = (\<not> userns \<and> below rootfs p)"
| "device_call rootfs userns (Fs (Chmod p _)) = (\<not> userns \<and> below rootfs p)"
| "device_call rootfs userns (Fs (Chown p _ _)) = below rootfs p"
| "device_call rootfs userns op = mount_call rootfs op"

lemma bind_node_calls:
  "below rootfs target \<Longrightarrow> emits (device_call rootfs u) (bind_node K target host)"
  unfolding bind_node_def by (intro emits_intros) auto

lemma node_calls:
  "below rootfs target \<Longrightarrow> emits (device_call rootfs u) (node K target host kind mode major minor u)"
  unfolding node_def
  by (intro emits_intros bind_node_calls) (auto dest: parent_of_below)

lemma static_paths:
  "\<forall>d \<in> set DEFAULT_DEVICES. \<forall>c \<in> set (components (dd_path d)). is_normal c"
  "\<forall>l \<in> set SYMLINKS. \<forall>c \<in> set (components (snd l)). is_normal c"
  by code_simp+

lemma default_below:
  "rootfs \<noteq> [] \<Longrightarrow> d \<in> set DEFAULT_DEVICES \<Longrightarrow> below rootfs (path_join rootfs (dd_path d))"
  using static_paths(1) by (blast intro: below_dev_path)

lemma link_below:
  "rootfs \<noteq> [] \<Longrightarrow> (source, link) \<in> set SYMLINKS \<Longrightarrow> below rootfs (path_join rootfs link)"
  using static_paths(2) by (fastforce intro: below_dev_path)



text \<open>
  How a node came to be there: it was there before, or the host's was bound onto it, or it was made
  and its mode was then set explicitly, so that the umask cannot have removed permissions.
\<close>

definition node_provided ::
    "outside \<Rightarrow> string \<Rightarrow> string \<Rightarrow> node_kind \<Rightarrow> nat \<Rightarrow> nat \<Rightarrow> nat \<Rightarrow> history \<Rightarrow> bool" where
  "node_provided K target host kind mode major minor h \<longleftrightarrow>
     asked K h (Query (LinkMeta target)) (\<lambda>r. r_err r = None)
   \<or> asked K h (Mnt (Mount (Some host) target None MS_BIND None)) (\<lambda>r. r_err r = None)
   \<or> (asked K h (Fs (MkNod target kind (mode mod 4096) major minor)) (\<lambda>r. r_err r = None)
      \<and> asked K h (Fs (Chmod target mode)) (\<lambda>r. r_err r = None))"

lemma node_provided_append:
  "node_provided K target host kind mode major minor h \<Longrightarrow>
     node_provided K target host kind mode major minor (l @ h)"
  by (auto simp: node_provided_def intro: asked_append)

lemma bind_node_provides:
  "wp (bind_node K target host) (\<lambda>_. node_provided K target host kind mode major minor) (\<lambda>_ _. True) h"
  unfolding bind_node_def wp_simps by (simp add: node_provided_def split: option.split)

lemma node_provides:
  "wp (node K target host kind mode major minor u)
     (\<lambda>_. node_provided K target host kind mode major minor) (\<lambda>_ _. True) h"
proof -
  have make: "wp (case r_err r of None \<Rightarrow> do_op K (IoErr ''chmod'') (Fs (Chmod target mode))
      | Some e \<Rightarrow> if e = EPERM \<or> e = EOVERFLOW then bind_node K target host else fail (NixErr ''mknod'' e))
      (\<lambda>_. node_provided K target host kind mode major minor) (\<lambda>_ _. True)
      (Fs (MkNod target kind (mode mod 4096) major minor) # h1)"
    if "r = answer K h1 (Fs (MkNod target kind (mode mod 4096) major minor))" for r h1
    using that bind_node_provides
    by (cases "r_err r") (auto simp: wp_simps node_provided_def split: option.split)
  show ?thesis
    unfolding node_def wp_simps using make bind_node_provides
    by (simp add: node_provided_def [of _ _ _ _ _ _ _ "_ # h"] split: option.split)
qed

abbreviation default_provided :: "outside \<Rightarrow> string \<Rightarrow> default_device \<Rightarrow> history \<Rightarrow> bool" where
  "default_provided K rootfs d \<equiv> node_provided K (path_join rootfs (dd_path d)) (path_join ''/'' (dd_path d))
     NodeChar (dd_mode d) (dd_major d) (dd_minor d)"

text \<open>
  When the devices of a container have been created, each of the six default devices is
  provided: present already, bound from the host, or made with the right numbers and then given
  mode 0666.
\<close>

theorem default_devices_provided:
  assumes "create_devices K rootfs extra u h = (Inr (), h')"
  shows "\<forall>d \<in> set DEFAULT_DEVICES. default_provided K rootfs d h'"
proof -
  have grows: "emits (\<lambda>_. True) (default_node K rootfs u d)" for d
    unfolding default_node_def node_def bind_node_def by (intro emits_intros) auto
  have keep: "wp m (\<lambda>_. default_provided K rootfs d) (\<lambda>_ _. True) h0"
    if "emits (\<lambda>_. True) m" "default_provided K rootfs d h0" for m :: "unit prog" and d h0
    by (rule wp_mono [OF wp_grow [OF that(1), of "default_provided K rootfs d"]])
      (simp_all add: node_provided_append that(2))
  have first: "wp (each (default_node K rootfs u) DEFAULT_DEVICES)
     (\<lambda>_ h1. True \<and> (\<forall>d \<in> set DEFAULT_DEVICES. default_provided K rootfs d h1)) (\<lambda>_ _. True) h"
  proof (rule wp_each_all)
    show "wp (default_node K rootfs u d) (\<lambda>_ h1. True \<and> default_provided K rootfs d h1) (\<lambda>_ _. True) h0" for d h0
      unfolding default_node_def by (simp add: node_provides)
    show "wp (default_node K rootfs u d) (\<lambda>_. default_provided K rootfs d') (\<lambda>_ _. True) h0"
      if "default_provided K rootfs d' h0" for d d' h0
      by (rule keep [OF grows that])
  qed simp
  have rest: "emits (\<lambda>_. True) (seq_p (each (make_link K rootfs) SYMLINKS) (each (extra_node K rootfs u) extra))"
    unfolding make_link_def extra_node_def node_def bind_node_def by (intro emits_intros) auto
  have "wp (create_devices K rootfs extra u)
     (\<lambda>_ h1. \<forall>d \<in> set DEFAULT_DEVICES. default_provided K rootfs d h1) (\<lambda>_ _. True) h"
    unfolding create_devices_def wp_seq [of "each (default_node K rootfs u) DEFAULT_DEVICES"]
  proof (rule wp_mono [OF first])
    fix h1 assume "True \<and> (\<forall>d \<in> set DEFAULT_DEVICES. default_provided K rootfs d h1)"
    then show "wp (seq_p (each (make_link K rootfs) SYMLINKS) (each (extra_node K rootfs u) extra))
       (\<lambda>_ h1. \<forall>d \<in> set DEFAULT_DEVICES. default_provided K rootfs d h1) (\<lambda>_ _. True) h1"
      by (intro wp_mono [OF wp_grow [OF rest,
            where Q = "\<lambda>h1. \<forall>d \<in> set DEFAULT_DEVICES. default_provided K rootfs d h1"]])
        (simp_all add: node_provided_append)
  qed simp
  with assms show ?thesis by (simp add: wp_def)
qed

lemma default_devices_provided_witness:
  "\<exists>h'. create_devices (granting (\<lambda>op r. case op of Query (LinkMeta _) \<Rightarrow> r\<lparr>r_err := Some ENOENT\<rparr> | _ \<Rightarrow> r)) ''/r'' [] False []
      = (Inr (), h')
    \<and> (\<forall>d \<in> set DEFAULT_DEVICES. default_provided
        (granting (\<lambda>op r. case op of Query (LinkMeta _) \<Rightarrow> r\<lparr>r_err := Some ENOENT\<rparr> | _ \<Rightarrow> r)) ''/r'' d h')"
  (is "\<exists>h'. create_devices ?K _ _ _ _ = _ \<and> _")
proof -
  have "fst (create_devices ?K ''/r'' [] False []) = Inr ()" by code_simp
  then obtain h' where "create_devices ?K ''/r'' [] False [] = (Inr (), h')"
    by (cases "create_devices ?K ''/r'' [] False []") auto
  with default_devices_provided [OF this] show ?thesis by blast
qed

end
