(* ===== verification/Rootfs.thy ===== *)
theory Rootfs
  imports Mounts
begin

text \<open>
  The rest of \<^verbatim>\<open>src/src/rootfs\<close>: changing the root (\<^verbatim>\<open>pivot.rs\<close>), masking and
  read-only paths (\<^verbatim>\<open>harden.rs\<close>) and kernel parameters (\<^verbatim>\<open>sysctl.rs\<close>).
\<close>

section \<open>Pivot\<close>

definition make_root_private :: "outside \<Rightarrow> unit prog" where
  "make_root_private K = do_op K (NixErr ''remount / as MS_PRIVATE|MS_REC'')
     (Mnt (Mount None ''/'' None (or MS_PRIVATE MS_REC) None))"

definition make_mount_point :: "outside \<Rightarrow> string \<Rightarrow> unit prog" where
  "make_mount_point K rootfs = do_op K (NixErr ''bind onto itself so pivot_root has a mount point'')
     (Mnt (Mount (Some rootfs) rootfs None (or MS_BIND MS_REC) None))"

definition pivot :: "outside \<Rightarrow> string \<Rightarrow> unit prog" where
  "pivot K rootfs =
     bind_p (io K (NixErr ''open / to keep a handle on the old root'') (Fd (OpenFd ''/'' ODirectory)) r_num) (\<lambda>oldroot.
     bind_p (io K (NixErr ''open rootfs'') (Fd (OpenFd rootfs ODirectory)) r_num) (\<lambda>newroot.
     seq_p (do_op K (NixErr ''chdir into the new root'') (Mnt (FChdir newroot)))
     (seq_p (do_op K (NixErr ''pivot_root'') (Mnt (PivotRoot ''.'' ''.'')))
     (seq_p (do_op K (NixErr ''chdir back to the old root via its fd'') (Mnt (FChdir oldroot)))
     (seq_p (do_op K (NixErr ''mark the old root private before detaching it'')
        (Mnt (Mount None ''.'' None (or MS_PRIVATE MS_REC) None)))
     (seq_p (do_op K (NixErr ''detach the old root'') (Mnt (UmountDetach ''.'')))
     (do_op K (NixErr ''chdir to the new /'') (Mnt (Chdir ''/'')))))))))"

definition set_propagation :: "outside \<Rightarrow> string option \<Rightarrow> unit prog" where
  "set_propagation K requested = (case requested of
     None \<Rightarrow> ret ()
   | Some mode \<Rightarrow>
       bind_p (lift_res
         (if mode = ''shared'' then Inr MS_SHARED
          else if mode = ''slave'' then Inr MS_SLAVE
          else if mode = ''private'' then Inr MS_PRIVATE
          else if mode = ''unbindable'' then Inr MS_UNBINDABLE
          else Inl (Invalid ''linux.rootfsPropagation is not one of shared, slave, private, unbindable''))) (\<lambda>flag.
       do_op K (NixErr ''apply rootfsPropagation'') (Mnt (Mount None ''/'' None (or flag MS_REC) None))))"

section \<open>Masked and read-only paths\<close>

definition mask_one :: "outside \<Rightarrow> string \<Rightarrow> unit prog" where
  "mask_one K path =
     bind_p (call K (Query (LinkMeta path))) (\<lambda>r.
     if r_err r \<noteq> None then ret ()
     else if r_flag r
       then do_op K (NixErr ''mask the directory with an empty read-only tmpfs'')
         (Mnt (Mount (Some ''tmpfs'') path (Some ''tmpfs'') MS_RDONLY (Some ''size=0k'')))
     else do_op K (NixErr ''mask by binding /dev/null over it'')
         (Mnt (Mount (Some ''/dev/null'') path None MS_BIND None)))"

definition mask_paths :: "outside \<Rightarrow> string list \<Rightarrow> unit prog" where
  "mask_paths K paths = each (mask_one K) paths"

definition READONLY_FLAGS :: mount_flags where
  "READONLY_FLAGS = or (or (or (or (or (or MS_BIND MS_REC) MS_REMOUNT) MS_RDONLY) MS_NOSUID) MS_NODEV) MS_NOEXEC"

definition readonly_one :: "outside \<Rightarrow> string \<Rightarrow> unit prog" where
  "readonly_one K path =
     bind_p (call K (Query (LinkMeta path))) (\<lambda>r.
     if r_err r \<noteq> None then ret ()
     else seq_p (do_op K (NixErr ''bind onto itself'')
         (Mnt (Mount (Some path) path None (or MS_BIND MS_REC) None)))
       (do_op K (NixErr ''remount read-only'') (Mnt (Mount (Some path) path None READONLY_FLAGS None))))"

definition harden_readonly_paths :: "outside \<Rightarrow> string list \<Rightarrow> unit prog" where
  "harden_readonly_paths K paths = each (readonly_one K) paths"

definition harden_readonly_rootfs :: "outside \<Rightarrow> unit prog" where
  "harden_readonly_rootfs K = do_op K (NixErr ''remount / read-only for root.readonly'')
     (Mnt (Mount None ''/'' None (or (or MS_BIND MS_REMOUNT) MS_RDONLY) None))"

definition remount_readonly_one :: "outside \<Rightarrow> mount_spec \<Rightarrow> unit prog" where
  "remount_readonly_one K m =
     (let opts = parse_options (flat (mt_options m)) in
      if \<not> flags_contain (op_flags opts) MS_RDONLY then ret ()
      else if get_or [] (mt_typ m) \<noteq> ''tmpfs'' then ret ()
      else do_op K (NixErr ''remount the tmpfs read-only'')
        (Mnt (Mount None (mt_destination m) None (or (op_flags opts) MS_REMOUNT) None)))"

definition remount_readonly_mounts :: "outside \<Rightarrow> mount_spec list \<Rightarrow> unit prog" where
  "remount_readonly_mounts K mounts = each (remount_readonly_one K) mounts"

section \<open>Kernel parameters\<close>

definition SYSCTL_BASE :: string where "SYSCTL_BASE = ''/proc/sys''"

fun is_normal_comp :: "comp \<Rightarrow> bool" where
  "is_normal_comp (Normal _) = True"
| "is_normal_comp _ = False"

definition sysctl_resolve :: "string \<Rightarrow> string res" where
  "sysctl_resolve key =
     (if key = [] then Inl (Invalid ''an empty sysctl key'')
      else let relative = replace_char (CHR ''.'') ''/'' key in
        if list_all is_normal_comp (components relative) then Inr (path_join SYSCTL_BASE relative)
        else Inl (Invalid ''sysctl key resolves outside /proc/sys''))"

definition sysctl_apply :: "outside \<Rightarrow> str_map \<Rightarrow> unit prog" where
  "sysctl_apply K settings = each (\<lambda>(key, v).
     bind_p (lift_res (sysctl_resolve key)) (\<lambda>target.
     do_op K (IoErr ''write sysctl'') (Fs (WriteFile target v)))) settings"

section \<open>Properties\<close>

definition pivot_calls :: "string \<Rightarrow> int \<Rightarrow> int \<Rightarrow> sysop list" where
  "pivot_calls rootfs oldroot newroot =
     [Fd (OpenFd ''/'' ODirectory), Fd (OpenFd rootfs ODirectory), Mnt (FChdir newroot),
      Mnt (PivotRoot ''.'' ''.''), Mnt (FChdir oldroot),
      Mnt (Mount None ''.'' None (or MS_PRIVATE MS_REC) None), Mnt (UmountDetach ''.''), Mnt (Chdir ''/'')]"

text \<open>
  Changing the root makes exactly its eight calls in their order, stopping at the first that
  fails. In particular the old root is detached only after it was made private and from the
  descriptor opened before the change (so the host's mounts do not see the unmount), and success
  means that it was detached and that the working directory is inside the new root.
\<close>

theorem pivot_sequence:
  assumes "pivot K rootfs h = (r, h')"
  shows "\<exists>oldroot newroot. suffix h' (rev (pivot_calls rootfs oldroot newroot) @ h) \<and> suffix h h'
    \<and> (r = Inr () \<longrightarrow> h' = rev (pivot_calls rootfs oldroot newroot) @ h)"
proof -
  let ?old = "r_num (answer K h (Fd (OpenFd ''/'' ODirectory)))"
  let ?new = "r_num (answer K (Fd (OpenFd ''/'' ODirectory) # h) (Fd (OpenFd rootfs ODirectory)))"
  have "wp (pivot K rootfs)
     (\<lambda>_ h'. h' = rev (pivot_calls rootfs ?old ?new) @ h)
     (\<lambda>_ h'. suffix h' (rev (pivot_calls rootfs ?old ?new) @ h) \<and> suffix h h') h"
    unfolding pivot_def wp_simps pivot_calls_def
    by (simp add: suffix_Cons split: option.split)
  then show ?thesis using assms by (cases r) (auto simp: wp_def suffixI)
qed

lemma pivot_sequence_witness:
  "\<exists>oldroot newroot h'. pivot (granting (\<lambda>_ r. r)) ''/r'' [] = (Inr (), h')
     \<and> h' = rev (pivot_calls ''/r'' oldroot newroot)"
proof -
  let ?run = "pivot (granting (\<lambda>_ r. r)) ''/r'' []"
  have "fst ?run = Inr ()" by code_simp
  then obtain h' where "?run = (Inr (), h')" by (cases ?run) auto
  with pivot_sequence [OF this] show ?thesis by auto
qed

text \<open>A path is hidden: it does not exist, or something was mounted over it.\<close>

definition hidden :: "outside \<Rightarrow> history \<Rightarrow> string \<Rightarrow> bool" where
  "hidden K h path \<longleftrightarrow> asked K h (Query (LinkMeta path)) (\<lambda>r. r_err r \<noteq> None)
   \<or> asked K h (Mnt (Mount (Some ''tmpfs'') path (Some ''tmpfs'') MS_RDONLY (Some ''size=0k''))) (\<lambda>r. r_err r = None)
   \<or> asked K h (Mnt (Mount (Some ''/dev/null'') path None MS_BIND None)) (\<lambda>r. r_err r = None)"

definition made_readonly :: "outside \<Rightarrow> history \<Rightarrow> string \<Rightarrow> bool" where
  "made_readonly K h path \<longleftrightarrow> asked K h (Query (LinkMeta path)) (\<lambda>r. r_err r \<noteq> None)
   \<or> asked K h (Mnt (Mount (Some path) path None READONLY_FLAGS None)) (\<lambda>r. r_err r = None)"

lemma mask_one_hides: "wp (mask_one K path) (\<lambda>_ h'. hidden K h' path) (\<lambda>_ _. True) h"
  unfolding mask_one_def wp_simps by (auto simp: wp_simps hidden_def split: option.split)

lemma readonly_one_locks: "wp (readonly_one K path) (\<lambda>_ h'. made_readonly K h' path) (\<lambda>_ _. True) h"
  unfolding readonly_one_def wp_simps by (auto simp: wp_simps made_readonly_def split: option.split)

lemma stable_hidden [intro]: "stable (\<lambda>h. hidden K h path)" "stable (\<lambda>h. made_readonly K h path)"
  by (auto simp: stable_def hidden_def made_readonly_def intro: asked_append)

lemma grows_path: "grows (mask_one K path)" "grows (readonly_one K path)"
  unfolding mask_one_def readonly_one_def grows_def by (intro emits_intros; simp)+

lemma mask_paths_hide: "ensures (mask_paths K paths) (\<lambda>h. \<forall>path \<in> set paths. hidden K h path)"
  unfolding mask_paths_def
  by (rule ensures_each) (auto intro: ensuresI mask_one_hides grows_path)

lemma readonly_paths_lock: "ensures (harden_readonly_paths K paths) (\<lambda>h. \<forall>path \<in> set paths. made_readonly K h path)"
  unfolding harden_readonly_paths_def
  by (rule ensures_each) (auto intro: ensuresI readonly_one_locks grows_path)

text \<open>
  Hardening is complete. When it succeeds, every masked path is absent or covered, and every
  read-only path is absent or was remounted with flags that include read-only; none is skipped.
\<close>

theorem hardening_complete:
  "ensures (seq_p (mask_paths K masked) (harden_readonly_paths K readonly))
     (\<lambda>h. list_all (hidden K h) masked \<and> list_all (made_readonly K h) readonly)"
proof -
  have grow: "grows (harden_readonly_paths K readonly)"
    using grows_path unfolding harden_readonly_paths_def grows_def by (intro emits_each)
  show ?thesis
    unfolding list_all_iff
    by (intro ensures_conj ensures_seq_first [OF mask_paths_hide _ grow] ensures_seq_then readonly_paths_lock
        stable_ball stable_hidden)
qed

lemma sysctl_resolve_below:
  assumes "sysctl_resolve key = Inr p"
  shows "below SYSCTL_BASE p"
proof -
  from assms have "list_all is_normal_comp (components (replace_char (CHR ''.'') ''/'' key))"
    and p: "p = path_join SYSCTL_BASE (replace_char (CHR ''.'') ''/'' key)"
    by (auto simp: sysctl_resolve_def Let_def split: if_splits)
  then have "\<forall>c \<in> set (components (replace_char (CHR ''.'') ''/'' key)). is_normal c"
    by (metis (full_types) components_normal is_normal.simps(1) is_normal_comp.elims(2) list_all_iff)
  then show ?thesis unfolding p by (intro below_join_path) (simp_all add: SYSCTL_BASE_def)
qed

fun sysctl_call :: "sysop \<Rightarrow> bool" where
  "sysctl_call (Fs (WriteFile f _)) = below SYSCTL_BASE f"
| "sysctl_call _ = False"

text \<open>
  Applying the kernel parameters of a specification makes no call but writes to files below
  \<^verbatim>\<open>/proc/sys\<close>, whatever the keys.
\<close>

theorem sysctl_confined: "emits sysctl_call (sysctl_apply K settings)"
proof -
  have "emits sysctl_call (bind_p (lift_res (sysctl_resolve key)) (\<lambda>target.
      do_op K (IoErr ''write sysctl'') (Fs (WriteFile target v))))" for key v
    by (cases "sysctl_resolve key")
      (auto simp: emits_def bind_p_def lift_res_def do_op_def io_def call_def ret_def fail_def
        sysctl_resolve_below split: option.splits)
  then show ?thesis unfolding sysctl_apply_def by (intro emits_each) (auto split: prod.splits)
qed

end
