(* ===== verification/State.thy ===== *)
theory State
  imports Cgroup "HOL-Library.List_Lexorder" "HOL-Library.Char_ord"
begin

text \<open>
  \<^verbatim>\<open>src/src/state.rs\<close>: loading and saving a container's persisted state, deriving its
  status from what the kernel says, listing containers, the start time of a process from
  \<^verbatim>\<open>/proc\<close>, and RFC 3339 timestamps. Strings are ordered byte by byte, as Rust orders them.
\<close>

record container =
  co_layout :: dirs
  co_state :: persisted

section \<open>Loading and saving\<close>

definition container_load :: "outside \<Rightarrow> dirs \<Rightarrow> string \<Rightarrow> container prog" where
  "container_load K l cid =
     (let path = state_file l cid in
      bind_p (ask K (Query (IsFile path)) r_flag) (\<lambda>is_file.
      if \<not> is_file then fail (NotFound cid)
      else bind_p (io K (IoErr ''read state'') (Query (ReadFile path)) r_text) (\<lambda>text.
        bind_p (lift_res (ok_or (parse_state K text) JsonErr)) (\<lambda>state.
        ret \<lparr>co_layout = l, co_state = state\<rparr>))))"

definition staged_file :: "dirs \<Rightarrow> string \<Rightarrow> string" where
  "staged_file l cid = path_join (container_dir l cid) ''state.json.new''"

definition container_save :: "outside \<Rightarrow> dirs \<Rightarrow> persisted \<Rightarrow> unit prog" where
  "container_save K l state =
     seq_p (do_op K (IoErr ''create the container directory'') (Fs (MkDirAll (container_dir l (pe_id state)))))
     (bind_p (lift_res (ok_or (state_json K state) JsonErr)) (\<lambda>text.
      seq_p (do_op K (IoErr ''write the staged state'') (Fs (WriteFile (staged_file l (pe_id state)) text)))
        (do_op K (IoErr ''rename into place'')
          (Fs (Rename (staged_file l (pe_id state)) (state_file l (pe_id state)))))))"

definition co_id :: "container \<Rightarrow> string" where "co_id c = pe_id (co_state c)"
definition co_pid :: "container \<Rightarrow> int" where "co_pid c = pe_pid (co_state c)"
definition co_exec_fifo :: "container \<Rightarrow> string" where "co_exec_fifo c = exec_fifo (co_layout c) (co_id c)"
definition co_cgroup :: "container \<Rightarrow> cgroup" where "co_cgroup c = cg_attach (pe_cgroup (co_state c))"

definition container_remove :: "outside \<Rightarrow> container \<Rightarrow> unit prog" where
  "container_remove K c =
     (let dir = container_dir (co_layout c) (co_id c) in
      bind_p (ask K (Query (Exists dir)) r_flag) (\<lambda>present.
      when_p present (do_op K (IoErr ''remove the container directory'') (Fs (RmDirAll dir)))))"

section \<open>Status\<close>

text \<open>\<^verbatim>\<open>stat[stat.rfind(')')? + 1..]\<close>: what follows the last closing parenthesis.\<close>

definition after_last :: "char \<Rightarrow> string \<Rightarrow> string option" where
  "after_last c s = (if c \<in> set s then Some (rev (takeWhile (\<lambda>x. x \<noteq> c) (rev s))) else None)"

definition parse_start_time :: "string \<Rightarrow> nat option" where
  "parse_start_time stat = Option.bind (after_last (CHR '')'') stat) (\<lambda>tail.
     let fields = split_whitespace tail in
     if length fields > 19 then parse_unsigned u64_bound (fields ! 19) else None)"

definition stat_path :: "int \<Rightarrow> string" where
  "stat_path pid = ''/proc/'' @ int_text pid @ ''/stat''"

definition start_time :: "outside \<Rightarrow> int \<Rightarrow> nat prog" where
  "start_time K pid =
     bind_p (io K (IoErr ''read stat'') (Query (ReadFile (stat_path pid))) r_text) (\<lambda>text.
     lift_res (ok_or (parse_start_time text) (Invalid ''cannot parse stat'')))"

definition alive :: "outside \<Rightarrow> container \<Rightarrow> bool prog" where
  "alive K c = or_else False
     (bind_p (start_time K (co_pid c)) (\<lambda>observed. ret (observed = pe_start_time (co_state c))))"

definition container_status :: "outside \<Rightarrow> container \<Rightarrow> status prog" where
  "container_status K c =
     bind_p (alive K c) (\<lambda>is_alive.
     if \<not> is_alive then ret Stopped
     else bind_p (is_frozen K (co_cgroup c)) (\<lambda>frozen.
       if frozen then ret Paused
       else bind_p (ask K (Query (Exists (co_exec_fifo c))) r_flag) (\<lambda>waiting.
         ret (if waiting then Created else Running))))"

definition oci_state :: "outside \<Rightarrow> container \<Rightarrow> oci_state prog" where
  "oci_state K c =
     bind_p (container_status K c) (\<lambda>status.
     ret \<lparr>os_version = pe_oci_version (co_state c), os_id = pe_id (co_state c), os_status = status,
        os_pid = (if status = Stopped then None else Some (pe_pid (co_state c))),
        os_bundle = pe_bundle (co_state c),
        os_annotations = (if pe_annotations (co_state c) = [] then None
                          else Some (pe_annotations (co_state c)))\<rparr>)"

definition require :: "outside \<Rightarrow> container \<Rightarrow> status list \<Rightarrow> status prog" where
  "require K c expected =
     bind_p (container_status K c) (\<lambda>actual.
     if actual \<in> set expected then ret actual
     else fail (BadState (pe_id (co_state c)) (status_text actual)
       (join_with '' or '' (map status_text expected))))"

section \<open>Listing\<close>

text \<open>
  The entries of a directory are the names in the reply (those that are valid UTF-8; the code skips
  the others, which the second number counts); a cleared flag says that reading a further entry
  failed, with the first number as reason.
\<close>

fun load_all :: "outside \<Rightarrow> dirs \<Rightarrow> string list \<Rightarrow> container list prog" where
  "load_all K l [] = ret []"
| "load_all K l (cid # cids) =
     on_result (container_load K l cid) (\<lambda>r.
     bind_p (load_all K l cids) (\<lambda>found.
     ret (case r of Inr c \<Rightarrow> c # found | Inl _ \<Rightarrow> found)))"

definition list_containers :: "outside \<Rightarrow> dirs \<Rightarrow> container list prog" where
  "list_containers K l =
     bind_p (ask K (Query (IsDir (root l))) r_flag) (\<lambda>is_dir.
     if \<not> is_dir then ret []
     else bind_p (io K (IoErr ''read the root'') (Query (ReadDir (root l))) id) (\<lambda>r.
       bind_p (load_all K l (r_list r)) (\<lambda>found.
       if \<not> r_flag r then fail (IoErr ''read an entry'' (EOTHER (nat (r_num r))))
       else ret (sort_key (\<lambda>c. pe_created (co_state c)) found))))"

section \<open>Timestamps\<close>

text \<open>\<^verbatim>\<open>div_euclid\<close> and \<^verbatim>\<open>rem_euclid\<close> by a positive number are HOL's \<open>div\<close> and
  \<open>mod\<close>; the other divisions are of non-negative numbers.\<close>

definition civil_from_days :: "int \<Rightarrow> int \<times> int \<times> int" where
  "civil_from_days days =
     (let z = days + 719468;
          era = z div 146097;
          doe = z mod 146097;
          yoe = (doe - doe div 1460 + doe div 36524 - doe div 146096) div 365;
          y = yoe + era * 400;
          doy = doe - (365 * yoe + yoe div 4 - yoe div 100);
          mp = (5 * doy + 2) div 153;
          d = doy - (153 * mp + 2) div 5 + 1;
          m = (if mp < 10 then mp + 3 else mp - 9)
      in (if m \<le> 2 then y + 1 else y, m, d))"

definition civil_from_unix :: "int \<Rightarrow> int \<times> int \<times> int \<times> int \<times> int \<times> int" where
  "civil_from_unix secs =
     (let days = secs div 86400; rem = secs mod 86400; (y, m, d) = civil_from_days days
      in (y, m, d, rem div 3600, rem mod 3600 div 60, rem mod 60))"

definition padded :: "nat \<Rightarrow> int \<Rightarrow> string" where
  "padded w i = (if i < 0 then CHR ''-'' # zero_pad (w - 1) (dec_text (nat (- i))) else zero_pad w (dec_text (nat i)))"

definition rfc3339 :: "int \<Rightarrow> int \<Rightarrow> string" where
  "rfc3339 secs nanos =
     (let (year, month, day, hour, minute, second) = civil_from_unix secs in
      padded 4 year @ ''-'' @ padded 2 month @ ''-'' @ padded 2 day @ ''T'' @ padded 2 hour @ '':''
      @ padded 2 minute @ '':'' @ padded 2 second @ ''.'' @ padded 9 nanos @ ''Z'')"

text \<open>The wall clock answers with seconds and nanoseconds; a time before the epoch counts as 0.\<close>

definition now_rfc3339 :: "outside \<Rightarrow> string prog" where
  "now_rfc3339 K = ask K (Time WallClock)
     (\<lambda>r. if r_err r = None then rfc3339 (r_num r) (r_num2 r) else rfc3339 0 0)"

definition write_pid_file :: "outside \<Rightarrow> string option \<Rightarrow> int \<Rightarrow> unit prog" where
  "write_pid_file K path pid =
     given path (\<lambda>p. do_op K (IoErr ''write pid file'') (Fs (WriteFile p (int_text pid))))"

section \<open>Properties of the status\<close>

definition observed_start :: "outside \<Rightarrow> container \<Rightarrow> history \<Rightarrow> nat option" where
  "observed_start K c h =
     (let r = answer K h (Query (ReadFile (stat_path (co_pid c)))) in
      if r_err r = None then parse_start_time (r_text r) else None)"

lemma wp_alive:
  "wp (alive K c) Q E = (\<lambda>h. Q (observed_start K c h = Some (pe_start_time (co_state c)))
     (Query (ReadFile (stat_path (co_pid c))) # h))"
  by (auto simp: fun_eq_iff alive_def start_time_def wp_simps observed_start_def Let_def ok_or_def
      split: option.splits sum.splits)

text \<open>The status as a function of what is observed.\<close>

definition derived_status :: "bool \<Rightarrow> bool \<Rightarrow> bool \<Rightarrow> status" where
  "derived_status is_alive frozen waiting =
     (if \<not> is_alive then Stopped else if frozen then Paused else if waiting then Created else Running)"

lemma wp_container_status:
  "wp (container_status K c) Q E = (\<lambda>h.
     let stat = Query (ReadFile (stat_path (co_pid c)));
         events = Query (ReadFile (path_join (cg_path (co_cgroup c)) ''cgroup.events''));
         fifo = Query (Exists (co_exec_fifo c)) in
     if observed_start K c h \<noteq> Some (pe_start_time (co_state c)) then Q Stopped (stat # h)
     else if polled K (co_cgroup c) (stat # h) then Q Paused (events # stat # h)
     else Q (if r_flag (answer K (events # stat # h) fifo) then Created else Running)
            (fifo # events # stat # h))"
  by (auto simp: fun_eq_iff container_status_def wp_simps wp_alive wp_is_frozen Let_def)

text \<open>
  C25: a container is reported as anything but stopped only when the process with the recorded pid
  was just seen to have started at the recorded time, so a pid that the kernel has given to another
  process never passes for the container; and the reported state names a pid exactly when the
  container is not stopped.
\<close>

theorem recycled_pid_is_stopped:
  "wp (oci_state K c)
     (\<lambda>os h'. (os_status os = Stopped \<longleftrightarrow> observed_start K c h \<noteq> Some (pe_start_time (co_state c)))
        \<and> os_pid os = (if os_status os = Stopped then None else Some (co_pid c)))
     (\<lambda>_ _. False) h"
  unfolding oci_state_def wp_bind wp_ret wp_container_status
  by (simp add: Let_def co_pid_def)

text \<open>
  The command name in \<^verbatim>\<open>/proc/pid/stat\<close>, which a process may set to anything, cannot
  shift the fields: whatever precedes the last closing parenthesis, the start time is the twentieth
  field after it.
\<close>

theorem start_time_ignores_command:
  assumes "CHR '')'' \<notin> set tail"
  shows "parse_start_time (before @ CHR '')'' # tail) =
    (let fields = split_whitespace tail in
     if length fields > 19 then parse_unsigned u64_bound (fields ! 19) else None)"
proof -
  have "takeWhile (\<lambda>x. x \<noteq> CHR '')'') (rev tail @ CHR '')'' # rev before) = rev tail"
    using assms by (subst takeWhile_append2) auto
  then show ?thesis by (simp add: parse_start_time_def after_last_def)
qed

lemma start_time_ignores_command_witness:
  "parse_start_time (''7 (a) 99 9 (b'' @ CHR '')'' # '' S 1 2 3 4 5 6 7 8 9 10 11 12 13 14 15 16 17 18 4242 0'') = Some 4242"
proof -
  have "split_whitespace '' S 1 2 3 4 5 6 7 8 9 10 11 12 13 14 15 16 17 18 4242 0''
      = [''S'', ''1'', ''2'', ''3'', ''4'', ''5'', ''6'', ''7'', ''8'', ''9'', ''10'', ''11'', ''12'', ''13'',
         ''14'', ''15'', ''16'', ''17'', ''18'', ''4242'', ''0'']" "parse_unsigned u64_bound ''4242'' = Some 4242"
    by code_simp+
  then show ?thesis by (subst start_time_ignores_command) (auto simp: Let_def)
qed

text \<open>
  The field after the command name, the letter of the process state, plays no part: the line of a
  zombie, which the kernel keeps until its parent reaps it, has the same start time as that of the
  running process, so a container whose init has ended but was not reaped does not count as stopped.
\<close>

lemma zombie_keeps_start_time:
  assumes "CHR '')'' \<notin> set tail"
  shows "parse_start_time (before @ '') Z '' @ tail) = parse_start_time (before @ '') S '' @ tail)"
proof -
  have words: "split_whitespace (CHR '' '' # c # CHR '' '' # tail) = [c] # split_whitespace tail"
    if "plain_char c" for c
    using words_space [of "[]" "c # CHR '' '' # tail"] split_whitespace_plain(2) [of "[c]" tail] that
    by (simp add: split_whitespace_def)
  have "plain_char CHR ''Z''" "plain_char CHR ''S''" by (simp_all add: plain_char_def)
  with words [of "CHR ''Z''"] words [of "CHR ''S''"] show ?thesis
    using start_time_ignores_command [of "'' Z '' @ tail" before] start_time_ignores_command [of "'' S '' @ tail" before] assms
    by (simp add: Let_def nth_Cons split: nat.split)
qed

section \<open>Properties of saving and listing\<close>

text \<open>
  The state file is replaced in one step. Saving creates the directory, writes the new state
  under another name and renames it into place, stopping at the first failure; the state file
  itself is never opened for writing, so a reader sees the old state or the new one.
\<close>

theorem save_is_atomic:
  assumes "container_save K l s h = (r, h')" "state_json K s = Some text"
  shows "\<exists>calls. calls = [Fs (MkDirAll (container_dir l (pe_id s))), Fs (WriteFile (staged_file l (pe_id s)) text),
        Fs (Rename (staged_file l (pe_id s)) (state_file l (pe_id s)))]
    \<and> suffix h' (rev calls @ h) \<and> suffix h h' \<and> (r = Inr () \<longrightarrow> h' = rev calls @ h)
    \<and> \<not> path_eq (staged_file l (pe_id s)) (state_file l (pe_id s))"
proof -
  have "wp (container_save K l s)
     (\<lambda>_ h'. h' = rev [Fs (MkDirAll (container_dir l (pe_id s))), Fs (WriteFile (staged_file l (pe_id s)) text),
        Fs (Rename (staged_file l (pe_id s)) (state_file l (pe_id s)))] @ h)
     (\<lambda>_ h'. suffix h' (rev [Fs (MkDirAll (container_dir l (pe_id s))), Fs (WriteFile (staged_file l (pe_id s)) text),
        Fs (Rename (staged_file l (pe_id s)) (state_file l (pe_id s)))] @ h) \<and> suffix h h') h"
    unfolding container_save_def wp_simps assms(2)
    by (simp add: suffix_Cons split: option.split)
  moreover have "\<not> path_eq (staged_file l (pe_id s)) (state_file l (pe_id s))"
  proof -
    have "normal_name ''state.json.new''" by (simp add: normal_name_def real_part_def)
    then show ?thesis by (simp add: staged_file_def state_file_def path_eq_def) (simp add: STATE_FILE_def)
  qed
  ultimately show ?thesis using assms(1) by (cases r) (auto simp: wp_def suffixI suffix_Cons)
qed

definition some_state :: persisted where
  "some_state = \<lparr>pe_oci_version = OCI_VERSION, pe_id = ''c1'', pe_pid = 7, pe_start_time = 42, pe_bundle = ''/b'',
     pe_rootfs = ''/b/rootfs'', pe_cgroup = ''mars/c1'', pe_created = ''2024'', pe_rootless = False, pe_annotations = []\<rparr>"

lemma save_is_atomic_witness:
  "\<exists>h'. container_save (granting (\<lambda>_ r. r)) \<lparr>root = ''/run''\<rparr> some_state [] = (Inr (), h') \<and> length h' = 3"
proof -
  let ?run = "container_save (granting (\<lambda>_ r. r)) \<lparr>root = ''/run''\<rparr> some_state []"
  have "fst ?run = Inr ()" by code_simp
  then obtain h' where run: "?run = (Inr (), h')" by (cases ?run) auto
  have "state_json (granting (\<lambda>_ r. r)) some_state = Some []" by (simp add: granting_def)
  from save_is_atomic [OF run this] run show ?thesis by auto
qed

lemma load_all_loads:
  "wp (load_all K l cids) (\<lambda>cs _. \<forall>c \<in> set cs. co_layout c = l) E h"
proof (induction cids arbitrary: h)
  case (Cons cid cids)
  have "wp (container_load K l cid) (\<lambda>c _. co_layout c = l) (\<lambda>_ _. True) h"
    unfolding container_load_def Let_def wp_simps
    by (auto simp: wp_simps ok_or_def split: option.split)
  moreover have "wp (load_all K l cids) Q E h1"
    if "\<And>cs h2. \<forall>c \<in> set cs. co_layout c = l \<Longrightarrow> Q cs h2" for Q h1
    using Cons.IH [of h1] by (rule wp_mono) (simp_all add: that)
  ultimately show ?case
    unfolding load_all.simps wp_simps by (elim wp_mono) simp_all
qed (simp add: wp_simps)

text \<open>
  Listing returns the containers that could be loaded, oldest first by their creation time; a
  directory entry that is not a loadable container is skipped and never makes the listing fail.
\<close>

theorem list_sorted_by_creation:
  "wp (list_containers K l)
     (\<lambda>cs _. sorted (map (\<lambda>c. pe_created (co_state c)) cs) \<and> list_all (\<lambda>c. co_layout c = l) cs)
     (\<lambda>e _. (\<exists>reason. e = IoErr ''read the root'' reason \<or> e = IoErr ''read an entry'' reason)) h"
  unfolding list_containers_def wp_simps
  by (auto simp: list_all_iff split: option.split intro!: wp_mono [OF load_all_loads])

end
