(* ===== verification/Sync.thy ===== *)
theory Sync
  imports Kernel
begin

text \<open>
  \<^verbatim>\<open>src/src/sync.rs\<close>: the channel between the runtime and the container's init process.
  A process holds one end of one channel; a message is delivered whole
  (\<^verbatim>\<open>SOCK_SEQPACKET\<close>) and a reply without a message is one that does not parse.
\<close>

definition MAX_MESSAGE :: nat where "MAX_MESSAGE = 16 * 1024"

fun message_kind :: "message \<Rightarrow> string" where
  "message_kind RequestUserMapping = ''RequestUserMapping''"
| "message_kind UserMappingDone = ''UserMappingDone''"
| "message_kind (InitPid _ _) = ''InitPid''"
| "message_kind (CgroupApplied _) = ''CgroupApplied''"
| "message_kind (InitReady _) = ''InitReady''"
| "message_kind (Failed _) = ''Failed''"

definition channel_pair :: "outside \<Rightarrow> unit prog" where
  "channel_pair K = do_op K SyscallErr (Chan ChanPair)"

definition send :: "outside \<Rightarrow> message \<Rightarrow> unit prog" where
  "send K m = do_op K SyscallErr (Chan (ChanSend m))"

definition decode_reply :: "reply \<Rightarrow> message res" where
  "decode_reply r = (if r_num r = 0 then Inl SyncClosed else ok_or (r_msg r) JsonErr)"

definition recv :: "outside \<Rightarrow> message prog" where
  "recv K = bind_p (io K SyscallErr (Chan ChanRecv) id) (\<lambda>r. lift_res (decode_reply r))"

definition expected :: "string \<Rightarrow> message \<Rightarrow> message res" where
  "expected want m = (case m of
     Failed reason \<Rightarrow> Inl (InitFailed reason)
   | _ \<Rightarrow> if message_kind m = want then Inr m else Inl (SyncErr ''expected another message''))"

definition expect :: "outside \<Rightarrow> string \<Rightarrow> message prog" where
  "expect K want = bind_p (recv K) (\<lambda>m. lift_res (expected want m))"

text \<open>What one \<^verbatim>\<open>read\<close> of the channel yields.\<close>

definition received :: "outside \<Rightarrow> history \<Rightarrow> message res" where
  "received K h = (let r = answer K h (Chan ChanRecv) in
     case r_err r of Some e \<Rightarrow> Inl (SyscallErr e) | None \<Rightarrow> decode_reply r)"

text \<open>The calls that bear on a conversation, and all others.\<close>

fun talks :: "sysop \<Rightarrow> bool" where
  "talks (Chan _) = True"
| "talks (Proc Fork) = True"
| "talks _ = False"

abbreviation hush :: "sysop \<Rightarrow> bool" where
  "hush op \<equiv> \<not> talks op"

lemma wp_recv [wp_simps]:
  "wp (recv K) Q E = (\<lambda>h. case received K h of
     Inl e \<Rightarrow> E e (Chan ChanRecv # h) | Inr m \<Rightarrow> Q m (Chan ChanRecv # h))"
  by (auto simp: fun_eq_iff recv_def wp_simps received_def Let_def split: option.splits sum.splits)

lemma wp_send [wp_simps]:
  "wp (send K m) Q E = (\<lambda>h. case r_err (answer K h (Chan (ChanSend m))) of
     Some e \<Rightarrow> E (SyscallErr e) (Chan (ChanSend m) # h) | None \<Rightarrow> Q () (Chan (ChanSend m) # h))"
  by (simp add: send_def wp_do_op)

lemma emits_send [emits_intros]: "P (Chan (ChanSend m)) \<Longrightarrow> emits P (send K m)"
  by (simp add: send_def emits_do_op)

lemma emits_recv [emits_intros]: "P (Chan ChanRecv) \<Longrightarrow> emits P (recv K)"
  unfolding recv_def by (intro emits_intros)

lemma emits_expect [emits_intros]: "P (Chan ChanRecv) \<Longrightarrow> emits P (expect K want)"
  unfolding expect_def by (intro emits_intros)

lemma expected_Inr: "expected want m = Inr m' \<longleftrightarrow> m' = m \<and> message_kind m = want \<and> want \<noteq> ''Failed''"
  by (cases m) (auto simp: expected_def)

text \<open>
  Waiting for a message yields one of the wanted kind or an error, never another message: a
  failure reported by the peer becomes \<^verbatim>\<open>InitFailed\<close> with the peer's reason, a closed
  channel \<^verbatim>\<open>SyncClosed\<close>, and exactly one message is consumed in every case.
\<close>

theorem expect_outcomes:
  assumes "want \<noteq> ''Failed''"
  shows "wp (expect K want)
    (\<lambda>m h'. received K h = Inr m \<and> message_kind m = want \<and> h' = Chan ChanRecv # h)
    (\<lambda>e h'. h' = Chan ChanRecv # h \<and>
       (case received K h of
          Inl e' \<Rightarrow> e = e'
        | Inr (Failed reason) \<Rightarrow> e = InitFailed reason
        | Inr m \<Rightarrow> message_kind m \<noteq> want \<and> e = SyncErr ''expected another message'')) h"
  unfolding expect_def wp_simps using assms
  by (auto simp: expected_def split: sum.split message.split)

lemma expect_outcomes_witness:
  "wp (expect (granting (\<lambda>_ r. r\<lparr>r_num := 9, r_msg := Some (Failed ''boom'')\<rparr>)) ''InitReady'')
     (\<lambda>_ _. False) (\<lambda>e _. e = InitFailed ''boom'') []"
  by (rule wp_mono [OF expect_outcomes])
    (auto simp: received_def granting_def plain_reply_def decode_reply_def Let_def)

end
