(* ===== verification/Telemetry.thy ===== *)
theory Telemetry
  imports Kernel
begin

text \<open>
  \<^verbatim>\<open>src/src/telemetry.rs\<close>: the recorder of timed phases, the collector endpoint, and the
  text of a trace and its delivery. The clock answers in nanoseconds; a recorder keeps its origin and
  stores phases in microseconds since then, in 64 bits.
\<close>

definition SERVICE :: string where "SERVICE = ''mars''"

record recorder =
  rc_origin :: int
  rc_wall_origin :: nat
  rc_phases :: "phase list"
  rc_open :: "(string \<times> 64 word) option"

text \<open>The wall clock answers with seconds and nanoseconds; a time before the epoch counts as 0.\<close>

definition wall_nanos :: "outside \<Rightarrow> nat prog" where
  "wall_nanos K = ask K (Time WallClock)
     (\<lambda>r. if r_err r = None then nat (r_num r) * 1000000000 + nat (r_num2 r) else 0)"

definition recorder_new :: "outside \<Rightarrow> recorder prog" where
  "recorder_new K =
     bind_p (ask K (Time Now) r_num) (\<lambda>origin.
     bind_p (wall_nanos K) (\<lambda>wall.
     ret \<lparr>rc_origin = origin, rc_wall_origin = wall, rc_phases = [], rc_open = None\<rparr>))"

text \<open>\<^verbatim>\<open>Instant::elapsed\<close> is never negative.\<close>

definition micros_since :: "int \<Rightarrow> int \<Rightarrow> 64 word" where
  "micros_since origin now = word_of_int (max 0 (now - origin) div 1000)"

definition elapsed_us :: "outside \<Rightarrow> recorder \<Rightarrow> 64 word prog" where
  "elapsed_us K r = ask K (Time Now) (\<lambda>reply. micros_since (rc_origin r) (r_num reply))"

definition rec_end :: "outside \<Rightarrow> recorder \<Rightarrow> recorder prog" where
  "rec_end K r = (case rc_open r of
     None \<Rightarrow> ret r
   | Some (name, start_us) \<Rightarrow>
       bind_p (elapsed_us K r) (\<lambda>end_us.
       ret (r\<lparr>rc_open := None, rc_phases := rc_phases r @
         [\<lparr>ph_name = name, ph_start_us = start_us, ph_end_us = end_us\<rparr>]\<rparr>)))"

definition rec_begin :: "outside \<Rightarrow> string \<Rightarrow> recorder \<Rightarrow> recorder prog" where
  "rec_begin K name r =
     bind_p (rec_end K r) (\<lambda>r.
     bind_p (elapsed_us K r) (\<lambda>now.
     ret (r\<lparr>rc_open := Some (name, now)\<rparr>)))"

definition shifted :: "string \<Rightarrow> 64 word \<Rightarrow> phase \<Rightarrow> phase" where
  "shifted pre offset_us p = \<lparr>ph_name = pre @ ''.'' @ ph_name p,
     ph_start_us = offset_us + ph_start_us p, ph_end_us = offset_us + ph_end_us p\<rparr>"

definition absorb :: "string \<Rightarrow> 64 word \<Rightarrow> phase list \<Rightarrow> recorder \<Rightarrow> recorder" where
  "absorb pre offset_us phases r = r\<lparr>rc_phases := rc_phases r @ map (shifted pre offset_us) phases\<rparr>"

definition rec_take :: "outside \<Rightarrow> recorder \<Rightarrow> (phase list \<times> recorder) prog" where
  "rec_take K r = bind_p (rec_end K r) (\<lambda>r. ret (rc_phases r, r\<lparr>rc_phases := []\<rparr>))"

section \<open>The endpoint\<close>

definition endpoint :: "string option \<Rightarrow> string option \<Rightarrow> string option" where
  "endpoint explicit env_value =
     (case (case explicit of Some e \<Rightarrow> Some e | None \<Rightarrow> env_value) of
        Some v \<Rightarrow> if trim v \<noteq> [] then Some v else None
      | None \<Rightarrow> None)"

function trim_start_matches :: "string \<Rightarrow> string \<Rightarrow> string" where
  "trim_start_matches p s = (case strip_prefix p s of
     Some r \<Rightarrow> if p = [] then s else trim_start_matches p r | None \<Rightarrow> s)"
  by pat_completeness auto
termination
  by (relation "measure (\<lambda>(p, s). length s)") (auto simp: strip_prefix_Some_iff)

declare trim_start_matches.simps [simp del]

definition split_endpoint :: "string \<Rightarrow> (string \<times> string) res" where
  "split_endpoint e =
     (let trimmed = trim_start_matches ''https://'' (trim_start_matches ''http://'' (trim e));
          authority = takeWhile (\<lambda>c. c \<noteq> slash) trimmed;
          rest = dropWhile (\<lambda>c. c \<noteq> slash) trimmed;
          path = (if rest = [] then ''/v1/traces'' else rest) in
      if authority = [] then Inl (Invalid ''endpoint has no host'')
      else Inr (if CHR '':'' \<in> set authority then authority else authority @ '':4318'', path))"

section \<open>The text of a span\<close>

abbreviation quote :: char where "quote \<equiv> CHR 0x22"
abbreviation json_bs :: char where "json_bs \<equiv> CHR 0x5C"

definition json_escape :: "string \<Rightarrow> string" where
  "json_escape v = replace_char (CHR 0x0A) [json_bs, CHR ''n'']
     (replace_char quote [json_bs, quote] (replace_char json_bs [json_bs, json_bs] v))"

definition quoted :: "string \<Rightarrow> string" where
  "quoted v = quote # v @ [quote]"

definition attribute :: "string \<Rightarrow> string \<Rightarrow> string" where
  "attribute key v = ''{'' @ quoted ''key'' @ '':'' @ quoted key @ '','' @ quoted ''value'' @ '':{''
     @ quoted ''stringValue'' @ '':'' @ quoted (json_escape v) @ ''}}''"

definition write_span ::
    "string \<Rightarrow> string \<Rightarrow> string option \<Rightarrow> string \<Rightarrow> nat \<Rightarrow> 64 word \<Rightarrow> 64 word \<Rightarrow> string \<Rightarrow> string" where
  "write_span trace_id span_id parent name origin_nanos start_us end_us container_id =
     ''{'' @ quoted ''traceId'' @ '':'' @ quoted trace_id @ '','' @ quoted ''spanId'' @ '':'' @ quoted span_id @ '',''
     @ (case parent of Some i \<Rightarrow> quoted ''parentSpanId'' @ '':'' @ quoted i @ '','' | None \<Rightarrow> [])
     @ quoted ''name'' @ '':'' @ quoted (json_escape name) @ '','' @ quoted ''kind'' @ '':1,''
     @ quoted ''startTimeUnixNano'' @ '':'' @ quoted (dec_text (origin_nanos + unat start_us * 1000)) @ '',''
     @ quoted ''endTimeUnixNano'' @ '':'' @ quoted (dec_text (origin_nanos + unat end_us * 1000)) @ '',''
     @ quoted ''attributes'' @ '':['' @ attribute ''container.id'' container_id @ '']}''"

section \<open>Delivering a trace\<close>

text \<open>The version is the one of the package's \<^verbatim>\<open>Cargo.toml\<close>.\<close>

definition PKG_VERSION :: string where "PKG_VERSION = ''0.1.0''"

definition resource_attributes :: "outside \<Rightarrow> string prog" where
  "resource_attributes K = ask K (Net HostName) (\<lambda>r.
     attribute ''service.name'' SERVICE @ '','' @ attribute ''service.version'' PKG_VERSION @ '',''
     @ attribute ''host.name'' (if r_err r = None then r_text r else []))"

definition hex_digit :: "nat \<Rightarrow> char" where
  "hex_digit n = (if n < 10 then digit_char n else char_of (n + 87))"

definition hex_byte :: "char \<Rightarrow> string" where
  "hex_byte c = (let n = of_char c in [hex_digit (n div 16), hex_digit (n mod 16)])"

definition random_hex :: "outside \<Rightarrow> nat \<Rightarrow> string prog" where
  "random_hex K bytes = io K (IoErr ''read /dev/urandom for a trace id'') (Net (RandomBytes bytes))
     (\<lambda>r. concat (map hex_byte (r_text r)))"

definition contains :: "string \<Rightarrow> string \<Rightarrow> bool" where
  "contains part s = list_ex (prefix part) (suffixes s)"

definition first_line :: "string \<Rightarrow> string" where
  "first_line s = (case str_lines s of [] \<Rightarrow> [] | l # _ \<Rightarrow> l)"

abbreviation crlf :: string where "crlf \<equiv> [CHR 0x0D, CHR 0x0A]"

definition post_request :: "string \<Rightarrow> string \<Rightarrow> string \<Rightarrow> string" where
  "post_request host_port path body =
     ''POST '' @ path @ '' HTTP/1.1'' @ crlf @ ''Host: '' @ host_port @ crlf
     @ ''Content-Type: application/json'' @ crlf @ ''Content-Length: '' @ dec_text (length body) @ crlf
     @ ''Connection: close'' @ crlf @ crlf @ body"

definition post :: "outside \<Rightarrow> string \<Rightarrow> string \<Rightarrow> unit prog" where
  "post K e body =
     bind_p (lift_res (split_endpoint e)) (\<lambda>(host_port, path).
     seq_p (do_op K (IoErr ''connect to the OTLP collector'') (Net (NetConnect host_port)))
     (seq_p (ask K (Net (NetReadTimeout 3000)) (\<lambda>_. ()))
     (seq_p (ask K (Net (NetWriteTimeout 3000)) (\<lambda>_. ()))
     (seq_p (do_op K (IoErr ''send the OTLP payload'') (Net (NetSend (post_request host_port path body))))
     (bind_p (ask K (Net NetReadAll) r_text) (\<lambda>head.
      let status = first_line head in
      if contains '' 200'' status \<or> contains '' 202'' status \<or> contains '' 204'' status then ret ()
      else fail (Invalid ''the OTLP collector answered'')))))))"

fun phase_spans :: "outside \<Rightarrow> string \<Rightarrow> string \<Rightarrow> nat \<Rightarrow> string \<Rightarrow> phase list \<Rightarrow> string prog" where
  "phase_spans K trace_id root_span origin container_id [] = ret []"
| "phase_spans K trace_id root_span origin container_id (p # ps) =
     bind_p (random_hex K 8) (\<lambda>i.
     bind_p (phase_spans K trace_id root_span origin container_id ps) (\<lambda>others.
     ret ('','' @ write_span trace_id i (Some root_span) (ph_name p) origin (ph_start_us p) (ph_end_us p) container_id
       @ others)))"

definition trace_body :: "string \<Rightarrow> string \<Rightarrow> string" where
  "trace_body attributes spans =
     ''{'' @ quoted ''resourceSpans'' @ '':[{'' @ quoted ''resource'' @ '':{'' @ quoted ''attributes'' @ '':['' @ attributes
     @ '']},'' @ quoted ''scopeSpans'' @ '':[{'' @ quoted ''scope'' @ '':{'' @ quoted ''name'' @ '':'' @ quoted SERVICE
     @ '','' @ quoted ''version'' @ '':'' @ quoted PKG_VERSION @ ''},'' @ quoted ''spans'' @ '':['' @ spans @ '']}]}]}''"

definition total_us :: "phase list \<Rightarrow> 64 word" where
  "total_us phases = foldl max 0 (map ph_end_us phases)"

definition export_trace :: "outside \<Rightarrow> string \<Rightarrow> string \<Rightarrow> string \<Rightarrow> recorder \<Rightarrow> unit prog" where
  "export_trace K e name container_id r =
     bind_p (rec_take K r) (\<lambda>(phases, r).
     if phases = [] then ret ()
     else
       bind_p (random_hex K 16) (\<lambda>trace_id.
       bind_p (random_hex K 8) (\<lambda>root_span.
       bind_p (phase_spans K trace_id root_span (rc_wall_origin r) container_id phases) (\<lambda>others.
       bind_p (resource_attributes K) (\<lambda>attributes.
       post K e (trace_body attributes
         (write_span trace_id root_span None name (rc_wall_origin r) 0 (total_us phases) container_id @ others)))))))"

section \<open>Recorded phases are in order\<close>

text \<open>
  The operations of a recorder, and the invariant that they keep: the phases are ordered and do not
  overlap, and all of it lies in the past. The clock's documented behaviour is that it never goes
  backwards.
\<close>

definition now_at :: "outside \<Rightarrow> history \<Rightarrow> int" where
  "now_at K h = r_num (answer K h (Time Now))"

definition monotonic :: "outside \<Rightarrow> bool" where
  "monotonic K \<longleftrightarrow> (\<forall>h l. now_at K h \<le> now_at K (l @ h))"

datatype rec_op = Begin string | End

fun rec_step :: "outside \<Rightarrow> rec_op \<Rightarrow> recorder \<Rightarrow> recorder prog" where
  "rec_step K (Begin name) r = rec_begin K name r"
| "rec_step K End r = rec_end K r"

fun rec_steps :: "outside \<Rightarrow> rec_op list \<Rightarrow> recorder \<Rightarrow> recorder prog" where
  "rec_steps K [] r = ret r"
| "rec_steps K (op # ops) r = bind_p (rec_step K op r) (rec_steps K ops)"

fun in_order :: "64 word \<Rightarrow> phase list \<Rightarrow> bool" where
  "in_order t [] = True"
| "in_order t (p # ps) = (t \<le> ph_start_us p \<and> ph_start_us p \<le> ph_end_us p \<and> in_order (ph_end_us p) ps)"

fun last_end :: "64 word \<Rightarrow> phase list \<Rightarrow> 64 word" where
  "last_end t [] = t"
| "last_end t (p # ps) = last_end (ph_end_us p) ps"

lemma in_order_snoc:
  "in_order t (ps @ [p]) \<longleftrightarrow> in_order t ps \<and> last_end t ps \<le> ph_start_us p \<and> ph_start_us p \<le> ph_end_us p"
  by (induction t ps rule: in_order.induct) auto

lemma last_end_snoc [simp]: "last_end t (ps @ [p]) = ph_end_us p"
  by (induction ps arbitrary: t) auto

text \<open>The run is short enough for 64 bits of microseconds (585 000 years).\<close>

definition fits :: "outside \<Rightarrow> int \<Rightarrow> bool" where
  "fits K origin \<longleftrightarrow> (\<forall>h. now_at K h - origin < 1000 * 2 ^ 64)"

definition rec_inv :: "outside \<Rightarrow> history \<Rightarrow> recorder \<Rightarrow> bool" where
  "rec_inv K h r \<longleftrightarrow> fits K (rc_origin r) \<and> in_order 0 (rc_phases r)
     \<and> (let t = last_end 0 (rc_phases r); now = micros_since (rc_origin r) (now_at K h) in
        t \<le> now \<and> (case rc_open r of None \<Rightarrow> True | Some (_, s) \<Rightarrow> t \<le> s \<and> s \<le> now))"

lemma micros_mono:
  assumes "monotonic K" "fits K origin"
  shows "micros_since origin (now_at K h) \<le> micros_since origin (now_at K (l @ h))"
proof -
  have "now_at K h \<le> now_at K (l @ h)" using assms(1) by (simp add: monotonic_def)
  then have le: "max 0 (now_at K h - origin) div 1000 \<le> max 0 (now_at K (l @ h) - origin) div 1000"
    by (intro zdiv_mono1) linarith+
  have "max 0 (now_at K h' - origin) div 1000 < 2 ^ 64" for h'
  proof -
    define x where "x = max 0 (now_at K h' - origin)"
    have "now_at K h' - origin < 1000 * 2 ^ 64" using assms(2) by (simp add: fits_def)
    then have "x < 1000 * 2 ^ 64" by (simp add: x_def)
    moreover have "x div 1000 * 1000 + x mod 1000 = x" "0 \<le> x mod 1000" by simp_all
    ultimately show ?thesis unfolding x_def [symmetric] by linarith
  qed
  moreover have "0 \<le> max 0 (now_at K h' - origin) div 1000" for h' by simp
  ultimately show ?thesis
    using le by (simp add: micros_since_def word_le_def uint_word_of_int take_bit_int_eq_self)
qed

lemma rec_inv_later:
  "monotonic K \<Longrightarrow> rec_inv K h r \<Longrightarrow> rec_inv K (l @ h) r"
  using micros_mono [of K "rc_origin r" h l]
  by (auto simp: rec_inv_def Let_def split: option.splits intro: order_trans)

lemma wp_elapsed: "wp (elapsed_us K r) Q E = (\<lambda>h. Q (micros_since (rc_origin r) (now_at K h)) (Time Now # h))"
  by (simp add: elapsed_us_def wp_ask now_at_def)

lemma rec_end_inv:
  assumes "monotonic K" "rec_inv K h r"
  shows "wp (rec_end K r) (\<lambda>r' h'. rec_inv K h' r' \<and> rc_open r' = None \<and> rc_origin r' = rc_origin r) (\<lambda>_ _. False) h"
proof (cases "rc_open r")
  case (Some p)
  then obtain name s where p: "rc_open r = Some (name, s)" by (cases p) auto
  have "micros_since (rc_origin r) (now_at K h) \<le> micros_since (rc_origin r) (now_at K (Time Now # h))"
    using micros_mono [of K "rc_origin r" h "[Time Now]"] assms by (simp add: rec_inv_def)
  with p assms show ?thesis
    by (simp add: rec_end_def wp_simps wp_elapsed rec_inv_def Let_def in_order_snoc)
qed (use assms in \<open>simp add: rec_end_def wp_simps\<close>)

lemma rec_step_inv:
  assumes "monotonic K" "rec_inv K h r"
  shows "wp (rec_step K op r) (\<lambda>r' h'. rec_inv K h' r') (\<lambda>_ _. False) h"
proof (cases op)
  case (Begin name)
  have open_now: "rec_inv K (Time Now # h1) (r'\<lparr>rc_open := Some (name, micros_since (rc_origin r') (now_at K h1))\<rparr>)"
    if "rec_inv K h1 r'" for h1 r'
    using that micros_mono [of K "rc_origin r'" h1 "[Time Now]"] assms(1)
    by (auto simp: rec_inv_def Let_def intro: order_trans)
  show ?thesis
    unfolding Begin rec_step.simps rec_begin_def wp_simps wp_elapsed
    by (rule wp_mono [OF rec_end_inv [OF assms]]) (auto dest: open_now)
next
  case End
  show ?thesis
    unfolding End rec_step.simps by (rule wp_mono [OF rec_end_inv [OF assms]]) auto
qed

lemma rec_steps_inv:
  assumes "monotonic K" "rec_inv K h r"
  shows "wp (rec_steps K ops r) (\<lambda>r' h'. rec_inv K h' r') (\<lambda>_ _. False) h"
  using assms(2)
proof (induction ops arbitrary: h r)
  case (Cons op ops)
  show ?case
    unfolding rec_steps.simps wp_bind
    by (rule wp_mono [OF rec_step_inv [OF assms(1) Cons.prems]]) (auto intro: Cons.IH)
qed (simp add: wp_simps)

lemma rec_new_inv: "fits K (now_at K h) \<Longrightarrow> rec_inv K (l @ h) \<lparr>rc_origin = now_at K h, rc_wall_origin = w, rc_phases = [], rc_open = None\<rparr>"
  by (simp add: rec_inv_def)

text \<open>
  Whatever sequence of \<^verbatim>\<open>begin\<close> and \<^verbatim>\<open>end\<close> calls a new recorder goes
  through, the phases it hands out are ordered in time and do not overlap, every phase ends no
  earlier than it begins, and afterwards the recorder is empty. This needs a clock that does not go
  backwards, which is what \<^verbatim>\<open>Instant\<close> documents.
\<close>

theorem phases_in_order:
  assumes "monotonic K" "fits K (now_at K h)"
  shows "wp (bind_p (recorder_new K) (\<lambda>r. bind_p (rec_steps K ops r) (rec_take K)))
    (\<lambda>(phases, r) _. in_order 0 phases \<and> rc_phases r = [] \<and> rc_open r = None) (\<lambda>_ _. False) h"
proof -
  have take: "wp (rec_take K r) (\<lambda>(phases, r) _. in_order 0 phases \<and> rc_phases r = [] \<and> rc_open r = None) (\<lambda>_ _. False) h1"
    if "rec_inv K h1 r" for h1 r
    unfolding rec_take_def wp_simps
    by (rule wp_mono [OF rec_end_inv [OF assms(1) that]]) (auto simp: rec_inv_def)
  show ?thesis
    unfolding wp_bind recorder_new_def wall_nanos_def wp_ask wp_ret now_at_def [symmetric]
    by (rule wp_mono [OF rec_steps_inv [OF assms(1)]])
      (use rec_new_inv [OF assms(2), of "[Time WallClock, Time Now]"] take in auto)
qed

lemma phases_in_order_witness:
  "wp (bind_p (recorder_new (granting (\<lambda>_ r. r))) (\<lambda>r. bind_p (rec_steps (granting (\<lambda>_ r. r)) [Begin ''clone'', Begin ''mounts'', End] r)
      (rec_take (granting (\<lambda>_ r. r)))))
    (\<lambda>(phases, r) _. in_order 0 phases \<and> rc_phases r = [] \<and> rc_open r = None) (\<lambda>_ _. False) []"
  by (rule phases_in_order) (simp_all add: monotonic_def fits_def now_at_def granting_def plain_reply_def)

section \<open>Endpoints and escaping\<close>

text \<open>
  An accepted endpoint is a host and a path a request can be made from: the authority is not
  empty, contains a port and no slash, and the path begins with one.
\<close>

theorem endpoint_parts:
  assumes "split_endpoint e = Inr (authority, path)"
  shows "authority \<noteq> [] \<and> CHR '':'' \<in> set authority \<and> slash \<notin> set authority \<and> is_absolute path"
proof -
  have "slash \<notin> set (takeWhile (\<lambda>c. c \<noteq> slash) s)" for s :: string
    by (auto dest: set_takeWhileD)
  moreover have "dropWhile (\<lambda>c. c \<noteq> slash) s = [] \<or> is_absolute (dropWhile (\<lambda>c. c \<noteq> slash) s)" for s :: string
    by (cases "dropWhile (\<lambda>c. c \<noteq> slash) s") (auto dest: dropWhile_eq_Cons_conv [THEN iffD1])
  ultimately show ?thesis
    using assms by (auto simp: split_endpoint_def Let_def split: if_splits)
qed

lemma endpoint_parts_witness:
  "\<exists>authority path. split_endpoint ''http://localhost'' = Inr (authority, path) \<and> is_absolute path"
proof -
  have "split_endpoint ''http://localhost'' = Inr (''localhost:4318'', ''/v1/traces'')" by code_simp
  from this endpoint_parts [OF this] show ?thesis by blast
qed

lemma json_escape_simps:
  "json_escape [] = []"
  "json_escape (c # cs) = (if c = quote \<or> c = json_bs then json_bs # c # json_escape cs
     else if c = CHR 0x0A then json_bs # CHR ''n'' # json_escape cs else c # json_escape cs)"
  by (simp_all add: json_escape_def)

interpretation json: escaping json_escape
  "\<lambda>c. if c = quote \<or> c = json_bs then Some c else if c = CHR 0x0A then Some (CHR ''n'') else None"
  "\<lambda>d. if d = CHR ''n'' then CHR 0x0A else d"
  by unfold_locales (auto simp: json_escape_simps split: if_splits)

text \<open>
  Escaping an attribute value for the trace loses nothing and cannot end the JSON string early:
  reading the escapes gives the value back, and quotes and newlines occur in the result only after
  a backslash.
\<close>

theorem json_escape_round_trip:
  "unescape (\<lambda>d. if d = CHR ''n'' then CHR 0x0A else d) (json_escape v) = v
   \<and> only_escaped {quote, json_bs, CHR 0x0A} (json_escape v)"
proof -
  have "{c. (if c = quote \<or> c = json_bs then Some c else if c = CHR 0x0A then Some (CHR ''n'') else None) \<noteq> None}
      = {quote, json_bs, CHR 0x0A}" by auto
  then show ?thesis using json.round_trip [of v] json.no_raw [of v] by simp
qed

end
