(* ===== verification/Hooks.thy ===== *)
theory Hooks
  imports Kernel
begin

text \<open>
  \<^verbatim>\<open>src/src/container/hooks.rs\<close>: which hooks a phase runs, running one hook with its
  payload, its timeout and its exit status, and which failures abort the operation. The loop that
  polls a hook until its deadline takes the fuel of the outside.
\<close>

datatype hook_phase = Prestart | CreateRuntime | CreateContainer | StartContainer | Poststart | Poststop

fun hook_phase_name :: "hook_phase \<Rightarrow> string" where
  "hook_phase_name Prestart = ''prestart''"
| "hook_phase_name CreateRuntime = ''createRuntime''"
| "hook_phase_name CreateContainer = ''createContainer''"
| "hook_phase_name StartContainer = ''startContainer''"
| "hook_phase_name Poststart = ''poststart''"
| "hook_phase_name Poststop = ''poststop''"

definition is_fatal :: "hook_phase \<Rightarrow> bool" where
  "is_fatal p \<longleftrightarrow> \<not> (p = Poststart \<or> p = Poststop)"

fun select_hooks :: "hook_phase \<Rightarrow> hooks \<Rightarrow> hook list option" where
  "select_hooks Prestart hs = hk_prestart hs"
| "select_hooks CreateRuntime hs = hk_create_runtime hs"
| "select_hooks CreateContainer hs = hk_create_container hs"
| "select_hooks StartContainer hs = hk_start_container hs"
| "select_hooks Poststart hs = hk_poststart hs"
| "select_hooks Poststop hs = hk_poststop hs"

definition exit_success :: "wait_status \<Rightarrow> bool" where
  "exit_success w = (case w of WExited _ code \<Rightarrow> code = 0 | _ \<Rightarrow> False)"

definition hook_spawn :: "hook \<Rightarrow> sysop" where
  "hook_spawn hk = (let args = flat (ho_args hk);
     argv0 = (case args of [] \<Rightarrow> ho_path hk | a # _ \<Rightarrow> a) in
     Cmd (Spawn (ho_path hk) argv0 (drop 1 args) (List.map_filter (split_once (CHR ''='')) (flat (ho_env hk)))))"

definition kill_hook :: "outside \<Rightarrow> unit prog" where
  "kill_hook K = seq_p (ignore (do_op K SyscallErr (Cmd ChildKill))) (ignore (do_op K SyscallErr (Cmd ChildWait)))"

fun poll_hook :: "outside \<Rightarrow> int \<Rightarrow> nat \<Rightarrow> wait_status prog" where
  "poll_hook K deadline 0 = fail Diverged"
| "poll_hook K deadline (Suc n) =
     bind_p (io K (IoErr ''poll the hook'') (Cmd ChildTryWait) r_wait) (\<lambda>w.
     if w \<noteq> WStillAlive then ret w
     else bind_p (ask K (Time Now) r_num) (\<lambda>now.
       if now \<ge> deadline then seq_p (kill_hook K) (fail (Invalid ''timed out''))
       else seq_p (ask K (Time (SleepMs 10)) (\<lambda>_. ())) (poll_hook K deadline n)))"

definition write_payload :: "outside \<Rightarrow> string \<Rightarrow> unit prog" where
  "write_payload K payload =
     bind_p (call K (Cmd (ChildStdin payload))) (\<lambda>r.
     case r_err r of
       None \<Rightarrow> ret ()
     | Some e \<Rightarrow> if e = EPIPE then ret ()
         else seq_p (kill_hook K) (fail (IoErr ''write the container state to the hook's stdin'' e)))"

text \<open>A timeout of zero or less counts as none; the clock answers in nanoseconds.\<close>

definition hook_deadline :: "outside \<Rightarrow> hook \<Rightarrow> int option prog" where
  "hook_deadline K hk = (case ho_timeout hk of
     Some seconds \<Rightarrow> if seconds > 0 then ask K (Time Now) (\<lambda>r. Some (r_num r + seconds * 1000000000)) else ret None
   | None \<Rightarrow> ret None)"

definition hook_one :: "outside \<Rightarrow> string \<Rightarrow> hook \<Rightarrow> unit prog" where
  "hook_one K payload hk =
     seq_p (do_op K (IoErr ''spawn hook'') (hook_spawn hk))
     (seq_p (write_payload K payload)
     (bind_p (hook_deadline K hk) (\<lambda>deadline.
      bind_p (case deadline of
          None \<Rightarrow> io K (IoErr ''wait for the hook'') (Cmd ChildWait) r_wait
        | Some d \<Rightarrow> poll_hook K d (fuel K)) (\<lambda>status.
      if exit_success status then ret () else fail (Invalid ''exited with'')))))"

definition hook_step :: "outside \<Rightarrow> hook_phase \<Rightarrow> string \<Rightarrow> hook \<Rightarrow> unit prog" where
  "hook_step K p payload hk =
     on_result (hook_one K payload hk) (\<lambda>r.
     case r of
       Inr _ \<Rightarrow> ret ()
     | Inl e \<Rightarrow> if e = Diverged then fail Diverged
                else if is_fatal p then fail (Invalid (hook_phase_name p @ '' hook failed''))
                else ret ())"

definition hooks_run :: "outside \<Rightarrow> hooks option \<Rightarrow> hook_phase \<Rightarrow> oci_state \<Rightarrow> unit prog" where
  "hooks_run K hs p state =
     (case Option.bind hs (select_hooks p) of
        None \<Rightarrow> ret ()
      | Some hook_list \<Rightarrow>
          if hook_list = [] then ret ()
          else bind_p (lift_res (ok_or (oci_json K state) JsonErr)) (\<lambda>payload.
            each (hook_step K p payload) hook_list))"

section \<open>What running hooks does\<close>

text \<open>The hooks started between two points, in order.\<close>

fun is_spawn :: "sysop \<Rightarrow> bool" where
  "is_spawn (Cmd (Spawn _ _ _ _)) = True"
| "is_spawn _ = False"

fun hook_call :: "sysop \<Rightarrow> bool" where
  "hook_call (Cmd (RunHelper _ _)) = False"
| "hook_call (Cmd _) = True"
| "hook_call (Time _) = True"
| "hook_call _ = False"

definition spawned :: "history \<Rightarrow> history" where
  "spawned h = filter is_spawn h"

lemma hook_spawn_spawns [simp]: "is_spawn (hook_spawn hk)" "hook_call (hook_spawn hk)"
  by (simp_all add: hook_spawn_def Let_def)

lemma kill_hook_calls: "\<not> P \<Longrightarrow> emits (\<lambda>op. hook_call op \<and> (is_spawn op \<longrightarrow> P)) (kill_hook K)"
  unfolding kill_hook_def by (intro emits_intros) auto

lemma poll_hook_calls: "emits (\<lambda>op. hook_call op \<and> \<not> is_spawn op) (poll_hook K d n)"
  by (induction K d n rule: poll_hook.induct) (auto intro!: emits_intros simp: kill_hook_def)

lemma after_spawn_calls:
  "emits (\<lambda>op. hook_call op \<and> \<not> is_spawn op)
    (seq_p (write_payload K payload)
     (bind_p (hook_deadline K hk) (\<lambda>deadline.
      bind_p (case deadline of
          None \<Rightarrow> io K (IoErr ''wait for the hook'') (Cmd ChildWait) r_wait
        | Some d \<Rightarrow> poll_hook K d (fuel K)) (\<lambda>status.
      if exit_success status then ret () else fail (Invalid ''exited with'')))))"
  unfolding write_payload_def hook_deadline_def kill_hook_def
  by (intro emits_intros poll_hook_calls) auto

lemma hook_one_calls: "emits hook_call (hook_one K payload hk)"
  unfolding hook_one_def
  by (intro emits_seq emits_do_op emits_mono [OF after_spawn_calls]) auto

lemma hooks_run_calls: "emits hook_call (hooks_run K hs p state)"
  unfolding hooks_run_def hook_step_def
  by (intro emits_intros hook_one_calls)

lemma spawned_no_spawn: "list_all (\<lambda>op. hook_call op \<and> \<not> is_spawn op) l \<Longrightarrow> spawned (l @ h) = spawned h"
  by (auto simp: spawned_def list_all_iff filter_empty_conv)

lemma hook_one_spawns:
  "wp (hook_one K payload hk) (\<lambda>_ h'. spawned h' = hook_spawn hk # spawned h)
     (\<lambda>_ h'. spawned h' = hook_spawn hk # spawned h) h"
  unfolding hook_one_def wp_seq [of "do_op K c op" for c op] wp_do_op
  by (auto simp: spawned_def split: option.split
      intro!: wp_mono [OF emits_wp [OF after_spawn_calls]] dest!: spawned_no_spawn [unfolded spawned_def])

lemma hook_step_spawns:
  "wp (hook_step K p payload hk) (\<lambda>_ h'. spawned h' = hook_spawn hk # spawned h)
     (\<lambda>_ h'. spawned h' = hook_spawn hk # spawned h) h"
  unfolding hook_step_def wp_on_result
  by (rule wp_mono [OF hook_one_spawns]) (simp_all add: wp_simps)

lemma each_step_spawns:
  "wp (each (hook_step K p payload) hks)
     (\<lambda>_ h'. spawned h' = rev (map hook_spawn hks) @ spawned h)
     (\<lambda>_ h'. \<exists>k \<le> length hks. spawned h' = rev (map hook_spawn (take k hks)) @ spawned h) h"
proof (induction hks arbitrary: h)
  case (Cons hk hks)
  show ?case
    unfolding each.simps wp_seq
  proof (rule wp_mono [OF hook_step_spawns])
    fix u h1 assume h1: "spawned h1 = hook_spawn hk # spawned h"
    show "wp (each (hook_step K p payload) hks)
       (\<lambda>_ h'. spawned h' = rev (map hook_spawn (hk # hks)) @ spawned h)
       (\<lambda>_ h'. \<exists>k \<le> length (hk # hks). spawned h' = rev (map hook_spawn (take k (hk # hks))) @ spawned h) h1"
      by (rule wp_mono [OF Cons.IH]) (use h1 in \<open>auto intro: exI [of _ "Suc _"]\<close>)
  next
    fix e h1 assume "spawned h1 = hook_spawn hk # spawned h"
    then show "\<exists>k \<le> length (hk # hks). spawned h1 = rev (map hook_spawn (take k (hk # hks))) @ spawned h"
      by (intro exI [of _ 1]) simp
  qed
qed (simp add: wp_simps)

definition phase_hooks :: "hooks option \<Rightarrow> hook_phase \<Rightarrow> hook list" where
  "phase_hooks hs p = flat (Option.bind hs (select_hooks p))"

lemma hooks_run_phase:
  "hooks_run K hs p state = (if phase_hooks hs p = [] then ret ()
     else bind_p (lift_res (ok_or (oci_json K state) JsonErr)) (\<lambda>payload.
       each (hook_step K p payload) (phase_hooks hs p)))"
  by (auto simp: hooks_run_def phase_hooks_def split: option.split)


definition plain_hook :: "string \<Rightarrow> hook" where
  "plain_hook path = \<lparr>ho_path = path, ho_args = None, ho_env = None, ho_timeout = None\<rparr>"

definition one_phase :: "hook list \<Rightarrow> hooks" where
  "one_phase hks = \<lparr>hk_prestart = None, hk_create_runtime = Some hks, hk_create_container = None,
     hk_start_container = None, hk_poststart = Some hks, hk_poststop = None\<rparr>"

definition some_oci_state :: oci_state where
  "some_oci_state = \<lparr>os_version = OCI_VERSION, os_id = ''c1'', os_status = Created, os_pid = Some 7,
     os_bundle = ''/b'', os_annotations = None\<rparr>"


lemma late_hooks_go_on:
  "\<not> is_fatal p \<Longrightarrow> wp (hooks_run K hs p state) (\<lambda>_ _. True)
     (\<lambda>e _. e = Diverged \<or> e = JsonErr \<and> oci_json K state = None) h"
proof -
  assume p: "\<not> is_fatal p"
  have step: "wp (hook_step K p payload hk) (\<lambda>_ _. True) (\<lambda>e _. e = Diverged) h" for payload hk h
    unfolding hook_step_def wp_on_result
    by (rule wp_mono [OF wp_true]) (auto simp: wp_simps p)
  have "wp (each (hook_step K p payload) hks) (\<lambda>_ _. True) (\<lambda>e _. e = Diverged) h" for payload hks h
    by (rule wp_each_inv) (simp_all add: step)
  then show ?thesis
    unfolding hooks_run_phase wp_simps
    by (auto simp: ok_or_def split: option.split elim: wp_mono)
qed

text \<open>
  Hooks of the two phases after the container's life never abort the operation: whatever a
  poststart or poststop hook does (fails to start, exits with an error, times out), running the
  phase succeeds. Only a state that cannot be serialised, or a hook that never ends, is different.
\<close>

theorem late_hooks_never_abort:
  "\<not> is_fatal p \<Longrightarrow> wp (hooks_run K hs p state) (\<lambda>_ _. True)
     (\<lambda>e _. e = Diverged \<or> e = JsonErr \<and> oci_json K state = None) h"
  by (rule late_hooks_go_on)

lemma late_hooks_never_abort_witness:
  "wp (hooks_run (granting (\<lambda>op r. r\<lparr>r_err := Some EPERM\<rparr>)) (Some (one_phase [plain_hook ''/a''])) Poststart some_oci_state)
     (\<lambda>_ _. True) (\<lambda>e _. e = Diverged \<or> e = JsonErr
        \<and> oci_json (granting (\<lambda>op r. r\<lparr>r_err := Some EPERM\<rparr>)) some_oci_state = None) []"
  by (rule late_hooks_never_abort) (simp add: is_fatal_def)

section \<open>A hanging hook is stopped\<close>

text \<open>
  A clock that the sleeps advance: after sleeping ten milliseconds it reads at least ten
  milliseconds more, and it never goes back.
\<close>

definition clock_reads :: "outside \<Rightarrow> history \<Rightarrow> int" where
  "clock_reads K h = r_num (answer K h (Time Now))"

definition sleeps_advance :: "outside \<Rightarrow> bool" where
  "sleeps_advance K \<longleftrightarrow> (\<forall>h l. clock_reads K h \<le> clock_reads K (l @ h))
     \<and> (\<forall>h l. clock_reads K h + 10000000 \<le> clock_reads K (l @ Time (SleepMs 10) # h))"

lemma poll_hook_returns:
  assumes clock: "sleeps_advance K"
    and n: "deadline - clock_reads K h \<le> (int n - 1) * 10000000"
  shows "wp (poll_hook K deadline n) (\<lambda>w _. w \<noteq> WStillAlive)
    (\<lambda>e h'. e \<noteq> Diverged \<and> (e = Invalid ''timed out'' \<longrightarrow> Cmd ChildKill \<in> set h')) h
    \<or> n = 0"
  using n
proof (induction n arbitrary: h)
  case (Suc n)
  let ?poll = "Cmd ChildTryWait"
  let ?later = "Time (SleepMs 10) # Time Now # ?poll # h"
  have fwd: "clock_reads K h \<le> clock_reads K (?poll # h)"
    using clock [unfolded sleeps_advance_def, THEN conjunct1, rule_format, of h "[?poll]"] by simp
  have adv: "clock_reads K h + 10000000 \<le> clock_reads K ?later"
    using clock [unfolded sleeps_advance_def, THEN conjunct2, rule_format, of "Time Now # ?poll # h" "[]"]
      clock [unfolded sleeps_advance_def, THEN conjunct1, rule_format, of h "[Time Now, ?poll]"] by simp
  have rest: "wp (poll_hook K deadline n) (\<lambda>w _. w \<noteq> WStillAlive)
      (\<lambda>e h'. e \<noteq> Diverged \<and> (e = Invalid ''timed out'' \<longrightarrow> Cmd ChildKill \<in> set h')) ?later"
    if "clock_reads K (?poll # h) < deadline"
  proof -
    have "n \<noteq> 0" using that fwd Suc.prems by (cases n) auto
    then show ?thesis using Suc.IH [of ?later] adv Suc.prems by (auto simp: algebra_simps)
  qed
  show ?case
    using rest
    by (auto simp: wp_simps kill_hook_def clock_reads_def split: option.split)
qed simp

text \<open>
  C35: a hook with a timeout cannot hang the runtime. On a clock that its own sleeps advance, polling
  a hook ends within one poll per ten milliseconds of the timeout, plus one: with that much fuel it
  never diverges, and when it gives up the hook was killed first.
\<close>

theorem hook_timeout_is_enforced:
  assumes "sleeps_advance K" "0 < seconds"
  shows "wp (poll_hook K (clock_reads K h + seconds * 1000000000) (nat (seconds * 100) + 1))
    (\<lambda>w _. w \<noteq> WStillAlive)
    (\<lambda>e h'. e \<noteq> Diverged \<and> (e = Invalid ''timed out'' \<longrightarrow> Cmd ChildKill \<in> set h')) h"
  using poll_hook_returns [OF assms(1), of "clock_reads K h + seconds * 1000000000" h "nat (seconds * 100) + 1"]
    assms(2) by simp

lemma hook_timeout_is_enforced_witness:
  "wp (poll_hook (granting (\<lambda>_ r. r)\<lparr>answer := (\<lambda>h _. plain_reply\<lparr>r_num := 10000000 * int (length h), r_wait := WStillAlive\<rparr>)\<rparr>)
       1000000000 (nat 100 + 1))
    (\<lambda>w _. w \<noteq> WStillAlive) (\<lambda>e h'. e \<noteq> Diverged \<and> (e = Invalid ''timed out'' \<longrightarrow> Cmd ChildKill \<in> set h')) []"
proof -
  let ?K = "granting (\<lambda>_ r. r)\<lparr>answer := (\<lambda>h _. plain_reply\<lparr>r_num := 10000000 * int (length h), r_wait := WStillAlive\<rparr>)\<rparr>"
  have "sleeps_advance ?K" by (simp add: sleeps_advance_def clock_reads_def)
  from hook_timeout_is_enforced [OF this, of 1 "[]"] show ?thesis by (simp add: clock_reads_def)
qed

end
