(* ===== verification/Fifo.thy ===== *)
theory Fifo
  imports Kernel
begin

text \<open>
  \<^verbatim>\<open>src/src/container/fifo.rs\<close>: the named pipe on which a created container waits for
  its start. A read of the pipe answers with the number of bytes and the byte read.
\<close>

definition HANDSHAKE :: nat where "HANDSHAKE = 48"

text \<open>\<^verbatim>\<open>0o622\<close>.\<close>

definition FIFO_MODE :: nat where "FIFO_MODE = 402"

definition fifo_create :: "outside \<Rightarrow> string \<Rightarrow> int prog" where
  "fifo_create K path =
     bind_p (ask K (Query (Exists path)) r_flag) (\<lambda>stale.
     seq_p (when_p stale (do_op K (IoErr ''remove a stale fifo'') (Fs (RmFile path))))
     (seq_p (do_op K (NixErr ''mkfifo'') (Fs (MkFifo path FIFO_MODE)))
     (seq_p (do_op K (IoErr ''chmod fifo'') (Fs (Chmod path FIFO_MODE)))
       (io K (NixErr ''open with O_PATH'') (Fd (OpenFd path OPath)) r_num))))"

definition fd_path :: "int \<Rightarrow> string" where
  "fd_path handle = ''/proc/self/fd/'' @ int_text handle"

definition fifo_park :: "outside \<Rightarrow> int \<Rightarrow> unit prog" where
  "fifo_park K handle =
     bind_p (io K (NixErr ''reopen the exec fifo'') (Fd (OpenFd (fd_path handle) OWrite)) r_num) (\<lambda>writer.
     do_op K (NixErr ''announce readiness on the exec fifo'') (Fd (FdWrite writer [char_of HANDSHAKE])))"

definition fifo_release :: "outside \<Rightarrow> string \<Rightarrow> unit prog" where
  "fifo_release K path =
     bind_p (ask K (Query (Exists path)) r_flag) (\<lambda>present.
     if \<not> present then fail (Invalid ''the exec fifo is gone, so the container was already started'')
     else bind_p (io K (NixErr ''open the exec fifo'') (Fd (OpenFd path ORead)) r_num) (\<lambda>reader.
       bind_p (io K (NixErr ''read the exec fifo handshake'') (Fd (FdRead reader)) id) (\<lambda>r.
       if r_num r = 0 then fail (InitFailed ''the container init closed the exec fifo without writing'')
       else if r_num2 r \<noteq> int HANDSHAKE then fail (SyncErr ''unexpected byte on the exec fifo'')
       else do_op K (IoErr ''remove the fifo so start cannot run twice'') (Fs (RmFile path)))))"

section \<open>Properties\<close>

text \<open>The calls of a release that succeeds, most recent first.\<close>

definition release_calls :: "string \<Rightarrow> int \<Rightarrow> sysop list" where
  "release_calls path reader =
     [Fs (RmFile path), Fd (FdRead reader), Fd (OpenFd path ORead), Query (Exists path)]"

text \<open>
  A container is started at most once. Releasing the pipe succeeds only after reading the
  handshake byte from it and removing it; when it is already gone the release fails at once without
  touching anything; and on every outcome the calls are an initial part of these four.
\<close>

theorem release_once:
  assumes "fifo_release K path h = (r, h')"
  shows "\<exists>reader. suffix h' (release_calls path reader @ h) \<and> suffix h h'
    \<and> (r = Inr () \<longrightarrow> h' = release_calls path reader @ h
        \<and> asked K h' (Fd (FdRead reader)) (\<lambda>a. r_num a \<noteq> 0 \<and> r_num2 a = int HANDSHAKE))
    \<and> (\<not> r_flag (answer K h (Query (Exists path))) \<longrightarrow> h' = Query (Exists path) # h \<and> r \<noteq> Inr ())"
proof -
  let ?reader = "r_num (answer K (Query (Exists path) # h) (Fd (OpenFd path ORead)))"
  have "wp (fifo_release K path)
     (\<lambda>_ h'. h' = release_calls path ?reader @ h \<and> r_flag (answer K h (Query (Exists path)))
        \<and> asked K h' (Fd (FdRead ?reader)) (\<lambda>a. r_num a \<noteq> 0 \<and> r_num2 a = int HANDSHAKE))
     (\<lambda>_ h'. suffix h' (release_calls path ?reader @ h) \<and> suffix h h'
        \<and> (\<not> r_flag (answer K h (Query (Exists path))) \<longrightarrow> h' = Query (Exists path) # h)) h"
    unfolding fifo_release_def wp_simps
    by (auto simp: wp_simps release_calls_def suffix_Cons split: option.split)
  then show ?thesis using assms by (cases r) (auto simp: wp_def suffixI)
qed

lemma release_once_witness:
  "\<exists>h'. fifo_release (granting (\<lambda>_ r. r\<lparr>r_num := 1, r_num2 := 48\<rparr>)) ''/run/c/exec.fifo'' [] = (Inr (), h') \<and> length h' = 4"
proof -
  let ?run = "fifo_release (granting (\<lambda>_ r. r\<lparr>r_num := 1, r_num2 := 48\<rparr>)) ''/run/c/exec.fifo'' []"
  have "fst ?run = Inr ()" by code_simp
  then obtain h' where run: "?run = (Inr (), h')" by (cases ?run) auto
  with release_once [OF run] show ?thesis by (auto simp: release_calls_def)
qed

text \<open>
  A created pipe can be opened by the container whatever the umask and whatever was at its path:
  on success its mode was set after it was made, a stale file was removed before, and the handle is
  one that does not count as an opener (so the init blocks until the start).
\<close>

theorem fifo_created_with_mode:
  "wp (fifo_create K path)
     (\<lambda>handle h'. \<exists>h0. h' = Fd (OpenFd path OPath) # Fs (Chmod path FIFO_MODE) # Fs (MkFifo path FIFO_MODE) # h0
        \<and> handle = r_num (answer K (tl h') (Fd (OpenFd path OPath)))
        \<and> (if r_flag (answer K h (Query (Exists path))) then h0 = Fs (RmFile path) # Query (Exists path) # h
           else h0 = Query (Exists path) # h))
     (\<lambda>_ _. True) h"
  unfolding fifo_create_def wp_simps by (auto split: option.split)

lemma park_announces:
  "ensures (fifo_park K handle) (\<lambda>h. \<exists>writer. asked K h (Fd (FdWrite writer [char_of HANDSHAKE])) (\<lambda>r. r_err r = None))"
  by (rule ensuresI) (auto simp: fifo_park_def wp_simps split: option.split)

end
