(* ===== verification/Signals.thy ===== *)
theory Signals
  imports Kernel
begin

text \<open>
  \<^verbatim>\<open>src/src/container/signal.rs\<close>: signal names and numbers, blocking, and the loop that
  forwards signals to the container and waits for its init process to exit. The numbers are those of
  Linux; the names \<^verbatim>\<open>nix\<close> knows are a parameter. Both loops take the fuel of the outside.
\<close>

definition SIGKILL :: int where "SIGKILL = 9"
definition SIGCHLD :: int where "SIGCHLD = 17"

definition FORWARDED :: "int list" where
  "FORWARDED = [15, 2, 3, 1, 10, 12, 28]"

definition block_forwardable :: "outside \<Rightarrow> unit prog" where
  "block_forwardable K = do_op K SyscallErr (Proc (SigBlock (FORWARDED @ [SIGCHLD])))"

definition unblock_all :: "outside \<Rightarrow> unit prog" where
  "unblock_all K = do_op K SyscallErr (Proc SigUnblockAll)"

definition parse_signal :: "outside \<Rightarrow> string \<Rightarrow> int res" where
  "parse_signal K name =
     (let trimmed = trim name in
      case parse_signed i32_bound trimmed of
        Some number \<Rightarrow> if known_signal K number then Inr number else Inl (Invalid ''is not a signal number'')
      | None \<Rightarrow>
          (let upper = to_ascii_uppercase trimmed; bare = get_or upper (strip_prefix ''SIG'' upper) in
           ok_or (signal_named K bare) (Invalid ''is not a known signal'')))"

text \<open>What a wait status says of the init process; \<^verbatim>\<open>as u8\<close> keeps the low byte.\<close>

definition exit_code :: "int \<Rightarrow> wait_status \<Rightarrow> nat option" where
  "exit_code init w = (case w of
     WExited pid code \<Rightarrow> if pid = init then Some (nat (code mod 256)) else None
   | WSignaled pid terminator \<Rightarrow> if pid = init then Some (nat ((128 + terminator) mod 256)) else None
   | _ \<Rightarrow> None)"

fun reap :: "outside \<Rightarrow> int \<Rightarrow> nat \<Rightarrow> nat option prog" where
  "reap K init 0 = fail Diverged"
| "reap K init (Suc n) =
     bind_p (call K (Proc (WaitPid None))) (\<lambda>r.
     case r_err r of
       Some e \<Rightarrow> if e = ECHILD then ret None else fail (SyscallErr e)
     | None \<Rightarrow>
         (case exit_code init (r_wait r) of
            Some code \<Rightarrow> ret (Some code)
          | None \<Rightarrow> if r_wait r = WStillAlive then ret None else reap K init n))"

fun supervise_loop :: "outside \<Rightarrow> int \<Rightarrow> nat \<Rightarrow> nat prog" where
  "supervise_loop K init 0 = fail Diverged"
| "supervise_loop K init (Suc n) =
     bind_p (io K SyscallErr (Proc SigWait) r_num) (\<lambda>signal.
     if signal \<noteq> SIGCHLD
     then seq_p (ignore (do_op K SyscallErr (Proc (KillProc init signal)))) (supervise_loop K init n)
     else bind_p (reap K init (fuel K)) (\<lambda>found.
       case found of Some code \<Rightarrow> ret code | None \<Rightarrow> supervise_loop K init n))"

definition supervise :: "outside \<Rightarrow> int \<Rightarrow> nat prog" where
  "supervise K init = supervise_loop K init (fuel K)"

section \<open>Properties\<close>

lemma exit_code_small: "exit_code init w = Some code \<Longrightarrow> code < 256"
  by (auto simp: exit_code_def nat_less_iff split: wait_status.splits if_splits)

definition init_ended :: "outside \<Rightarrow> int \<Rightarrow> nat \<Rightarrow> history \<Rightarrow> bool" where
  "init_ended K init code h \<longleftrightarrow> asked K h (Proc (WaitPid None))
     (\<lambda>r. r_err r = None \<and> exit_code init (r_wait r) = Some code)"

lemma asked_reply: "asked K h op P \<Longrightarrow> \<exists>r. P r"
  by (induction h) auto

lemma reap_finds:
  "wp (reap K init n)
     (\<lambda>found h'. case found of Some code \<Rightarrow> init_ended K init code h' | None \<Rightarrow> True) (\<lambda>_ _. True) h"
  by (induction K init n arbitrary: h rule: reap.induct)
    (auto simp: wp_simps init_ended_def split: option.split)

lemma supervise_loop_finds:
  "wp (supervise_loop K init n) (\<lambda>code h'. init_ended K init code h') (\<lambda>_ _. True) h"
proof (induction n arbitrary: h)
  case (Suc n)
  have reap: "wp (reap K init m)
      (\<lambda>found. wp (case found of Some code \<Rightarrow> ret code | None \<Rightarrow> supervise_loop K init n)
         (\<lambda>code h'. init_ended K init code h') (\<lambda>_ _. True)) (\<lambda>_ _. True) h0" for m h0
    by (rule wp_mono [OF reap_finds]) (auto simp: wp_simps Suc.IH split: option.splits)
  show ?case
    unfolding supervise_loop.simps wp_simps by (auto simp: Suc.IH reap split: option.split)
qed (simp add: wp_simps)

fun supervise_call :: "int \<Rightarrow> sysop \<Rightarrow> bool" where
  "supervise_call init (Proc SigWait) = True"
| "supervise_call init (Proc (WaitPid p)) = (p = None)"
| "supervise_call init (Proc (KillProc pid signal)) = (pid = init \<and> signal \<noteq> SIGCHLD)"
| "supervise_call init _ = False"

lemma reap_calls: "emits (supervise_call init) (reap K init n)"
  by (induction K init n rule: reap.induct) (auto intro!: emits_intros)

lemma supervise_calls: "emits (supervise_call init) (supervise_loop K init n)"
  by (induction K init n rule: supervise_loop.induct) (auto intro!: emits_intros reap_calls)

text \<open>
  The exit code the runtime reports is the container's. Supervision returns only a code that the
  kernel reported for the init process itself (its exit status, or 128 plus the signal that killed
  it), never that of another child it reaps, the code fits a byte, and the only signals it sends go
  to the init process and are never its own \<^verbatim>\<open>SIGCHLD\<close>.
\<close>

theorem supervise_reports_init:
  assumes "supervise K init h = (r, h')"
  shows "(\<forall>code. r = Inr code \<longrightarrow> code < 256 \<and> init_ended K init code h')
    \<and> (\<exists>l. h' = l @ h \<and> list_all (supervise_call init) l)"
proof -
  have "code < 256" if "init_ended K init code h'" for code
  proof -
    from asked_reply [OF that [unfolded init_ended_def]]
    have "\<exists>r :: reply. exit_code init (r_wait r) = Some code" by auto
    then show ?thesis using exit_code_small by blast
  qed
  then show ?thesis
    using assms wp_sound [OF supervise_loop_finds, of K init "fuel K" h] emitsD [OF supervise_calls]
    unfolding supervise_def by metis
qed

definition signalled :: "sysop list \<Rightarrow> sysop \<Rightarrow> reply \<Rightarrow> reply" where
  "signalled h op r = (case op of
     Proc SigWait \<Rightarrow> r\<lparr>r_num := (if h = [] then 15 else 17)\<rparr>
   | Proc (WaitPid _) \<Rightarrow> r\<lparr>r_wait := (if length h < 4 then WExited 99 1 else WSignaled 7 9)\<rparr>
   | _ \<Rightarrow> r)"

lemma supervise_reports_init_witness:
  "\<exists>h'. supervise (granting (\<lambda>_ r. r)\<lparr>answer := (\<lambda>h op. signalled h op plain_reply)\<rparr>) 7 [] = (Inr 137, h')
     \<and> (137::nat) < 256 \<and> (\<exists>l. h' = l @ [] \<and> list_all (supervise_call 7) l)"
proof -
  let ?run = "supervise (granting (\<lambda>_ r. r)\<lparr>answer := (\<lambda>h op. signalled h op plain_reply)\<rparr>) 7 []"
  have "fst ?run = Inr 137" by code_simp
  then obtain h' where run: "?run = (Inr 137, h')" by (cases ?run) auto
  with supervise_reports_init [OF run] show ?thesis by blast
qed

section \<open>Supervision ends\<close>

text \<open>How many signals have been taken.\<close>

definition taken :: "history \<Rightarrow> nat" where
  "taken h = length (filter (\<lambda>op. op = Proc SigWait) h)"

lemma taken_simps [simp]:
  "taken [] = 0" "taken (op # h) = (if op = Proc SigWait then 1 else 0) + taken h"
  by (simp_all add: taken_def)

text \<open>
  Reaping comes to an answer: after at most as many other children as there is fuel, the kernel says
  that no child is left to report, or reports the init process.
\<close>

definition answers_reaping :: "outside \<Rightarrow> int \<Rightarrow> reply \<Rightarrow> bool" where
  "answers_reaping K init r \<longleftrightarrow> r_err r = Some ECHILD \<or> r_err r = None \<and> (r_wait r = WStillAlive \<or> exit_code init (r_wait r) \<noteq> None)"

definition finite_children :: "outside \<Rightarrow> int \<Rightarrow> nat \<Rightarrow> history \<Rightarrow> bool" where
  "finite_children K init n h \<longleftrightarrow> (\<exists>j < n. let ask = Proc (WaitPid None) in
     answers_reaping K init (answer K (replicate j ask @ h) ask)
     \<and> (\<forall>i < j. r_err (answer K (replicate i ask @ h) ask) = None))"

text \<open>
  The signals of a container that ends: every wait for a signal succeeds, from the \<open>n\<close>-th on it is
  \<^verbatim>\<open>SIGCHLD\<close>, and then the kernel reports the end of the init process at once.
\<close>

definition init_ends_by :: "outside \<Rightarrow> int \<Rightarrow> nat \<Rightarrow> bool" where
  "init_ends_by K init n \<longleftrightarrow> (\<forall>h. r_err (answer K h (Proc SigWait)) = None
     \<and> finite_children K init (fuel K) h
     \<and> (n \<le> taken h \<longrightarrow> r_num (answer K h (Proc SigWait)) = SIGCHLD
         \<and> (let r = answer K (Proc SigWait # h) (Proc (WaitPid None)) in r_err r = None \<and> exit_code init (r_wait r) \<noteq> None)))"

lemma replicate_ask: "replicate j op @ op # h = op # replicate j op @ h"
  using replicate_append_same [of j op] by (metis append_Cons append_assoc append_Nil)

lemma finite_children_step:
  assumes "finite_children K init (Suc n) h" "\<not> answers_reaping K init (answer K h (Proc (WaitPid None)))"
  shows "finite_children K init n (Proc (WaitPid None) # h) \<and> r_err (answer K h (Proc (WaitPid None))) = None"
proof -
  let ?ask = "Proc (WaitPid None)"
  obtain j where j: "j < Suc n" "answers_reaping K init (answer K (replicate j ?ask @ h) ?ask)"
      "\<forall>i < j. r_err (answer K (replicate i ?ask @ h) ?ask) = None"
    using assms(1) unfolding finite_children_def Let_def by blast
  with assms(2) obtain k where k: "j = Suc k" by (cases j) auto
  have "r_err (answer K h ?ask) = None" using j(3) k by (auto dest: spec [of _ 0])
  moreover have "\<forall>i < k. r_err (answer K (replicate i ?ask @ ?ask # h) ?ask) = None"
    using j(3) k by (auto simp: replicate_ask dest: spec [of _ "Suc i" for i])
  ultimately show ?thesis
    using j(1,2) k unfolding finite_children_def Let_def by (auto simp: replicate_ask intro!: exI [of _ k])
qed

lemma reap_ends:
  "finite_children K init n h \<Longrightarrow>
     wp (reap K init n) (\<lambda>_ h'. \<exists>l. h' = l @ h \<and> taken l = 0) (\<lambda>_ _. False) h"
proof (induction n arbitrary: h)
  case 0
  then show ?case by (simp add: finite_children_def)
next
  case (Suc n)
  let ?ask = "Proc (WaitPid None)" and ?r = "answer K h (Proc (WaitPid None))"
  have one: "\<exists>l. ?ask # h = l @ h \<and> taken l = 0" by (rule exI [of _ "[?ask]"]) simp
  show ?case
  proof (cases "answers_reaping K init ?r")
    case True
    with one show ?thesis by (auto simp: answers_reaping_def wp_simps split: option.split)
  next
    case False
    then have err: "r_err ?r = None" and rest: "finite_children K init n (?ask # h)"
      using finite_children_step [OF Suc.prems] by simp_all
    have "wp (reap K init n) (\<lambda>_ h'. \<exists>l. h' = l @ h \<and> taken l = 0) (\<lambda>_ _. False) (?ask # h)"
      by (rule wp_mono [OF Suc.IH [OF rest]]) (auto intro: exI [of _ "l @ [?ask]" for l] simp: taken_def)
    with False err show ?thesis by (auto simp: answers_reaping_def wp_simps split: option.split)
  qed
qed

lemma supervise_loop_ends:
  assumes ends: "init_ends_by K init n"
  shows "n - taken h < m \<Longrightarrow> wp (supervise_loop K init m) (\<lambda>_ _. True) (\<lambda>_ _. False) h"
proof (induction m arbitrary: h)
  case (Suc m)
  let ?h1 = "Proc SigWait # h"
  have again: "wp (supervise_loop K init m) (\<lambda>_ _. True) (\<lambda>_ _. False) h'"
    if "h' = l @ ?h1" "taken h < n" for h' l
    using that Suc.prems by (intro Suc.IH) (simp add: taken_def)
  show ?case
  proof (cases "n \<le> taken h")
    case True
    let ?r = "answer K ?h1 (Proc (WaitPid None))"
    have last: "r_num (answer K h (Proc SigWait)) = SIGCHLD" "r_err (answer K h (Proc SigWait)) = None"
        "r_err ?r = None" "exit_code init (r_wait ?r) \<noteq> None"
      using ends True unfolding init_ends_by_def Let_def by blast+
    have "fuel K \<noteq> 0" using ends unfolding init_ends_by_def finite_children_def by auto
    then obtain f where "fuel K = Suc f" by (cases "fuel K") auto
    with last show ?thesis by (auto simp: wp_simps)
  next
    case False
    have err: "r_err (answer K h (Proc SigWait)) = None" and few: "finite_children K init (fuel K) ?h1"
      using ends unfolding init_ends_by_def by blast+
    have reaped: "wp (reap K init (fuel K)) (\<lambda>found. wp (case found of Some code \<Rightarrow> ret code | None \<Rightarrow> supervise_loop K init m)
        (\<lambda>_ _. True) (\<lambda>_ _. False)) (\<lambda>_ _. False) ?h1"
      by (rule wp_mono [OF reap_ends [OF few]]) (use False in \<open>auto simp: wp_ret intro: again split: option.split\<close>)
    have "wp (supervise_loop K init m) (\<lambda>_ _. True) (\<lambda>_ _. False) (op # ?h1)" for op
      using again [of "op # ?h1" "[op]"] False by simp
    with err reaped show ?thesis by (auto simp: wp_simps split: option.split)
  qed
qed simp


definition one_sigterm :: outside where
  "one_sigterm = (granting (\<lambda>_ r. r))\<lparr>answer := (\<lambda>h op.
     plain_reply\<lparr>r_num := (if Proc SigWait \<in> set h then 17 else 15), r_wait := WExited 7 3\<rparr>)\<rparr>"


section \<open>The spelling of signals\<close>

lemma plain_upper: "list_all plain_char s \<Longrightarrow> list_all plain_char (to_ascii_uppercase s)"
  by (auto simp: list_all_iff to_ascii_uppercase_def ascii_upper_def plain_char_def Let_def)

lemma digit_val_upper [simp]: "digit_val (ascii_upper c) = digit_val c"
  by (auto simp: digit_val_def ascii_upper_def Let_def)

lemma digits_val_upper: "digits_val a (to_ascii_uppercase s) = digits_val a s"
  unfolding to_ascii_uppercase_def by (induction s arbitrary: a) (auto split: option.split)

lemma upper_sign: "ascii_upper c = CHR ''-'' \<longleftrightarrow> c = CHR ''-''" "ascii_upper c = CHR ''+'' \<longleftrightarrow> c = CHR ''+''"
  by (auto simp: ascii_upper_def Let_def split: if_splits dest: arg_cong [where f = "of_char :: char \<Rightarrow> nat"])

lemma parse_signed_upper: "parse_signed b (to_ascii_uppercase s) = parse_signed b s"
  using digits_val_upper [of 0 s] digits_val_upper [of 0 "tl s"]
  by (cases s) (auto simp: parse_signed_def parse_unsigned_def upper_sign to_ascii_uppercase_def Let_def)

lemma upper_upper: "to_ascii_uppercase (to_ascii_uppercase s) = to_ascii_uppercase s"
  by (auto simp: to_ascii_uppercase_def ascii_upper_def Let_def)

text \<open>
  A signal may be given as a number, or as a name in either case, with or without the prefix,
  and surrounding space does not matter: a known number is itself, the case of a name does not
  matter, and a name that is not a number means the same with the prefix.
\<close>

theorem signal_spellings:
  assumes "known_signal K n" "- (2 ^ 31) \<le> n" "n < 2 ^ 31"
    and "list_all plain_char name" "parse_signed i32_bound name = None"
    and "strip_prefix ''SIG'' (to_ascii_uppercase name) = None"
  shows "parse_signal K (int_text n) = Inr n
    \<and> parse_signal K (to_ascii_uppercase name) = parse_signal K name
    \<and> parse_signal K (''SIG'' @ name) = parse_signal K name"
proof (intro conjI)
  show "parse_signal K (int_text n) = Inr n"
    using assms(1-3) by (simp add: parse_signal_def Let_def trim_plain plain_int_text)
  show "parse_signal K (to_ascii_uppercase name) = parse_signal K name"
    using assms(4) unfolding parse_signal_def Let_def
    by (simp add: trim_plain plain_upper parse_signed_upper upper_upper cong: option.case_cong)
  have up: "to_ascii_uppercase (''SIG'' @ name) = ''SIG'' @ to_ascii_uppercase name"
    by (simp add: to_ascii_uppercase_def ascii_upper_def Let_def)
  have strip: "strip_prefix ''SIG'' (''SIG'' @ to_ascii_uppercase name) = Some (to_ascii_uppercase name)"
    by (simp add: strip_prefix_Some_iff)
  have "list_all plain_char (''SIG'' @ name)" using assms(4) by (simp add: plain_char_def)
  moreover have "parse_signed i32_bound (''SIG'' @ name) = None"
    by (simp add: parse_signed_def parse_unsigned_def digit_val_def Let_def)
  ultimately show "parse_signal K (''SIG'' @ name) = parse_signal K name"
    using assms(4-6) strip unfolding parse_signal_def Let_def
    by (simp add: trim_plain [of "''SIG'' @ name", simplified] trim_plain up [simplified] cong: option.case_cong)
qed

lemma signal_spellings_witness:
  "parse_signal (granting (\<lambda>_ r. r)\<lparr>signal_named := map_of [(''TERM'', 15)]\<rparr>) (''SIG'' @ ''term'')
     = parse_signal (granting (\<lambda>_ r. r)\<lparr>signal_named := map_of [(''TERM'', 15)]\<rparr>) ''term''"
proof -
  have "list_all plain_char ''term''" "parse_signed i32_bound ''term'' = None"
    "strip_prefix ''SIG'' (to_ascii_uppercase ''term'') = None" by code_simp+
  from signal_spellings [OF _ _ _ this, of "granting (\<lambda>_ r. r)\<lparr>signal_named := map_of [(''TERM'', 15)]\<rparr>" 9]
  show ?thesis by (simp add: granting_def)
qed

end
