(* ===== verification/Process.thy ===== *)
theory Process
  imports Kernel
begin

text \<open>
  What the container's first process is allowed: \<^verbatim>\<open>src/src/container/process.rs\<close> (limits,
  umask, user and groups) and \<^verbatim>\<open>src/src/container/capabilities.rs\<close>. A capability is its
  name; which names the \<^verbatim>\<open>caps\<close> library knows is a parameter.
\<close>

section \<open>Limits and identity\<close>

text \<open>\<^verbatim>\<open>nix\<close>'s resources have the names of the specification's types, so every one maps to itself.\<close>

definition map_resource :: "rlimit_type \<Rightarrow> rlimit_type option" where
  "map_resource kind = Some kind"

definition apply_limits :: "outside \<Rightarrow> process \<Rightarrow> unit prog" where
  "apply_limits K p = each (\<lambda>r.
     bind_p (lift_res (ok_or (map_resource (rl_typ r)) (OutOfScope ''a POSIX rlimit this platform does not expose through nix''))) (\<lambda>resource.
     do_op K (NixErr ''setrlimit'') (Cred (SetRlimit resource (rl_soft r) (rl_hard r))))) (flat (pr_rlimits p))"

definition apply_oom_score_adj :: "outside \<Rightarrow> process \<Rightarrow> unit prog" where
  "apply_oom_score_adj K p = given (pr_oom_score_adj p) (\<lambda>score.
     do_op K (IoErr ''write oom_score_adj'') (Fs (WriteFile ''/proc/self/oom_score_adj'' (int_text score))))"

definition apply_umask :: "outside \<Rightarrow> process \<Rightarrow> unit prog" where
  "apply_umask K p = given (us_umask (pr_user p)) (\<lambda>mask.
     ask K (Cred (Umask (mask mod 4096))) (\<lambda>_. ()))"

definition invalid :: "string \<Rightarrow> errno \<Rightarrow> error" where
  "invalid m _ = Invalid m"

definition keep_caps_across_setuid :: "outside \<Rightarrow> bool \<Rightarrow> unit prog" where
  "keep_caps_across_setuid K keep = do_op K (invalid ''prctl(PR_SET_KEEPCAPS)'') (Cred (KeepCaps keep))"

definition set_no_new_privs :: "outside \<Rightarrow> unit prog" where
  "set_no_new_privs K = do_op K (invalid ''prctl(PR_SET_NO_NEW_PRIVS)'') (Cred NoNewPrivs)"

definition drop_privileges :: "outside \<Rightarrow> process \<Rightarrow> unit prog" where
  "drop_privileges K p =
     (let user = pr_user p in
      bind_p (ask K (Cred GetEuid) (\<lambda>r. r_num r = 0 \<and> us_uid user \<noteq> 0)) (\<lambda>leaving_root.
      seq_p (do_op K (NixErr ''setgroups'') (Cred (SetGroups (flat (us_additional_gids user)))))
      (seq_p (when_p leaving_root (keep_caps_across_setuid K True))
      (seq_p (do_op K (NixErr ''setgid'') (Cred (SetGid (us_gid user))))
      (seq_p (do_op K (NixErr ''setuid'') (Cred (SetUid (us_uid user))))
      (when_p leaving_root (keep_caps_across_setuid K False)))))))"

section \<open>Capabilities\<close>

definition cap_parse :: "outside \<Rightarrow> string list option \<Rightarrow> string list res" where
  "cap_parse K names = map_res (\<lambda>name. if known_cap K name then Inr name
     else Inl (Invalid ''process.capabilities lists a capability this kernel's set does not contain'')) (flat names)"

definition drop_bounding :: "outside \<Rightarrow> capabilities \<Rightarrow> unit prog" where
  "drop_bounding K c =
     bind_p (lift_res (cap_parse K (ca_bounding c))) (\<lambda>wanted.
     bind_p (io K (invalid ''read the bounding capability set'') (Cap (CapsRead CapBounding)) r_list) (\<lambda>current.
     each (\<lambda>cap. do_op K (invalid ''drop a capability from the bounding set'') (Cap (CapsDrop CapBounding cap)))
       (filter (\<lambda>cap. cap \<notin> set wanted) current)))"

definition caps_set :: "outside \<Rightarrow> cap_set \<Rightarrow> string list \<Rightarrow> unit prog" where
  "caps_set K which v = do_op K (invalid ''set a capability set'') (Cap (CapsSet which v))"

definition raise_ambient :: "outside \<Rightarrow> string list \<Rightarrow> string list \<Rightarrow> string \<Rightarrow> unit prog" where
  "raise_ambient K permitted inheritable cap =
     (if cap \<notin> set permitted \<or> cap \<notin> set inheritable
      then fail (Invalid ''ambient capability not in both permitted and inheritable'')
      else do_op K (invalid ''raise into ambient'') (Cap (CapsRaise CapAmbient cap)))"

definition apply_capabilities :: "outside \<Rightarrow> capabilities \<Rightarrow> unit prog" where
  "apply_capabilities K c =
     bind_p (lift_res (cap_parse K (ca_permitted c))) (\<lambda>permitted.
     bind_p (lift_res (cap_parse K (ca_effective c))) (\<lambda>effective.
     bind_p (lift_res (cap_parse K (ca_inheritable c))) (\<lambda>inheritable.
     bind_p (lift_res (cap_parse K (ca_ambient c))) (\<lambda>ambient.
     if \<not> set effective \<subseteq> set permitted
     then fail (Invalid ''process.capabilities.effective is not a subset of permitted'')
     else seq_p (caps_set K CapEffective effective)
       (seq_p (caps_set K CapPermitted permitted)
       (seq_p (caps_set K CapInheritable inheritable)
       (seq_p (do_op K (invalid ''clear the ambient capability set'') (Cap (CapsClear CapAmbient)))
       (each (raise_ambient K permitted inheritable) ambient))))))))"

definition effective_now :: "outside \<Rightarrow> string list prog" where
  "effective_now K = io K (invalid ''read the effective capability set'') (Cap (CapsRead CapEffective)) r_list"

section \<open>The order of giving up privileges\<close>

definition privilege_calls :: "bool \<Rightarrow> user \<Rightarrow> sysop list" where
  "privilege_calls leaving_root user =
     [Cred GetEuid, Cred (SetGroups (flat (us_additional_gids user)))]
   @ (if leaving_root then [Cred (KeepCaps True)] else [])
   @ [Cred (SetGid (us_gid user)), Cred (SetUid (us_uid user))]
   @ (if leaving_root then [Cred (KeepCaps False)] else [])"

text \<open>
  C21: privileges are given up in the only order that works: supplementary groups, then the group,
  then the user, because after \<^verbatim>\<open>setuid\<close> no group can change. When root is left,
  capabilities are kept across the change and the keeping is switched off again afterwards; on
  failure the calls made are an initial part of that sequence.
\<close>

theorem privileges_dropped_in_order:
  assumes "drop_privileges K p h = (r, h')"
  shows "\<exists>leaving. leaving = (r_num (answer K h (Cred GetEuid)) = 0 \<and> us_uid (pr_user p) \<noteq> 0)
    \<and> suffix h' (rev (privilege_calls leaving (pr_user p)) @ h) \<and> suffix h h'
    \<and> (r = Inr () \<longrightarrow> h' = rev (privilege_calls leaving (pr_user p)) @ h)"
proof -
  let ?u = "pr_user p"
  let ?leaving = "r_num (answer K h (Cred GetEuid)) = 0 \<and> us_uid ?u \<noteq> 0"
  have rest: "wp (seq_p (do_op K (NixErr ''setgroups'') (Cred (SetGroups (flat (us_additional_gids ?u)))))
      (seq_p (when_p b (keep_caps_across_setuid K True))
      (seq_p (do_op K (NixErr ''setgid'') (Cred (SetGid (us_gid ?u))))
      (seq_p (do_op K (NixErr ''setuid'') (Cred (SetUid (us_uid ?u))))
      (when_p b (keep_caps_across_setuid K False))))))
     (\<lambda>_ h'. h' = rev (privilege_calls b ?u) @ h)
     (\<lambda>_ h'. suffix h' (rev (privilege_calls b ?u) @ h) \<and> suffix h h') (Cred GetEuid # h)" for b
    unfolding keep_caps_across_setuid_def wp_simps privilege_calls_def
    by (cases b) (simp_all add: suffix_Cons split: option.split)
  have "wp (drop_privileges K p)
     (\<lambda>_ h'. h' = rev (privilege_calls ?leaving ?u) @ h)
     (\<lambda>_ h'. suffix h' (rev (privilege_calls ?leaving ?u) @ h) \<and> suffix h h') h"
    unfolding drop_privileges_def Let_def wp_bind wp_ask by (rule rest)
  then show ?thesis using assms by (cases r) (auto simp: wp_def suffixI)
qed

definition user_1000 :: process where
  "user_1000 = \<lparr>pr_terminal = None, pr_user = \<lparr>us_uid = 1000, us_gid = 1000, us_umask = None, us_additional_gids = Some [7]\<rparr>,
     pr_args = Some [''sh''], pr_env = None, pr_cwd = ''/'', pr_capabilities = None,
     pr_rlimits = None, pr_no_new_privileges = Some True, pr_oom_score_adj = None\<rparr>"

lemma privileges_dropped_in_order_witness:
  "\<exists>h'. drop_privileges (granting (\<lambda>_ r. r)) user_1000 [] = (Inr (), h')
     \<and> h' = rev [Cred GetEuid, Cred (SetGroups [7]), Cred (KeepCaps True), Cred (SetGid 1000), Cred (SetUid 1000), Cred (KeepCaps False)]"
proof -
  let ?run = "drop_privileges (granting (\<lambda>_ r. r)) user_1000 []"
  have "fst ?run = Inr ()" by code_simp
  then obtain h' where run: "?run = (Inr (), h')" by (cases ?run) auto
  from privileges_dropped_in_order [OF run] run show ?thesis
    by (auto simp: privilege_calls_def granting_def plain_reply_def user_1000_def)
qed

section \<open>What capabilities are left\<close>

abbreviation done_cap :: "outside \<Rightarrow> history \<Rightarrow> cap_op \<Rightarrow> bool" where
  "done_cap K h op \<equiv> asked K h (Cap op) (\<lambda>r. r_err r = None)"

lemma cap_parse_Inr: "cap_parse K names = Inr caps \<longleftrightarrow> caps = flat names \<and> list_all (known_cap K) (flat names)"
proof -
  have "map_res (\<lambda>name. if known_cap K name then Inr name else Inl e) xs = Inr caps
      \<longleftrightarrow> caps = xs \<and> list_all (known_cap K) xs" for xs e
    by (induction xs arbitrary: caps) (auto simp: result_simps)
  then show ?thesis by (simp add: cap_parse_def)
qed

definition bounding_reduced :: "outside \<Rightarrow> capabilities \<Rightarrow> history \<Rightarrow> bool" where
  "bounding_reduced K c h \<longleftrightarrow> (\<exists>current.
     asked K h (Cap (CapsRead CapBounding)) (\<lambda>r. r_err r = None \<and> r_list r = current)
     \<and> (\<forall>cap \<in> set current. cap \<in> set (flat (ca_bounding c)) \<or> done_cap K h (CapsDrop CapBounding cap)))"

lemma drop_bounding_reduces: "ensures (drop_bounding K c) (bounding_reduced K c)"
proof (rule ensuresI)
  fix h
  have drops: "wp (each (\<lambda>cap. do_op K f (Cap (CapsDrop CapBounding cap))) caps)
     (\<lambda>_ h'. (\<exists>l. h' = l @ h0) \<and> (\<forall>cap \<in> set caps. done_cap K h' (CapsDrop CapBounding cap))) (\<lambda>_ _. True) h0"
    for caps f h0
    by (rule wp_each_all) (auto simp: wp_simps split: option.split)
  have "wp (each (\<lambda>cap. do_op K f (Cap (CapsDrop CapBounding cap))) (filter (\<lambda>cap. cap \<notin> set wanted) current))
     (\<lambda>_. bounding_reduced K c) (\<lambda>_ _. True) (Cap (CapsRead CapBounding) # h0)"
    if "wanted = flat (ca_bounding c)" "r_err (answer K h0 (Cap (CapsRead CapBounding))) = None"
      "r_list (answer K h0 (Cap (CapsRead CapBounding))) = current" for wanted current f h0
    by (rule wp_mono [OF drops])
      (use that asked_append [of K "Cap (CapsRead CapBounding) # h0" "Cap (CapsRead CapBounding)"
          "\<lambda>r. r_err r = None \<and> r_list r = current"] in \<open>auto simp: bounding_reduced_def\<close>)
  then show "wp (drop_bounding K c) (\<lambda>_. bounding_reduced K c) (\<lambda>_ _. True) h"
    unfolding drop_bounding_def wp_simps
    by (auto dest: cap_parse_Inr [THEN iffD1, THEN conjunct1] split: option.split sum.split)
qed

definition capabilities_applied :: "outside \<Rightarrow> capabilities \<Rightarrow> history \<Rightarrow> bool" where
  "capabilities_applied K c h \<longleftrightarrow>
     done_cap K h (CapsSet CapEffective (flat (ca_effective c)))
     \<and> done_cap K h (CapsSet CapPermitted (flat (ca_permitted c)))
     \<and> done_cap K h (CapsSet CapInheritable (flat (ca_inheritable c)))
     \<and> done_cap K h (CapsClear CapAmbient)
     \<and> (\<forall>cap \<in> set (flat (ca_ambient c)). done_cap K h (CapsRaise CapAmbient cap))
     \<and> set (flat (ca_effective c)) \<subseteq> set (flat (ca_permitted c))
     \<and> set (flat (ca_ambient c)) \<subseteq> set (flat (ca_permitted c)) \<inter> set (flat (ca_inheritable c))"

lemma stable_caps [intro]: "stable (bounding_reduced K c)" "stable (capabilities_applied K c)"
  by (auto simp: stable_def bounding_reduced_def capabilities_applied_def intro: asked_append)

lemma apply_capabilities_applies: "ensures (apply_capabilities K c) (capabilities_applied K c)"
proof (rule ensuresI)
  fix h
  let ?raised = "\<lambda>p i caps h. \<forall>cap \<in> set caps. done_cap K h (CapsRaise CapAmbient cap) \<and> cap \<in> set p \<and> cap \<in> set i"
  have raise: "wp (each (raise_ambient K p i) caps)
     (\<lambda>_ h'. (\<exists>l. h' = l @ h0) \<and> ?raised p i caps h') (\<lambda>_ _. True) h0" for p i caps h0
    by (rule wp_each_all) (auto simp: wp_simps raise_ambient_def split: option.split)
  have use_raise: "wp (each (raise_ambient K p i) caps) Q (\<lambda>_ _. True) h0"
    if "\<And>l. ?raised p i caps (l @ h0) \<Longrightarrow> Q () (l @ h0)" for p i caps Q h0
    by (rule wp_mono [OF raise]) (use that in auto)
  show "wp (apply_capabilities K c) (\<lambda>_. capabilities_applied K c) (\<lambda>_ _. True) h"
  proof (cases "list_all (\<lambda>names. list_all (known_cap K) (flat names))
      [ca_permitted c, ca_effective c, ca_inheritable c, ca_ambient c]")
    case True
    then have parse: "cap_parse K (ca_permitted c) = Inr (flat (ca_permitted c))"
      "cap_parse K (ca_effective c) = Inr (flat (ca_effective c))"
      "cap_parse K (ca_inheritable c) = Inr (flat (ca_inheritable c))"
      "cap_parse K (ca_ambient c) = Inr (flat (ca_ambient c))"
      by (simp_all add: cap_parse_Inr)
    show ?thesis
      unfolding apply_capabilities_def wp_simps parse sum.case caps_set_def
      by (auto split: option.split intro!: use_raise simp: capabilities_applied_def asked_append)
  next
    case False
    then have "\<exists>e. cap_parse K (ca_permitted c) = Inl e \<or> cap_parse K (ca_effective c) = Inl e
        \<or> cap_parse K (ca_inheritable c) = Inl e \<or> cap_parse K (ca_ambient c) = Inl e"
      using cap_parse_Inr by (simp, metis sumE)
    then show ?thesis
      unfolding apply_capabilities_def wp_simps by (auto split: sum.split)
  qed
qed


end
