(* ===== verification/Seccomp.thy ===== *)
theory Seccomp
  imports Process
begin

text \<open>
  \<^verbatim>\<open>src/src/container/seccomp.rs\<close>: translating the seccomp section of a specification into
  a \<^verbatim>\<open>libseccomp\<close> filter and loading it. The names of actions, attributes and architectures
  are the library's; which system calls it knows is a parameter.
\<close>

definition seccomp_action :: "seccomp_action \<Rightarrow> nat option \<Rightarrow> scmp_action res" where
  "seccomp_action requested errno_ret = (case requested of
     ScmpActKill \<Rightarrow> Inr AKillThread
   | ScmpActKillThread \<Rightarrow> Inr AKillThread
   | ScmpActKillProcess \<Rightarrow> Inr AKillProcess
   | ScmpActTrap \<Rightarrow> Inr ATrap
   | ScmpActErrno \<Rightarrow> Inr (AErrno (of_nat (get_or 1 errno_ret)))
   | ScmpActTrace \<Rightarrow> Inr (ATrace (of_nat (get_or 0 errno_ret)))
   | ScmpActAllow \<Rightarrow> Inr AAllow
   | ScmpActLog \<Rightarrow> Inr ALog
   | ScmpActNotify \<Rightarrow> Inl (OutOfScope ''SCMP_ACT_NOTIFY''))"

definition architecture :: "seccomp_arch \<Rightarrow> seccomp_arch res" where
  "architecture arch = (case arch of
     ScmpArchOther _ \<Rightarrow> Inl (Invalid ''seccomp architecture has no libseccomp equivalent'')
   | _ \<Rightarrow> Inr arch)"

definition comparator :: "seccomp_arg \<Rightarrow> (nat \<times> scmp_op \<times> nat) res" where
  "comparator arg =
     (if sa_index arg \<ge> u32_bound then Inl (Invalid ''seccomp arg index is out of range'')
      else if sa_index arg > 5 then Inl (Invalid ''seccomp arg index is out of range; a syscall has at most six arguments'')
      else Inr (sa_index arg,
        (case sa_op arg of
           CmpNe \<Rightarrow> OpNe | CmpLt \<Rightarrow> OpLt | CmpLe \<Rightarrow> OpLe | CmpEq \<Rightarrow> OpEq | CmpGe \<Rightarrow> OpGe | CmpGt \<Rightarrow> OpGt
         | CmpMaskedEq \<Rightarrow> OpMaskedEq (get_or 0 (sa_value_two arg))),
        sa_value arg))"

fun filter_attr :: "seccomp_flag \<Rightarrow> string" where
  "filter_attr FlagLog = ''CtlLog''"
| "filter_attr FlagTsync = ''CtlTsync''"
| "filter_attr FlagSpecAllow = ''CtlSsb''"
| "filter_attr FlagWaitKillableRecv = ''CtlWaitkill''"

text \<open>
  One name of one rule; the result counts the rules added. A rule that restates the default action
  is refused by the library and left out.
\<close>

definition add_name :: "outside \<Rightarrow> scmp_action \<Rightarrow> scmp_action \<Rightarrow> seccomp_syscall \<Rightarrow> string \<Rightarrow> nat prog" where
  "add_name K dflt verdict rule name =
     (if \<not> known_syscall K name then ret 0
      else bind_p (lift_res (map_res comparator (flat (sy_args rule)))) (\<lambda>comparators.
        bind_p (call K (Sc (ScAddRule verdict name comparators))) (\<lambda>r.
        case r_err r of
          None \<Rightarrow> ret 1
        | Some e \<Rightarrow> if verdict = dflt \<and> e = EACCES then ret 0
                    else fail (Invalid ''add a seccomp rule''))))"

fun add_names :: "outside \<Rightarrow> scmp_action \<Rightarrow> scmp_action \<Rightarrow> seccomp_syscall \<Rightarrow> string list \<Rightarrow> nat prog" where
  "add_names K dflt verdict rule [] = ret 0"
| "add_names K dflt verdict rule (name # names) =
     bind_p (add_name K dflt verdict rule name) (\<lambda>n.
     bind_p (add_names K dflt verdict rule names) (\<lambda>m. ret (n + m)))"

fun add_rules :: "outside \<Rightarrow> scmp_action \<Rightarrow> seccomp_syscall list \<Rightarrow> nat prog" where
  "add_rules K dflt [] = ret 0"
| "add_rules K dflt (rule # rules) =
     bind_p (lift_res (seccomp_action (sy_action rule) (sy_errno_ret rule))) (\<lambda>verdict.
     bind_p (add_names K dflt verdict rule (sy_names rule)) (\<lambda>n.
     bind_p (add_rules K dflt rules) (\<lambda>m. ret (n + m))))"

definition seccomp_build :: "outside \<Rightarrow> seccomp \<Rightarrow> nat prog" where
  "seccomp_build K s =
     bind_p (lift_res (seccomp_action (se_default_action s) (se_default_errno_ret s))) (\<lambda>dflt.
     seq_p (do_op K (invalid ''create a seccomp filter'') (Sc (ScNew dflt)))
     (seq_p (each (\<lambda>arch. bind_p (lift_res (architecture arch)) (\<lambda>mapped.
          do_op K (invalid ''add seccomp architecture'') (Sc (ScAddArch mapped)))) (flat (se_architectures s)))
     (seq_p (do_op K (invalid ''clear the seccomp filter's no-new-privs bit'') (Sc (ScSetAttr ''CtlNnp'' 0)))
     (seq_p (each (\<lambda>flag. do_op K (invalid ''set seccomp flag'') (Sc (ScSetAttr (filter_attr flag) 1))) (flat (se_flags s)))
     (add_rules K dflt (flat (se_syscalls s)))))))"

definition seccomp_apply :: "outside \<Rightarrow> seccomp \<Rightarrow> nat prog" where
  "seccomp_apply K s =
     bind_p (seccomp_build K s) (\<lambda>rules.
     seq_p (do_op K (invalid ''load the seccomp filter'') (Sc ScLoad)) (ret rules))"

section \<open>The loaded filter is complete\<close>

abbreviation done_sc :: "outside \<Rightarrow> history \<Rightarrow> sc_op \<Rightarrow> bool" where
  "done_sc K h op \<equiv> asked K h (Sc op) (\<lambda>r. r_err r = None)"

text \<open>The call of a rule is decided: unknown to the library, in the filter, or the default anyway.\<close>

definition name_decided ::
    "outside \<Rightarrow> scmp_action \<Rightarrow> scmp_action \<Rightarrow> seccomp_syscall \<Rightarrow> history \<Rightarrow> string \<Rightarrow> bool" where
  "name_decided K dflt verdict rule h name \<longleftrightarrow> \<not> known_syscall K name
   \<or> (\<exists>cmps. map_res comparator (flat (sy_args rule)) = Inr cmps
       \<and> (done_sc K h (ScAddRule verdict name cmps)
          \<or> verdict = dflt \<and> asked K h (Sc (ScAddRule verdict name cmps)) (\<lambda>r. r_err r = Some EACCES)))"

definition rule_decided :: "outside \<Rightarrow> scmp_action \<Rightarrow> history \<Rightarrow> seccomp_syscall \<Rightarrow> bool" where
  "rule_decided K dflt h rule \<longleftrightarrow>
     (\<exists>verdict. seccomp_action (sy_action rule) (sy_errno_ret rule) = Inr verdict
        \<and> (\<forall>name \<in> set (sy_names rule). name_decided K dflt verdict rule h name))"

lemma name_decided_append:
  "name_decided K d v rule h name \<Longrightarrow> name_decided K d v rule (l @ h) name"
  by (auto simp: name_decided_def intro: asked_append)

lemma rule_decided_append: "rule_decided K d h rule \<Longrightarrow> rule_decided K d (l @ h) rule"
  by (auto simp: rule_decided_def intro: name_decided_append)

lemma add_name_decides:
  "wp (add_name K d v rule name) (\<lambda>_ h'. (\<exists>l. h' = l @ h) \<and> name_decided K d v rule h' name) (\<lambda>_ _. True) h"
  unfolding add_name_def wp_simps
  by (auto simp: wp_simps name_decided_def split: option.split sum.split)

lemma add_names_decide:
  "wp (add_names K d v rule names)
     (\<lambda>_ h'. (\<exists>l. h' = l @ h) \<and> (\<forall>name \<in> set names. name_decided K d v rule h' name)) (\<lambda>_ _. True) h"
proof (induction names arbitrary: h)
  case (Cons name names)
  have rest: "wp (add_names K d v rule names)
      (\<lambda>_ h'. (\<exists>l. h' = l @ h) \<and> name_decided K d v rule h' name
         \<and> (\<forall>n \<in> set names. name_decided K d v rule h' n)) (\<lambda>_ _. True) h1"
    if "\<exists>l. h1 = l @ h" "name_decided K d v rule h1 name" for h1
    by (rule wp_mono [OF Cons.IH]) (use that in \<open>auto intro: name_decided_append\<close>)
  show ?case
    unfolding add_names.simps wp_simps by (rule wp_mono [OF add_name_decides]) (auto intro: rest)
qed (simp add: wp_simps)

lemma add_rules_decide:
  "wp (add_rules K dflt rules)
     (\<lambda>_ h'. (\<exists>l. h' = l @ h) \<and> (\<forall>rule \<in> set rules. rule_decided K dflt h' rule)) (\<lambda>_ _. True) h"
proof (induction rules arbitrary: h)
  case (Cons rule rules)
  have rest: "wp (add_rules K dflt rules)
      (\<lambda>_ h'. (\<exists>l. h' = l @ h) \<and> rule_decided K dflt h' rule
         \<and> (\<forall>r \<in> set rules. rule_decided K dflt h' r)) (\<lambda>_ _. True) h1"
    if "\<exists>l. h1 = l @ h" "rule_decided K dflt h1 rule" for h1
    by (rule wp_mono [OF Cons.IH]) (use that in \<open>auto intro: rule_decided_append\<close>)
  show ?case
  proof (cases "seccomp_action (sy_action rule) (sy_errno_ret rule)")
    case (Inr verdict)
    have decided: "rule_decided K dflt h1 rule"
      if "\<forall>name \<in> set (sy_names rule). name_decided K dflt verdict rule h1 name" for h1
      using that Inr by (simp add: rule_decided_def)
    have "wp (bind_p (add_names K dflt verdict rule (sy_names rule)) (\<lambda>n.
        bind_p (add_rules K dflt rules) (\<lambda>m. ret (n + m))))
      (\<lambda>_ h'. (\<exists>l. h' = l @ h) \<and> rule_decided K dflt h' rule
         \<and> (\<forall>r \<in> set rules. rule_decided K dflt h' r)) (\<lambda>_ _. True) h"
      unfolding wp_simps
      by (rule wp_mono [OF add_names_decide]) (auto intro!: rest decided)
    with Inr show ?thesis by (simp add: wp_simps)
  qed (simp add: wp_simps)
qed (simp add: wp_simps)

definition filter_complete :: "outside \<Rightarrow> seccomp \<Rightarrow> history \<Rightarrow> bool" where
  "filter_complete K s h \<longleftrightarrow> (\<exists>dflt. seccomp_action (se_default_action s) (se_default_errno_ret s) = Inr dflt
     \<and> done_sc K h (ScNew dflt) \<and> done_sc K h (ScSetAttr ''CtlNnp'' 0)
     \<and> (\<forall>rule \<in> set (flat (se_syscalls s)). rule_decided K dflt h rule))"

lemma stable_filter_complete [intro]: "stable (filter_complete K s)"
  by (auto simp: stable_def filter_complete_def intro: asked_append rule_decided_append)

lemma seccomp_build_completes: "ensures (seccomp_build K s) (filter_complete K s)"
proof -
  let ?archs = "each (\<lambda>arch. bind_p (lift_res (architecture arch)) (\<lambda>mapped.
      do_op K (invalid ''add seccomp architecture'') (Sc (ScAddArch mapped)))) (flat (se_architectures s))"
  let ?nnp = "do_op K (invalid ''clear the seccomp filter's no-new-privs bit'') (Sc (ScSetAttr ''CtlNnp'' 0))"
  let ?flags = "each (\<lambda>flag. do_op K (invalid ''set seccomp flag'') (Sc (ScSetAttr (filter_attr flag) 1))) (flat (se_flags s))"
  have grow_names: "grows (add_names K d v rule names)" for d v rule names
    by (induction names) (auto simp: grows_def add_name_def intro!: emits_intros)
  have grow_rules: "grows (add_rules K d rules)" for d rules
    using grow_names by (induction rules) (auto simp: grows_def intro!: emits_intros)
  have body: "ensures (seq_p (do_op K f (Sc (ScNew d))) (seq_p ?archs (seq_p ?nnp (seq_p ?flags (add_rules K d rules)))))
      (\<lambda>h. done_sc K h (ScNew d) \<and> done_sc K h (ScSetAttr ''CtlNnp'' 0) \<and> (\<forall>rule \<in> set rules. rule_decided K d h rule))"
    for f d rules
  proof (intro ensures_conj)
    show "ensures (seq_p (do_op K f (Sc (ScNew d))) (seq_p ?archs (seq_p ?nnp (seq_p ?flags (add_rules K d rules)))))
      (\<lambda>h. done_sc K h (ScNew d))"
      using grow_rules by (intro ensures_seq_first ensures_do_op) (auto simp: grows_def intro!: emits_intros)
    show "ensures (seq_p (do_op K f (Sc (ScNew d))) (seq_p ?archs (seq_p ?nnp (seq_p ?flags (add_rules K d rules)))))
      (\<lambda>h. done_sc K h (ScSetAttr ''CtlNnp'' 0))"
      using grow_rules
      by (intro ensures_seq_then [of "seq_p ?archs (seq_p ?nnp (seq_p ?flags (add_rules K d rules)))"]
          ensures_seq_then [of "seq_p ?nnp (seq_p ?flags (add_rules K d rules))"] ensures_seq_first ensures_do_op)
        (auto simp: grows_def intro!: emits_intros)
    show "ensures (seq_p (do_op K f (Sc (ScNew d))) (seq_p ?archs (seq_p ?nnp (seq_p ?flags (add_rules K d rules)))))
      (\<lambda>h. \<forall>rule \<in> set rules. rule_decided K d h rule)"
      by (intro ensures_seq_then) (auto intro!: ensuresI wp_mono [OF add_rules_decide])
  qed
  show ?thesis
    unfolding seccomp_build_def
    by (intro ensures_lift) (rule ensures_mono [OF body], simp add: filter_complete_def)
qed

fun sc_call :: "sysop \<Rightarrow> bool" where
  "sc_call (Sc _) = True"
| "sc_call _ = False"

lemma add_names_calls: "emits (\<lambda>op. sc_call op \<and> op \<noteq> Sc ScLoad) (add_names K d v rule names)"
  by (induction names) (auto simp: add_name_def intro!: emits_intros)

lemma add_rules_calls: "emits (\<lambda>op. sc_call op \<and> op \<noteq> Sc ScLoad) (add_rules K d rules)"
  by (induction rules) (auto intro!: emits_intros add_names_calls)

lemma seccomp_build_calls: "emits (\<lambda>op. sc_call op \<and> op \<noteq> Sc ScLoad) (seccomp_build K s)"
  unfolding seccomp_build_def by (intro emits_intros add_rules_calls) auto

lemma seccomp_apply_calls: "emits sc_call (seccomp_apply K s)"
  unfolding seccomp_apply_def
  by (intro emits_intros emits_mono [OF seccomp_build_calls]) auto

text \<open>
  C20: a seccomp filter is loaded only when it is complete: at the moment of the load the filter was
  created with the specification's default action, its no-new-privileges bit was cleared, and every
  system call of every rule was added, or is unknown to the library, or was refused because its
  action is the default one. Applying succeeds only after the load.
\<close>

theorem seccomp_loaded_complete:
  "guarded (\<lambda>op. op = Sc ScLoad) (filter_complete K s) (seccomp_apply K s)
   \<and> ensures (seccomp_apply K s) (\<lambda>h. done_sc K h ScLoad)"
proof
  show "guarded (\<lambda>op. op = Sc ScLoad) (filter_complete K s) (seccomp_apply K s)"
    unfolding seccomp_apply_def
    by (rule guarded_after [OF _ seccomp_build_completes])
      (auto simp: grows_def intro!: emits_intros emits_mono [OF seccomp_build_calls])
  show "ensures (seccomp_apply K s) (\<lambda>h. done_sc K h ScLoad)"
    unfolding seccomp_apply_def
    by (intro ensures_then ensures_seq_first ensures_do_op) (auto simp: grows_def intro: emits_intros)
qed

text \<open>
  An action the runtime cannot carry out is refused, never weakened: translating an action fails
  exactly for the one that needs a listener, a killing action stays a killing one, and only the
  allowing action allows.
\<close>

theorem seccomp_action_faithful:
  "((\<exists>e. seccomp_action a errno_ret = Inl e) \<longleftrightarrow> a = ScmpActNotify)
   \<and> (seccomp_action a errno_ret = Inr AAllow \<longleftrightarrow> a = ScmpActAllow)
   \<and> (seccomp_action a errno_ret \<in> {Inr AKillThread, Inr AKillProcess}
        \<longleftrightarrow> a \<in> {ScmpActKill, ScmpActKillThread, ScmpActKillProcess})"
  by (cases a) (simp_all add: seccomp_action_def)

end
