(* ===== verification/Userns.thy ===== *)
theory Userns
  imports Bundle
begin

text \<open>
  \<^verbatim>\<open>src/src/container/userns.rs\<close>: writing the id mappings of a user namespace, directly or
  through the setuid helpers.
\<close>

definition mappings_empty :: "mappings \<Rightarrow> bool" where
  "mappings_empty m \<longleftrightarrow> mp_uid m = [] \<and> mp_gid m = []"

definition proc_path :: "int \<Rightarrow> string \<Rightarrow> string" where
  "proc_path pid file = ''/proc/'' @ int_text pid @ ''/'' @ file"

definition render_line :: "id_mapping \<Rightarrow> string" where
  "render_line m = dec_text (im_container_id m) @ '' '' @ dec_text (im_host_id m) @ '' '' @ dec_text (im_size m)"

definition render_mappings :: "id_mapping list \<Rightarrow> string" where
  "render_mappings ms = concat (map (\<lambda>m. render_line m @ [CHR 0x0A]) ms)"

definition deny_setgroups :: "outside \<Rightarrow> int \<Rightarrow> bool \<Rightarrow> unit prog" where
  "deny_setgroups K pid privileged =
     when_p (\<not> privileged) (do_op K (IoErr ''write deny to setgroups'') (Fs (WriteFile (proc_path pid ''setgroups'') ''deny'')))"

definition HELPER_DIRS :: "string list" where
  "HELPER_DIRS = [''/usr/bin'', ''/bin'', ''/usr/sbin'', ''/sbin'', ''/usr/local/bin'']"

fun locate_in :: "outside \<Rightarrow> string \<Rightarrow> string list \<Rightarrow> string option prog" where
  "locate_in K helper [] = ret None"
| "locate_in K helper (dir # dirs) =
     (let candidate = path_join dir helper in
      bind_p (ask K (Query (IsFile candidate)) r_flag) (\<lambda>is_file.
      if is_file then ret (Some candidate) else locate_in K helper dirs))"

definition helper_args :: "int \<Rightarrow> id_mapping list \<Rightarrow> string list" where
  "helper_args pid ms = int_text pid # concat (map (\<lambda>m.
     [dec_text (im_container_id m), dec_text (im_host_id m), dec_text (im_size m)]) ms)"

definition run_helper :: "outside \<Rightarrow> string \<Rightarrow> int \<Rightarrow> id_mapping list \<Rightarrow> unit prog" where
  "run_helper K helper pid ms =
     bind_p (locate_in K helper HELPER_DIRS) (\<lambda>found.
     bind_p (lift_res (ok_or found (Invalid ''the id mapping helper is not installed''))) (\<lambda>binary.
     bind_p (io K (IoErr ''run the helper'') (Cmd (RunHelper binary (helper_args pid ms))) r_wait) (\<lambda>status.
     case status of WExited _ code \<Rightarrow> if code = 0 then ret () else fail (Invalid ''the helper exited with an error'')
     | _ \<Rightarrow> fail (Invalid ''the helper exited with an error''))))"

definition write_one :: "outside \<Rightarrow> int \<Rightarrow> string \<Rightarrow> id_mapping list \<Rightarrow> bool \<Rightarrow> string \<Rightarrow> unit prog" where
  "write_one K pid file ms privileged helper =
     bind_p (call K (Fs (WriteFile (proc_path pid file) (render_mappings ms)))) (\<lambda>r.
     case r_err r of
       None \<Rightarrow> ret ()
     | Some e \<Rightarrow> if privileged then fail (IoErr ''write the id mapping'' e)
                 else run_helper K helper pid ms)"

definition userns_write :: "outside \<Rightarrow> int \<Rightarrow> mappings \<Rightarrow> bool \<Rightarrow> unit prog" where
  "userns_write K pid m privileged =
     (if mp_uid m = [] \<or> mp_gid m = []
      then fail (Invalid ''a user namespace needs both linux.uidMappings and linux.gidMappings'')
      else seq_p (deny_setgroups K pid privileged)
        (seq_p (write_one K pid ''uid_map'' (mp_uid m) privileged ''newuidmap'')
          (write_one K pid ''gid_map'' (mp_gid m) privileged ''newgidmap'')))"

section \<open>The text of a mapping\<close>

text \<open>How the kernel reads a line of a map: three numbers.\<close>

definition read_line :: "string \<Rightarrow> id_mapping option" where
  "read_line line = (case map (parse_unsigned u32_bound) (split_whitespace line) of
     [Some c, Some h, Some n] \<Rightarrow> Some \<lparr>im_container_id = c, im_host_id = h, im_size = n\<rparr>
   | _ \<Rightarrow> None)"

definition mapping_fits :: "id_mapping \<Rightarrow> bool" where
  "mapping_fits m \<longleftrightarrow> im_container_id m < u32_bound \<and> im_host_id m < u32_bound \<and> im_size m < u32_bound"

lemma read_render_line: "mapping_fits m \<Longrightarrow> read_line (render_line m) = Some m"
  by (simp add: read_line_def render_line_def split_whitespace_plain plain_dec_text mapping_fits_def)

lemma newline_free: "CHR 0x0A \<notin> set (render_line m)"
  by (simp add: render_line_def dec_text_no)

lemma render_lines: "split_on (CHR 0x0A) (render_mappings ms) = map render_line ms @ [[]]"
proof (induction ms)
  case (Cons m ms)
  then show ?case
    using split_on_append [of "CHR 0x0A" "render_line m" "render_mappings ms"]
    by (simp add: render_mappings_def split_on_free newline_free)
qed (simp add: render_mappings_def)

lemma drop_cr_render: "drop_cr (render_line m) = render_line m"
proof -
  have "last (render_line m) \<in> set (dec_text (im_size m))" by (simp add: render_line_def)
  then have "last (render_line m) \<noteq> CHR 0x0D" using dec_text_no [of "CHR 0x0D" "im_size m"] by auto
  then show ?thesis by (simp add: drop_cr_def)
qed

text \<open>
  The kernel reads from the rendered map exactly the mappings of the specification, in order.
\<close>

theorem mappings_round_trip:
  assumes "list_all mapping_fits ms"
  shows "map read_line (str_lines (render_mappings ms)) = map Some ms"
proof -
  have "str_lines (render_mappings ms) = map render_line ms"
    by (simp add: str_lines_def render_lines drop_cr_render o_def cong: map_cong)
  then show ?thesis using assms by (auto simp: list_all_iff read_render_line)
qed

lemma mappings_round_trip_witness:
  "map read_line (str_lines (render_mappings
      [\<lparr>im_container_id = 0, im_host_id = 1000, im_size = 1\<rparr>, \<lparr>im_container_id = 1, im_host_id = 100000, im_size = 65536\<rparr>]))
   = [Some \<lparr>im_container_id = 0, im_host_id = 1000, im_size = 1\<rparr>, Some \<lparr>im_container_id = 1, im_host_id = 100000, im_size = 65536\<rparr>]"
  by (subst mappings_round_trip) (simp_all add: mapping_fits_def)

section \<open>The order of the writes\<close>

fun is_map_write :: "int \<Rightarrow> sysop \<Rightarrow> bool" where
  "is_map_write pid (Fs (WriteFile f _)) = (f = proc_path pid ''uid_map'' \<or> f = proc_path pid ''gid_map'')"
| "is_map_write pid (Cmd (RunHelper _ _)) = True"
| "is_map_write pid _ = False"

lemma locate_calls: "emits (\<lambda>op. \<exists>f. op = Query (IsFile f)) (locate_in K helper dirs)"
  by (induction dirs) (auto intro!: emits_intros)

lemma grows_write_one: "grows (write_one K pid file ms privileged helper)"
  unfolding grows_def write_one_def run_helper_def
  by (intro emits_intros emits_mono [OF locate_calls]) (auto intro!: emits_intros split: wait_status.split)

text \<open>
  An unprivileged runtime denies \<^verbatim>\<open>setgroups\<close> in the new user namespace before it
  writes either id map, by itself or through a helper, and a user namespace whose two mappings are
  not both given is refused before anything is written.
\<close>

theorem setgroups_denied_first:
  "guarded (is_map_write pid)
     (\<lambda>h. asked K h (Fs (WriteFile (proc_path pid ''setgroups'') ''deny'')) (\<lambda>r. r_err r = None))
     (userns_write K pid m False)
   \<and> (mp_uid m = [] \<or> mp_gid m = [] \<longrightarrow> (\<forall>h. snd (userns_write K pid m privileged h) = h))"
proof
  have path: "proc_path pid ''setgroups'' \<noteq> proc_path pid ''uid_map''"
    "proc_path pid ''setgroups'' \<noteq> proc_path pid ''gid_map''" by (simp_all add: proc_path_def)
  show "guarded (is_map_write pid)
     (\<lambda>h. asked K h (Fs (WriteFile (proc_path pid ''setgroups'') ''deny'')) (\<lambda>r. r_err r = None))
     (userns_write K pid m False)"
  proof (cases "mp_uid m = [] \<or> mp_gid m = []")
    case True
    then show ?thesis by (auto simp: userns_write_def guarded_def fail_def)
  next
    case False
    then show ?thesis
      unfolding userns_write_def deny_setgroups_def when_p_def
      using path grows_write_one
      by (auto intro!: guarded_seq_after ensures_do_op emits_intros simp: grows_def)
  qed
  show "mp_uid m = [] \<or> mp_gid m = [] \<longrightarrow> (\<forall>h. snd (userns_write K pid m privileged h) = h)"
    by (auto simp: userns_write_def fail_def)
qed

lemma setgroups_denied_first_witness:
  "snd (userns_write (granting (\<lambda>_ r. r)) 7 \<lparr>mp_uid = [], mp_gid = []\<rparr> True []) = []"
  using setgroups_denied_first [of 7 "granting (\<lambda>_ r. r)" "\<lparr>mp_uid = [], mp_gid = []\<rparr>" True] by simp

end
