(* ===== verification/Console.thy ===== *)
theory Console
  imports Mounts Process
begin

text \<open>
  \<^verbatim>\<open>src/src/container/console.rs\<close>: handing the master of a new terminal to the caller and
  adopting its slave. Opening the terminal answers with the descriptors of master and slave.
\<close>

definition open_socket :: "outside \<Rightarrow> string \<Rightarrow> int prog" where
  "open_socket K socket_path =
     bind_p (io K (NixErr ''create a socket for the console handover'') (Tty NewSocket) r_num) (\<lambda>stream.
     seq_p (do_op K (NixErr ''connect to the console socket'') (Tty (ConnectSocket stream socket_path)))
       (ret stream))"

definition pty_name :: "outside \<Rightarrow> int \<Rightarrow> string prog" where
  "pty_name K master = io K (invalid ''ptsname_r failed for the pty master'') (Tty (PtsName master)) r_text"

definition send_master :: "outside \<Rightarrow> int \<Rightarrow> int \<Rightarrow> string \<Rightarrow> unit prog" where
  "send_master K socket master name =
     do_op K (NixErr ''send the pty master over SCM_RIGHTS'') (Tty (SendMaster socket master name))"

definition bind_console :: "outside \<Rightarrow> string \<Rightarrow> unit prog" where
  "bind_console K slave_path =
     bind_p (ask K (Query (Exists ''/dev/console'')) r_flag) (\<lambda>present.
     seq_p (when_p (\<not> present) (do_op K (IoErr ''create /dev/console as a bind target'') (Fs (CreateFile ''/dev/console''))))
       (do_op K (NixErr ''bind onto /dev/console'') (Mnt (Mount (Some slave_path) ''/dev/console'' None MS_BIND None))))"

definition adopt :: "outside \<Rightarrow> int \<Rightarrow> unit prog" where
  "adopt K slave =
     seq_p (do_op K (NixErr ''setsid'') (Tty SetSid))
     (seq_p (do_op K (invalid ''ioctl(TIOCSCTTY) failed'') (Tty (ClaimTty slave)))
     (seq_p (do_op K (NixErr ''dup the pty onto stdin'') (Tty (Dup2 slave 0)))
     (seq_p (do_op K (NixErr ''dup the pty onto stdout'') (Tty (Dup2 slave 1)))
     (do_op K (NixErr ''dup the pty onto stderr'') (Tty (Dup2 slave 2))))))"

definition console_setup :: "outside \<Rightarrow> int \<Rightarrow> unit prog" where
  "console_setup K socket =
     bind_p (io K (NixErr ''openpty inside the container'') (Tty OpenPty) (\<lambda>r. (r_num r, r_num2 r))) (\<lambda>(master, slave).
     bind_p (pty_name K master) (\<lambda>name.
     seq_p (send_master K socket master name)
     (seq_p (bind_console K name)
     (adopt K slave))))"

fun console_call :: "sysop \<Rightarrow> bool" where
  "console_call (Tty _) = True"
| "console_call (Query (Exists p)) = (p = ''/dev/console'')"
| "console_call (Fs (CreateFile p)) = (p = ''/dev/console'')"
| "console_call (Mnt (Mount _ p _ _ _)) = (p = ''/dev/console'')"
| "console_call _ = False"

lemma console_setup_calls: "emits console_call (console_setup K socket)"
  unfolding console_setup_def pty_name_def send_master_def bind_console_def adopt_def
  by (intro emits_intros) auto

lemma adopt_trace:
  "wp (adopt K slave) (\<lambda>_ h'. h' = [Tty (Dup2 slave 2), Tty (Dup2 slave 1), Tty (Dup2 slave 0), Tty (ClaimTty slave), Tty SetSid] @ h)
     (\<lambda>_ _. True) h"
  unfolding adopt_def wp_simps by (simp split: option.split)

lemma bind_console_trace:
  "wp (bind_console K name)
     (\<lambda>_ h'. \<exists>l. h' = Mnt (Mount (Some name) ''/dev/console'' None MS_BIND None) # l @ h) (\<lambda>_ _. True) h"
  unfolding bind_console_def wp_simps by (auto split: option.split)

text \<open>What a finished console setup leaves in the history, given the three answers it depends on.\<close>

definition console_done :: "outside \<Rightarrow> int \<Rightarrow> history \<Rightarrow> bool" where
  "console_done K socket h' \<longleftrightarrow> (\<exists>master slave name h0.
      asked K h' (Tty OpenPty) (\<lambda>r. r_err r = None \<and> r_num r = master \<and> r_num2 r = slave)
    \<and> asked K h' (Tty (PtsName master)) (\<lambda>r. r_text r = name)
    \<and> asked K h' (Tty (SendMaster socket master name)) (\<lambda>r. r_err r = None)
    \<and> h' = [Tty (Dup2 slave 2), Tty (Dup2 slave 1), Tty (Dup2 slave 0), Tty (ClaimTty slave), Tty SetSid,
        Mnt (Mount (Some name) ''/dev/console'' None MS_BIND None)] @ h0)"

lemma bind_and_adopt:
  assumes "asked K h (Tty OpenPty) (\<lambda>r. r_err r = None \<and> r_num r = master \<and> r_num2 r = slave)"
    "asked K h (Tty (PtsName master)) (\<lambda>r. r_text r = name)"
    "asked K h (Tty (SendMaster socket master name)) (\<lambda>r. r_err r = None)"
  shows "wp (seq_p (bind_console K name) (adopt K slave)) (\<lambda>_. console_done K socket) (\<lambda>_ _. True) h"
  unfolding wp_seq
proof (rule wp_mono [OF bind_console_trace])
  fix u h1 assume "\<exists>l. h1 = Mnt (Mount (Some name) ''/dev/console'' None MS_BIND None) # l @ h"
  then obtain l where h1: "h1 = Mnt (Mount (Some name) ''/dev/console'' None MS_BIND None) # l @ h" ..
  show "wp (adopt K slave) (\<lambda>_. console_done K socket) (\<lambda>_ _. True) h1"
  proof (rule wp_mono [OF adopt_trace])
    fix u h' assume h': "h' = [Tty (Dup2 slave 2), Tty (Dup2 slave 1), Tty (Dup2 slave 0), Tty (ClaimTty slave), Tty SetSid] @ h1"
    show "console_done K socket h'"
      unfolding console_done_def
      by (rule exI [of _ master], rule exI [of _ slave], rule exI [of _ name], rule exI [of _ "l @ h"])
        (use assms in \<open>simp add: h' h1 asked_append\<close>)
  qed simp
qed simp

text \<open>
  Setting up the console either fails or leaves the terminal complete: the master of one terminal
  was sent to the caller with its name, that name was bound onto the container's console, and its
  slave became the controlling terminal of a new session before it replaced standard input, output
  and error, in this order. Nothing else of the file system is touched.
\<close>

theorem console_complete:
  "wp (console_setup K socket) (\<lambda>_. console_done K socket) (\<lambda>_ _. True) h
   \<and> emits console_call (console_setup K socket)"
proof
  show "wp (console_setup K socket) (\<lambda>_. console_done K socket) (\<lambda>_ _. True) h"
    unfolding console_setup_def pty_name_def send_master_def wp_bind wp_io wp_do_op
      wp_seq [of "do_op K c op" for c op] case_prod_conv
    by (auto split: option.split intro!: bind_and_adopt)
qed (rule console_setup_calls)

end
