(* ===== verification/Init.thy ===== *)
theory Init
  imports Bundle Rootfs Devices Sync Telemetry Hooks Fifo Signals Process Seccomp Console
begin

text \<open>
  \<^verbatim>\<open>src/src/container/init.rs\<close>, with the \<^verbatim>\<open>Plan\<close> of \<^verbatim>\<open>container/mod.rs\<close>:
  the two processes between the runtime and the container's program. The intermediate process enters
  the namespaces and forks; its child, the init, builds the root file system, gives up privileges and
  executes the program.

  One history follows one process: \<^verbatim>\<open>fork\<close> answers 0 in the child. Neither process returns, so
  a run that ends with \<open>Inr ()\<close> is one whose process was replaced by \<^verbatim>\<open>execve\<close> or has
  exited.
\<close>

record plan =
  pl_bundle :: oci_bundle
  pl_rootfs :: string
  pl_overlay :: "layers option"
  pl_unshare_flags :: clone_flags
  pl_join :: "(ns_type \<times> string) list"
  pl_cgroup_ns :: bool
  pl_fifo :: int
  pl_console :: "int option"
  pl_state :: Data.oci_state

abbreviation unshares :: "plan \<Rightarrow> clone_flags \<Rightarrow> bool" where
  "unshares p flag \<equiv> flags_contain (pl_unshare_flags p) flag"

section \<open>Entering the namespaces\<close>

definition unshare_order :: "(string \<times> clone_flags) list" where
  "unshare_order =
     [(''user'', CLONE_NEWUSER), (''mnt'', CLONE_NEWNS), (''uts'', CLONE_NEWUTS), (''ipc'', CLONE_NEWIPC),
      (''pid'', CLONE_NEWPID), (''net'', CLONE_NEWNET), (''time'', CLONE_NEWTIME)]"

definition offset_line :: "string \<times> time_offset \<Rightarrow> string" where
  "offset_line = (\<lambda>(clock, off). clock @ '' '' @ int_text (get_or 0 (to_secs off)) @ '' ''
     @ dec_text (get_or 0 (to_nanosecs off)) @ [CHR 0x0A])"

definition write_time_offsets :: "outside \<Rightarrow> (string \<times> time_offset) list \<Rightarrow> unit prog" where
  "write_time_offsets K offsets =
     (if offsets = [] then ret ()
      else do_op K (IoErr ''write /proc/self/timens_offsets'')
        (Fs (WriteFile ''/proc/self/timens_offsets'' (concat (map offset_line offsets)))))"

definition become_root_in_namespace :: "outside \<Rightarrow> unit prog" where
  "become_root_in_namespace K =
     seq_p (do_op K (NixErr ''setresgid(0,0,0) inside the new user namespace'') (Cred (SetResGid 0)))
       (do_op K (NixErr ''setresuid(0,0,0) inside the new user namespace'') (Cred (SetResUid 0)))"

definition join_one :: "outside \<Rightarrow> ns_type \<times> string \<Rightarrow> unit prog" where
  "join_one K = (\<lambda>(kind, path).
     bind_p (io K (NixErr ''open to join it'') (Fd (OpenFd path ORead)) r_num) (\<lambda>handle.
     do_op K (NixErr ''setns'') (Ns (SetNs handle (flag_for kind)))))"

definition join_existing :: "outside \<Rightarrow> plan \<Rightarrow> unit prog" where
  "join_existing K p = each (join_one K) (pl_join p)"

fun unshare_each :: "outside \<Rightarrow> plan \<Rightarrow> (string \<times> clone_flags) list \<Rightarrow> recorder \<Rightarrow> recorder prog" where
  "unshare_each K p [] clock = ret clock"
| "unshare_each K p ((name, flag) # rest) clock =
     (if \<not> unshares p flag then unshare_each K p rest clock
      else bind_p (rec_begin K (''unshare.'' @ name) clock) (\<lambda>clock.
        seq_p (do_op K SyscallErr (Ns (Unshare flag)))
        (seq_p (when_p (name = ''time'') (write_time_offsets K (bu_time_offsets (pl_bundle p))))
          (unshare_each K p rest clock))))"

definition map_users :: "outside \<Rightarrow> plan \<Rightarrow> recorder \<Rightarrow> recorder prog" where
  "map_users K p clock =
     (if unshares p CLONE_NEWUSER then
        bind_p (rec_begin K ''unshare.user.map'' clock) (\<lambda>clock.
        seq_p (send K RequestUserMapping)
        (bind_p (expect K ''UserMappingDone'') (\<lambda>_.
         seq_p (become_root_in_namespace K) (ret clock))))
      else ret clock)"

section \<open>The container's init\<close>

definition init_host_pid :: "outside \<Rightarrow> int prog" where
  "init_host_pid K =
     bind_p (expect K ''CgroupApplied'') (\<lambda>m.
     case m of CgroupApplied pid \<Rightarrow> ret pid | _ \<Rightarrow> fail (SyncErr ''expected CgroupApplied''))"

definition set_domainname :: "outside \<Rightarrow> string \<Rightarrow> unit prog" where
  "set_domainname K name = do_op K (NixErr ''setdomainname'') (Ns (SetDomainname name))"

definition init_rootfs :: "outside \<Rightarrow> plan \<Rightarrow> Data.oci_state \<Rightarrow> recorder \<Rightarrow> recorder prog" where
  "init_rootfs K p state clock =
     (let b = pl_bundle p in
      if unshares p CLONE_NEWNS then
        bind_p (rec_begin K ''rootfs.mount'' clock) (\<lambda>clock.
        seq_p (make_root_private K)
        (seq_p (case pl_overlay p of Some l \<Rightarrow> mount_at K (pl_rootfs p) l | None \<Rightarrow> make_mount_point K (pl_rootfs p))
        (seq_p (apply_mounts K (pl_rootfs p) (bu_mounts b))
        (seq_p (create_devices K (pl_rootfs p) (bu_devices b) (unshares p CLONE_NEWUSER \<or> pl_join p \<noteq> []))
        (bind_p (rec_begin K ''hooks.createContainer'' clock) (\<lambda>clock.
         seq_p (hooks_run K (bu_hooks b) CreateContainer state)
         (bind_p (rec_begin K ''pivot_root'' clock) (\<lambda>clock.
          seq_p (pivot K (pl_rootfs p))
          (seq_p (set_propagation K (bu_rootfs_propagation b))
          (seq_p (given (pl_console p) (console_setup K)) (ret clock)))))))))))
      else seq_p (hooks_run K (bu_hooks b) CreateContainer state) (ret clock))"

definition init_identity :: "outside \<Rightarrow> plan \<Rightarrow> unit prog" where
  "init_identity K p =
     (let b = pl_bundle p in
      seq_p (given (bu_hostname b) (\<lambda>hostname. do_op K SyscallErr (Ns (SetHostname hostname))))
      (seq_p (given (bu_domainname b) (set_domainname K))
      (sysctl_apply K (bu_sysctl b))))"

definition init_harden :: "outside \<Rightarrow> plan \<Rightarrow> recorder \<Rightarrow> recorder prog" where
  "init_harden K p clock =
     (let b = pl_bundle p in
      if unshares p CLONE_NEWNS then
        bind_p (rec_begin K ''harden'' clock) (\<lambda>clock.
        seq_p (mask_paths K (bu_masked_paths b))
        (seq_p (harden_readonly_paths K (bu_readonly_paths b))
        (seq_p (remount_readonly_mounts K (bu_mounts b))
        (seq_p (when_p (readonly_rootfs b) (harden_readonly_rootfs K)) (ret clock)))))
      else ret clock)"

definition cstring :: "string \<Rightarrow> string res" where
  "cstring v = (if CHR 0x00 \<in> set v then Inl (NulByte v) else Inr v)"

definition init_program :: "outside \<Rightarrow> plan \<Rightarrow> (string \<times> string list \<times> string list) prog" where
  "init_program K p =
     (let b = pl_bundle p; env = bu_env b in
      bind_p (lift_res (bu_argv b)) (\<lambda>argv.
      bind_p (resolve_executable K (hd argv) env (unshares p CLONE_NEWNS)) (\<lambda>program.
      bind_p (lift_res (cstring program)) (\<lambda>program.
      bind_p (lift_res (to_cstrings argv)) (\<lambda>argv.
      bind_p (lift_res (to_cstrings env)) (\<lambda>env.
      ret (program, argv, env)))))))"

definition init_limits :: "outside \<Rightarrow> plan \<Rightarrow> unit prog" where
  "init_limits K p = given (bu_process (pl_bundle p)) (\<lambda>proc.
     seq_p (apply_limits K proc) (seq_p (apply_oom_score_adj K proc) (apply_umask K proc)))"

definition init_cwd :: "outside \<Rightarrow> plan \<Rightarrow> unit prog" where
  "init_cwd K p = do_op K SyscallErr (Mnt (Chdir
     (case bu_cwd (pl_bundle p) of Some cwd \<Rightarrow> if cwd \<noteq> [] then cwd else ''/'' | None \<Rightarrow> ''/'')))"

definition no_new_privs :: "oci_bundle \<Rightarrow> bool" where
  "no_new_privs b = get_or False (Option.bind (bu_process b) pr_no_new_privileges)"

definition init_seccomp :: "outside \<Rightarrow> oci_bundle \<Rightarrow> unit prog" where
  "init_seccomp K b = given (bu_seccomp b) (\<lambda>s. bind_p (seccomp_apply K s) (\<lambda>_. ret ()))"

definition init_security :: "outside \<Rightarrow> plan \<Rightarrow> unit prog" where
  "init_security K p =
     (let b = pl_bundle p; nnp = no_new_privs b in
      seq_p (when_p (\<not> nnp) (init_seccomp K b))
      (seq_p (given (bu_process b) (\<lambda>proc.
         seq_p (given (pr_capabilities proc) (drop_bounding K))
         (seq_p (drop_privileges K proc)
         (seq_p (given (pr_capabilities proc) (apply_capabilities K))
         (when_p nnp (set_no_new_privs K))))))
      (when_p nnp (init_seccomp K b))))"

definition container_init :: "outside \<Rightarrow> plan \<Rightarrow> unit prog" where
  "container_init K p =
     bind_p (init_host_pid K) (\<lambda>host_pid.
     bind_p (recorder_new K) (\<lambda>clock.
     bind_p (rec_begin K ''unshare.cgroup'' clock) (\<lambda>clock.
     seq_p (when_p (pl_cgroup_ns p) (do_op K SyscallErr (Ns (Unshare CLONE_NEWCGROUP))))
     (bind_p (init_rootfs K p ((pl_state p)\<lparr>os_pid := Some host_pid\<rparr>) clock) (\<lambda>clock.
      bind_p (rec_begin K ''identity'' clock) (\<lambda>clock.
      seq_p (init_identity K p)
      (bind_p (init_harden K p clock) (\<lambda>clock.
       bind_p (init_program K p) (\<lambda>(program, argv, env).
       seq_p (init_limits K p)
       (seq_p (init_cwd K p)
       (bind_p (rec_begin K ''security'' clock) (\<lambda>clock.
        seq_p (init_security K p)
        (bind_p (rec_take K clock) (\<lambda>(phases, _).
         seq_p (send K (InitReady phases))
         (seq_p (fifo_park K (pl_fifo p))
         (seq_p (hooks_run K (bu_hooks (pl_bundle p)) StartContainer
             ((pl_state p)\<lparr>os_pid := Some host_pid, os_status := Running\<rparr>))
         (seq_p (unblock_all K)
         (do_op K SyscallErr (Proc (Execve program argv env))))))))))))))))))))"

section \<open>The intermediate process\<close>

definition exit_with :: "outside \<Rightarrow> nat \<Rightarrow> unit prog" where
  "exit_with K code = ask K (Proc (ExitProc code)) (\<lambda>_. ())"

text \<open>
  \<^verbatim>\<open>eprintln!\<close> followed by \<^verbatim>\<open>exit(code)\<close>; a process whose standard error cannot be
  written panics instead, which ends it with 101.
\<close>

definition die :: "outside \<Rightarrow> string \<Rightarrow> nat \<Rightarrow> unit prog" where
  "die K text code =
     bind_p (ask K (Tty (PrintErr (text @ [CHR 0x0A]))) (\<lambda>r. if r_err r = None then code else 101)) (exit_with K)"

text \<open>
  Both processes report a failure to the runtime and exit; the init says so on standard error before
  it does.
\<close>

definition report_failure :: "outside \<Rightarrow> (error \<Rightarrow> unit prog) \<Rightarrow> unit prog \<Rightarrow> unit prog" where
  "report_failure K leave m = on_result m (\<lambda>r. case r of
     Inr _ \<Rightarrow> ret ()
   | Inl e \<Rightarrow> seq_p (ignore (send K (Failed (error_text e)))) (leave e))"

definition leave_quietly :: "outside \<Rightarrow> error \<Rightarrow> unit prog" where
  "leave_quietly K e = exit_with K 1"

definition leave_loudly :: "outside \<Rightarrow> error \<Rightarrow> unit prog" where
  "leave_loudly K e = die K (''mars: container init failed: '' @ error_text e) 1"

definition stage_one :: "outside \<Rightarrow> plan \<Rightarrow> unit prog" where
  "stage_one K p =
     bind_p (recorder_new K) (\<lambda>clock.
     bind_p (rec_begin K ''join'' clock) (\<lambda>clock.
     seq_p (join_existing K p)
     (bind_p (unshare_each K p unshare_order clock) (\<lambda>clock.
      bind_p (map_users K p clock) (\<lambda>clock.
      bind_p (rec_begin K ''fork.init'' clock) (\<lambda>clock.
      bind_p (io K SyscallErr (Proc Fork) r_num) (\<lambda>child.
      if child \<noteq> 0
      then bind_p (rec_take K clock) (\<lambda>(phases, _).
        seq_p (send K (InitPid child phases)) (exit_with K 0))
      else report_failure K (leave_loudly K) (container_init K p))))))))"

definition intermediate :: "outside \<Rightarrow> plan \<Rightarrow> unit prog" where
  "intermediate K p = report_failure K (leave_quietly K) (stage_one K p)"

section \<open>The calls of the steps\<close>

text \<open>
  Everything but the calls that hand over control: starting a process or the program, telling the
  runtime, releasing the start, ending.
\<close>

fun ordinary :: "sysop \<Rightarrow> bool" where
  "ordinary (Proc Fork) = False"
| "ordinary (Proc (Execve _ _ _)) = False"
| "ordinary (Proc (ExitProc _)) = False"
| "ordinary (Chan (ChanSend _)) = False"
| "ordinary (Fd (FdWrite _ _)) = False"
| "ordinary _ = True"

text \<open>The calls a process makes on its own: neither that nor a word on the channel.\<close>

fun private_call :: "sysop \<Rightarrow> bool" where
  "private_call (Proc Fork) = False"
| "private_call (Proc (Execve _ _ _)) = False"
| "private_call (Proc (ExitProc _)) = False"
| "private_call (Chan _) = False"
| "private_call (Fd (FdWrite _ _)) = False"
| "private_call _ = True"

lemma own_ordinary: "emits private_call m \<Longrightarrow> emits ordinary m"
proof (erule emits_mono)
  show "private_call op \<Longrightarrow> ordinary op" for op by (cases op rule: private_call.cases) auto
qed

lemma own_hush: "emits private_call m \<Longrightarrow> emits hush m"
proof (erule emits_mono)
  show "private_call op \<Longrightarrow> hush op" for op by (cases op rule: talks.cases) auto
qed

lemma hooks_run_own: "emits private_call (hooks_run K hs ph st)"
proof (rule emits_mono [OF hooks_run_calls])
  show "hook_call op \<Longrightarrow> private_call op" for op by (cases op) auto
qed

lemma clock_own:
  "emits private_call (recorder_new K)" "emits private_call (rec_end K c)" "emits private_call (rec_begin K n c)" "emits private_call (rec_take K c)"
  unfolding recorder_new_def wall_nanos_def rec_take_def rec_begin_def rec_end_def elapsed_us_def by (intro emits_intros; simp)+

lemma console_own: "emits private_call (console_setup K fd)"
proof (rule emits_mono [OF console_setup_calls])
  show "console_call op \<Longrightarrow> private_call op" for op by (cases op) auto
qed

lemma devices_own: "emits private_call (create_devices K r extra u)"
  unfolding create_devices_def default_node_def make_link_def extra_node_def node_def bind_node_def Let_def
  by (intro emits_intros) auto

lemma mounts_own: "emits private_call (apply_mounts K r ms)"
  unfolding apply_mounts_def unified_cgroup_host_def apply_one_def make_target_def link_ptmx_def Let_def
  by (intro emits_intros) auto

lemma root_own:
  "emits private_call (make_root_private K)" "emits private_call (make_mount_point K r)" "emits private_call (pivot K r)"
  "emits private_call (set_propagation K m)" "emits private_call (mount_at K r l)"
  unfolding make_root_private_def make_mount_point_def pivot_def set_propagation_def mount_at_def
  by (intro emits_intros; simp)+

lemma init_rootfs_own: "emits private_call (init_rootfs K p st c)"
  unfolding init_rootfs_def Let_def
  by (intro emits_intros clock_own root_own hooks_run_own mounts_own devices_own console_own)

lemma init_identity_own: "emits private_call (init_identity K p)"
  unfolding init_identity_def set_domainname_def sysctl_apply_def Let_def by (intro emits_intros) auto

lemma init_harden_own: "emits private_call (init_harden K p c)"
  unfolding init_harden_def mask_paths_def mask_one_def harden_readonly_paths_def readonly_one_def
    remount_readonly_mounts_def remount_readonly_one_def harden_readonly_rootfs_def Let_def
  by (intro emits_intros clock_own) auto

lemma find_in_own: "emits private_call (find_in K program dirs)"
  by (induction dirs) (auto simp: Let_def intro!: emits_intros)

lemma init_program_own: "emits private_call (init_program K p)"
  unfolding init_program_def resolve_executable_def Let_def by (intro emits_intros find_in_own) auto

lemma init_limits_own: "emits private_call (init_limits K p)"
  unfolding init_limits_def apply_limits_def apply_oom_score_adj_def apply_umask_def by (intro emits_intros) auto

lemma init_cwd_own: "emits private_call (init_cwd K p)"
  unfolding init_cwd_def by (intro emits_intros) auto

lemma init_seccomp_own: "emits private_call (init_seccomp K b)"
proof -
  have "sc_call op \<Longrightarrow> private_call op" for op by (cases op) auto
  then show ?thesis
    unfolding init_seccomp_def by (intro emits_intros emits_mono [OF seccomp_apply_calls])
qed

lemma privileges_own:
  "emits private_call (drop_bounding K c)" "emits private_call (drop_privileges K proc)"
  "emits private_call (apply_capabilities K c)" "emits private_call (set_no_new_privs K)"
  unfolding drop_bounding_def drop_privileges_def apply_capabilities_def caps_set_def raise_ambient_def
    keep_caps_across_setuid_def set_no_new_privs_def Let_def
  by (intro emits_intros; simp)+

lemma init_security_own: "emits private_call (init_security K p)"
  unfolding init_security_def Let_def
  by (intro emits_intros init_seccomp_own privileges_own)

lemma unblock_all_own: "emits private_call (unblock_all K)"
  unfolding unblock_all_def by (intro emits_intros) simp

lemmas steps_own = hooks_run_own clock_own init_rootfs_own init_identity_own
  init_harden_own init_program_own init_limits_own init_cwd_own init_security_own unblock_all_own

lemma init_host_pid_ordinary: "emits ordinary (init_host_pid K)"
  unfolding init_host_pid_def by (intro emits_intros) (auto intro: emits_intros split: message.split)

lemmas hooks_run_ordinary = hooks_run_own [THEN own_ordinary]
lemmas clock_ordinary = clock_own [THEN own_ordinary]
lemmas console_ordinary = console_own [THEN own_ordinary]
lemmas devices_ordinary = devices_own [THEN own_ordinary]
lemmas mounts_ordinary = mounts_own [THEN own_ordinary]
lemmas root_ordinary = root_own [THEN own_ordinary]
lemmas init_rootfs_ordinary = init_rootfs_own [THEN own_ordinary]
lemmas init_identity_ordinary = init_identity_own [THEN own_ordinary]
lemmas init_harden_ordinary = init_harden_own [THEN own_ordinary]
lemmas find_in_ordinary = find_in_own [THEN own_ordinary]
lemmas init_program_ordinary = init_program_own [THEN own_ordinary]
lemmas init_limits_ordinary = init_limits_own [THEN own_ordinary]
lemmas init_cwd_ordinary = init_cwd_own [THEN own_ordinary]
lemmas init_seccomp_ordinary = init_seccomp_own [THEN own_ordinary]
lemmas privileges_ordinary = privileges_own [THEN own_ordinary]
lemmas init_security_ordinary = init_security_own [THEN own_ordinary]
lemmas unblock_all_ordinary = unblock_all_own [THEN own_ordinary]

lemmas steps_ordinary = init_host_pid_ordinary clock_ordinary init_rootfs_ordinary init_identity_ordinary
  init_harden_ordinary init_program_ordinary init_limits_ordinary init_cwd_ordinary init_security_ordinary
  hooks_run_ordinary unblock_all_ordinary

section \<open>What the steps establish\<close>

abbreviation done_op :: "outside \<Rightarrow> history \<Rightarrow> sysop \<Rightarrow> bool" where
  "done_op K h op \<equiv> asked K h op (\<lambda>r. r_err r = None)"

text \<open>The root of the file system was changed, the old root detached, and the working directory left it.\<close>

definition root_changed :: "outside \<Rightarrow> history \<Rightarrow> bool" where
  "root_changed K h \<longleftrightarrow> done_op K h (Mnt (PivotRoot ''.'' ''.'')) \<and> done_op K h (Mnt (UmountDetach ''.''))
     \<and> done_op K h (Mnt (Chdir ''/''))"

definition hardened :: "outside \<Rightarrow> oci_bundle \<Rightarrow> history \<Rightarrow> bool" where
  "hardened K b h \<longleftrightarrow> (\<forall>path \<in> set (bu_masked_paths b). hidden K h path)
     \<and> (\<forall>path \<in> set (bu_readonly_paths b). made_readonly K h path)
     \<and> (readonly_rootfs b \<longrightarrow> done_op K h (Mnt (Mount None ''/'' None (or (or MS_BIND MS_REMOUNT) MS_RDONLY) None)))"

definition identity_taken :: "outside \<Rightarrow> user \<Rightarrow> history \<Rightarrow> bool" where
  "identity_taken K u h \<longleftrightarrow> done_op K h (Cred (SetGroups (flat (us_additional_gids u))))
     \<and> done_op K h (Cred (SetGid (us_gid u))) \<and> done_op K h (Cred (SetUid (us_uid u)))"

definition filtered :: "outside \<Rightarrow> oci_bundle \<Rightarrow> history \<Rightarrow> bool" where
  "filtered K b h \<longleftrightarrow> (\<forall>s. bu_seccomp b = Some s \<longrightarrow> filter_complete K s h \<and> done_sc K h ScLoad)"

definition process_secured :: "outside \<Rightarrow> oci_bundle \<Rightarrow> process \<Rightarrow> history \<Rightarrow> bool" where
  "process_secured K b proc h \<longleftrightarrow> identity_taken K (pr_user proc) h
     \<and> (\<forall>c. pr_capabilities proc = Some c \<longrightarrow> capabilities_applied K c h \<and> bounding_reduced K c h)
     \<and> (no_new_privs b \<longrightarrow> done_op K h (Cred NoNewPrivs))"

definition secured :: "outside \<Rightarrow> oci_bundle \<Rightarrow> history \<Rightarrow> bool" where
  "secured K b h \<longleftrightarrow> filtered K b h \<and> (\<forall>proc. bu_process b = Some proc \<longrightarrow> process_secured K b proc h)"

lemma stable_facts [intro]:
  "stable (root_changed K)" "stable (hardened K b)" "stable (identity_taken K u)" "stable (filtered K b)"
  "stable (process_secured K b proc)" "stable (secured K b)"
proof -
  have "stable (\<lambda>h. \<forall>s. bu_seccomp b = Some s \<longrightarrow> filter_complete K s h \<and> done_sc K h ScLoad)"
    by (intro stable_all stable_imp stable_conj stable_filter_complete stable_asked)
  then show f: "stable (filtered K b)" by (simp add: filtered_def [abs_def])
  show i: "stable (identity_taken K u)" for u
    unfolding identity_taken_def [abs_def] by (intro stable_conj stable_asked)
  show p: "stable (process_secured K b proc)" for proc
    unfolding process_secured_def [abs_def] by (intro stable_conj stable_all stable_imp i stable_caps stable_asked)
  show "stable (secured K b)"
    unfolding secured_def [abs_def] by (intro stable_conj stable_all stable_imp f p)
  show "stable (root_changed K)" unfolding root_changed_def [abs_def] by (intro stable_conj stable_asked)
  show "stable (hardened K b)"
    unfolding hardened_def [abs_def] by (intro stable_conj stable_ball stable_imp stable_hidden stable_asked)
qed

lemma pivot_changes_root: "ensures (pivot K r) (root_changed K)"
  by (rule ensuresI) (simp add: pivot_def wp_simps root_changed_def split: option.split)

lemma init_rootfs_changes_root:
  "ensures (init_rootfs K p st c) (\<lambda>h. unshares p CLONE_NEWNS \<longrightarrow> root_changed K h)"
proof (cases "unshares p CLONE_NEWNS")
  case True
  have grow: "grows (seq_p (set_propagation K m) (seq_p (given x (console_setup K)) (ret c)))" for m x c
    by (intro emits_grows [where P = ordinary] emits_intros root_ordinary console_ordinary)
  show ?thesis
    unfolding init_rootfs_def Let_def
    by (simp add: True, (rule ensures_seq_first [OF pivot_changes_root] ensures_then ensures_seq_then)+)
      (auto intro: grow)
qed (simp add: ensures_def)

lemma ensures_ret: "(\<And>h. F h) \<Longrightarrow> ensures m F"
  by (simp add: ensures_def)

lemma init_harden_hardens:
  "ensures (init_harden K p c) (\<lambda>h. unshares p CLONE_NEWNS \<longrightarrow> hardened K (pl_bundle p) h)"
proof (cases "unshares p CLONE_NEWNS")
  case True
  let ?b = "pl_bundle p"
  let ?last = "seq_p (when_p (readonly_rootfs ?b) (harden_readonly_rootfs K)) (ret c')"
  let ?rest = "\<lambda>c'. seq_p (remount_readonly_mounts K (bu_mounts ?b))
    (seq_p (when_p (readonly_rootfs ?b) (harden_readonly_rootfs K)) (ret c'))"
  have grow: "grows (?rest c')" "grows (seq_p (harden_readonly_paths K paths) (?rest c'))" for c' paths
    using grows_path unfolding grows_def remount_readonly_mounts_def remount_readonly_one_def harden_readonly_rootfs_def
      harden_readonly_paths_def Let_def by (intro emits_intros; simp)+
  have rootfs: "ensures (?rest c') (\<lambda>h. readonly_rootfs ?b \<longrightarrow>
      done_op K h (Mnt (Mount None ''/'' None (or (or MS_BIND MS_REMOUNT) MS_RDONLY) None)))" for c'
    unfolding harden_readonly_rootfs_def
    by (intro ensures_seq_then ensures_seq_first ensures_when ensures_do_op stable_imp stable_asked grows_intros)
  have "ensures (seq_p (mask_paths K (bu_masked_paths ?b)) (seq_p (harden_readonly_paths K (bu_readonly_paths ?b)) (?rest c')))
      (hardened K ?b)" for c'
    unfolding hardened_def
  proof (intro ensures_conj)
    show "ensures (seq_p (mask_paths K (bu_masked_paths ?b)) (seq_p (harden_readonly_paths K (bu_readonly_paths ?b)) (?rest c')))
      (\<lambda>h. \<forall>path \<in> set (bu_masked_paths ?b). hidden K h path)"
      by (rule ensures_seq_first [OF mask_paths_hide]) (auto intro: grow)
    show "ensures (seq_p (mask_paths K (bu_masked_paths ?b)) (seq_p (harden_readonly_paths K (bu_readonly_paths ?b)) (?rest c')))
      (\<lambda>h. \<forall>path \<in> set (bu_readonly_paths ?b). made_readonly K h path)"
      by (rule ensures_seq_then, rule ensures_seq_first [OF readonly_paths_lock]) (auto intro: grow)
  qed (intro ensures_seq_then [of "seq_p (harden_readonly_paths K (bu_readonly_paths ?b)) (?rest c')"] ensures_seq_then [of "?rest c'"] rootfs)
  then show ?thesis
    unfolding init_harden_def Let_def by (simp add: True, intro ensures_then)
qed (simp add: ensures_def)

lemma init_seccomp_filters: "ensures (init_seccomp K b) (filtered K b)"
proof -
  have "ensures (bind_p (seccomp_apply K s) (\<lambda>_. ret ())) (\<lambda>h. filter_complete K s h \<and> done_sc K h ScLoad)" for s
  proof (rule ensures_first)
    show "ensures (seccomp_apply K s) (\<lambda>h. filter_complete K s h \<and> done_sc K h ScLoad)"
      unfolding seccomp_apply_def
      by (intro ensures_conj ensures_first [OF seccomp_build_completes] ensures_then ensures_seq_first ensures_do_op
          stable_filter_complete stable_asked) (auto simp: grows_def intro!: emits_intros)
  qed (auto intro: grows_intros stable_conj stable_filter_complete)
  then have "ensures (init_seccomp K b) (\<lambda>h. \<forall>s. bu_seccomp b = Some s \<longrightarrow> filter_complete K s h \<and> done_sc K h ScLoad)"
    unfolding init_seccomp_def by (intro ensures_given)
  then show ?thesis by (simp add: filtered_def [abs_def])
qed

lemma drop_privileges_takes: "ensures (drop_privileges K proc) (identity_taken K (pr_user proc))"
proof -
  let ?u = "pr_user proc"
  have "wp (seq_p (do_op K c1 (Cred (SetGroups (flat (us_additional_gids ?u)))))
      (seq_p (when_p b (keep_caps_across_setuid K True))
      (seq_p (do_op K c2 (Cred (SetGid (us_gid ?u))))
      (seq_p (do_op K c3 (Cred (SetUid (us_uid ?u))))
      (when_p b (keep_caps_across_setuid K False)))))) (\<lambda>_. identity_taken K ?u) (\<lambda>_ _. True) h" for b c1 c2 c3 h
    unfolding keep_caps_across_setuid_def wp_simps identity_taken_def
    by (cases b) (simp_all split: option.split)
  then show ?thesis
    unfolding drop_privileges_def Let_def by (intro ensuresI) (simp add: wp_bind wp_ask)
qed

lemma grows_security:
  "grows (init_seccomp K b)" "grows (drop_bounding K c)" "grows (drop_privileges K proc)" "grows (apply_capabilities K c)"
  "grows (set_no_new_privs K)"
  by (rule emits_grows, rule init_seccomp_ordinary privileges_ordinary)+

lemma grows_when: "grows m \<Longrightarrow> grows (when_p b m)"
  by (simp add: grows_def emits_when)

lemma grows_given: "(\<And>y. grows (f y)) \<Longrightarrow> grows (given x f)"
  by (simp add: grows_def emits_given)

lemma grows_seq: "grows m \<Longrightarrow> grows n \<Longrightarrow> grows (seq_p m n)"
  by (simp add: grows_def emits_seq)

lemmas grows_rules = grows_when grows_given grows_seq grows_security

lemma process_step_secures:
  "ensures (seq_p (given (pr_capabilities proc) (drop_bounding K))
     (seq_p (drop_privileges K proc)
     (seq_p (given (pr_capabilities proc) (apply_capabilities K))
     (when_p (no_new_privs b) (set_no_new_privs K))))) (process_secured K b proc)" (is "ensures ?m _")
proof -
  have bounding: "ensures ?m (\<lambda>h. \<forall>c. pr_capabilities proc = Some c \<longrightarrow> bounding_reduced K c h)"
    by (rule ensures_seq_first [OF ensures_given]) (auto intro!: drop_bounding_reduces stable_all stable_imp stable_caps grows_rules)
  have identity: "ensures ?m (identity_taken K (pr_user proc))"
    by (rule ensures_seq_then, rule ensures_seq_first [OF drop_privileges_takes]) (auto intro!: grows_rules stable_facts)
  have caps: "ensures ?m (\<lambda>h. \<forall>c. pr_capabilities proc = Some c \<longrightarrow> capabilities_applied K c h)"
    by (rule ensures_seq_then, rule ensures_seq_then, rule ensures_seq_first [OF ensures_given])
      (auto intro!: apply_capabilities_applies stable_all stable_imp stable_caps grows_rules)
  have nnp: "ensures ?m (\<lambda>h. no_new_privs b \<longrightarrow> done_op K h (Cred NoNewPrivs))"
    by (rule ensures_seq_then, rule ensures_seq_then, rule ensures_seq_then)
      (auto intro!: ensures_when ensures_do_op simp: set_no_new_privs_def)
  from ensures_conj [OF ensures_conj [OF bounding identity] ensures_conj [OF caps nnp]] show ?thesis
    by (rule ensures_mono) (auto simp: process_secured_def)
qed

lemma init_security_secures: "ensures (init_security K p) (secured K (pl_bundle p))"
proof -
  let ?b = "pl_bundle p"
  let ?proc = "\<lambda>proc. seq_p (given (pr_capabilities proc) (drop_bounding K))
     (seq_p (drop_privileges K proc)
     (seq_p (given (pr_capabilities proc) (apply_capabilities K))
     (when_p (no_new_privs ?b) (set_no_new_privs K))))"
  have grow: "grows (given (bu_process ?b) ?proc)" by (intro grows_rules)
  have early: "ensures (init_security K p) (\<lambda>h. \<not> no_new_privs ?b \<longrightarrow> filtered K ?b h)"
    unfolding init_security_def Let_def
    by (rule ensures_seq_first [OF ensures_when])
      (auto intro!: init_seccomp_filters stable_imp stable_facts grows_rules grow)
  have late: "ensures (init_security K p) (\<lambda>h. no_new_privs ?b \<longrightarrow> filtered K ?b h)"
    unfolding init_security_def Let_def
    by (rule ensures_seq_then, rule ensures_seq_then) (auto intro!: ensures_when init_seccomp_filters)
  have process: "ensures (init_security K p) (\<lambda>h. \<forall>proc. bu_process ?b = Some proc \<longrightarrow> process_secured K ?b proc h)"
    unfolding init_security_def Let_def
    by (rule ensures_seq_then, rule ensures_seq_first [OF ensures_given])
      (auto intro!: process_step_secures stable_all stable_imp stable_facts grows_rules)
  from ensures_conj [OF ensures_conj [OF early late] process] show ?thesis
    by (rule ensures_mono) (auto simp: secured_def)
qed

section \<open>Control is handed over only when the container is confined\<close>

text \<open>The calls that hand over control to the runtime's user or to the container's program.\<close>

fun hands_over :: "sysop \<Rightarrow> bool" where
  "hands_over (Chan (ChanSend (InitReady _))) = True"
| "hands_over (Fd (FdWrite _ _)) = True"
| "hands_over (Proc (Execve _ _ _)) = True"
| "hands_over _ = False"

definition confined :: "outside \<Rightarrow> plan \<Rightarrow> history \<Rightarrow> bool" where
  "confined K p h \<longleftrightarrow> (\<exists>pid. asked K h (Chan ChanRecv) (\<lambda>r. r_err r = None \<and> r_msg r = Some (CgroupApplied pid)))
     \<and> (pl_cgroup_ns p \<longrightarrow> done_op K h (Ns (Unshare CLONE_NEWCGROUP)))
     \<and> (unshares p CLONE_NEWNS \<longrightarrow> root_changed K h \<and> hardened K (pl_bundle p) h)
     \<and> secured K (pl_bundle p) h"

lemma ordinary_no_handover: "emits ordinary m \<Longrightarrow> emits (\<lambda>op. \<not> hands_over op) m"
proof (erule emits_mono)
  show "ordinary op \<Longrightarrow> \<not> hands_over op" for op by (cases op rule: ordinary.cases) auto
qed

lemma init_host_pid_waits:
  "ensures (init_host_pid K)
     (\<lambda>h. \<exists>pid. asked K h (Chan ChanRecv) (\<lambda>r. r_err r = None \<and> r_msg r = Some (CgroupApplied pid)))"
  by (rule ensuresI)
    (auto simp: init_host_pid_def expect_def wp_simps received_def decode_reply_def ok_or_def expected_Inr Let_def
      split: option.split sum.split message.split)

lemma guards_split: "(\<And>a b. guards P G F (f a b)) \<Longrightarrow> guards P G F (case p of (a, b) \<Rightarrow> f a b)"
  by (cases p) simp

lemma stable_done_when: "stable (\<lambda>h. b \<longrightarrow> done_op K h op)"
  by (intro stable_imp stable_asked)

lemma stable_waited: "stable (\<lambda>h. \<exists>pid. asked K h (Chan ChanRecv) (\<lambda>r. r_err r = None \<and> r_msg r = Some (CgroupApplied pid)))"
  by (intro stable_ex stable_asked)

lemma stable_root: "stable (\<lambda>h. b \<longrightarrow> root_changed K h)" "stable (\<lambda>h. b \<longrightarrow> hardened K bu h)"
  by (intro stable_imp stable_facts)+

lemmas stable_steps = stable_done_when stable_waited stable_root stable_facts stable_conj

lemma stable_confined: "stable (confined K p)"
proof -
  have "stable (\<lambda>h. b \<longrightarrow> root_changed K h \<and> hardened K (pl_bundle p) h)" for b
    by (intro stable_imp stable_conj stable_facts)
  then show ?thesis
    unfolding confined_def [abs_def] by (intro stable_conj stable_waited stable_done_when stable_facts)
qed

text \<open>
  The facts of the run before the init (\<open>G\<close>) and those the init establishes itself hold when it
  hands over; the three calls that do are the last steps.
\<close>

lemma container_init_guards:
  assumes G: "stable G"
  shows "guards hands_over G (\<lambda>h. G h \<and> confined K p h) (container_init K p)"
proof -
  note quiet = steps_ordinary [THEN ordinary_no_handover]
  let ?F = "\<lambda>h. G h \<and> confined K p h"
  have stable: "stable ?F" by (intro stable_conj G stable_confined)
  have tail: "guards hands_over ?F ?F
     (bind_p (rec_take K clock) (\<lambda>(phases, _).
         seq_p (send K (InitReady phases))
         (seq_p (fifo_park K (pl_fifo p))
         (seq_p (hooks_run K hs StartContainer st)
         (seq_p (unblock_all K) (do_op K SyscallErr (Proc (Execve program argv env))))))))" for clock hs st program argv env
    by (rule guards_known [OF _ stable])
      (auto simp: grows_def rec_take_def rec_end_def elapsed_us_def fifo_park_def unblock_all_def
        intro!: emits_intros emits_mono [OF hooks_run_ordinary])
  have "ensures (when_p (pl_cgroup_ns p) (do_op K SyscallErr (Ns (Unshare CLONE_NEWCGROUP))))
      (\<lambda>h. pl_cgroup_ns p \<longrightarrow> done_op K h (Ns (Unshare CLONE_NEWCGROUP)))"
    by (intro ensures_when ensures_do_op)
  moreover have "emits (\<lambda>op. \<not> hands_over op) (when_p (pl_cgroup_ns p) (do_op K SyscallErr (Ns (Unshare CLONE_NEWCGROUP))))"
    by (intro emits_intros) simp
  ultimately show ?thesis
    unfolding container_init_def
    apply -
    apply (rule guards_note [OF quiet(1) G init_host_pid_waits])
    apply (rule guards_skip [OF quiet(2)], intro G stable_steps)
    apply (rule guards_skip [OF quiet(4)], intro G stable_steps)
    apply (rule guards_note_seq, assumption, intro G stable_steps, assumption)
    apply (rule guards_note [OF quiet(6) _ init_rootfs_changes_root], intro G stable_steps)
    apply (rule guards_skip [OF quiet(4)], intro G stable_steps)
    apply (rule guards_skip_seq [OF quiet(7)], intro G stable_steps)
    apply (rule guards_note [OF quiet(8) _ init_harden_hardens], intro G stable_steps)
    apply (rule guards_skip [OF quiet(9)], intro G stable_steps)
    apply (rule guards_split)+
    apply (rule guards_skip_seq [OF quiet(10)], intro G stable_steps)
    apply (rule guards_skip_seq [OF quiet(11)], intro G stable_steps)
    apply (rule guards_skip [OF quiet(4)], intro G stable_steps)
    apply (rule guards_note_seq [OF quiet(12) _ init_security_secures], intro G stable_steps)
    apply (rule guards_weaken [OF tail])
    apply (simp add: confined_def)
    done
qed

section \<open>The init is forked inside its namespaces\<close>

definition joined :: "outside \<Rightarrow> history \<Rightarrow> ns_type \<times> string \<Rightarrow> bool" where
  "joined K h = (\<lambda>(kind, path). \<exists>handle.
     asked K h (Fd (OpenFd path ORead)) (\<lambda>r. r_err r = None \<and> r_num r = handle)
     \<and> done_op K h (Ns (SetNs handle (flag_for kind))))"

definition mapped_as_root :: "outside \<Rightarrow> history \<Rightarrow> bool" where
  "mapped_as_root K h \<longleftrightarrow> done_op K h (Chan (ChanSend RequestUserMapping))
     \<and> asked K h (Chan ChanRecv) (\<lambda>r. r_err r = None \<and> r_msg r = Some UserMappingDone)
     \<and> done_op K h (Cred (SetResGid 0)) \<and> done_op K h (Cred (SetResUid 0))"

definition entered :: "outside \<Rightarrow> plan \<Rightarrow> history \<Rightarrow> bool" where
  "entered K p h \<longleftrightarrow> (\<forall>ns \<in> set (pl_join p). joined K h ns)
     \<and> (\<forall>(name, flag) \<in> set unshare_order. unshares p flag \<longrightarrow> done_op K h (Ns (Unshare flag)))
     \<and> (unshares p CLONE_NEWUSER \<longrightarrow> mapped_as_root K h)"

lemma stable_joined: "stable (\<lambda>h. joined K h ns)"
  unfolding joined_def by (cases ns) (simp, intro stable_ex stable_conj stable_asked)

lemma stable_all_joined: "stable (\<lambda>h. \<forall>ns \<in> A. joined K h ns)"
  by (intro stable_ball stable_joined)

lemma stable_mapped: "stable (mapped_as_root K)"
  unfolding mapped_as_root_def [abs_def] by (intro stable_conj stable_asked)

lemma stable_unshared:
  "stable (\<lambda>h. \<forall>(name, flag) \<in> A. unshares p flag \<longrightarrow> done_op K h (Ns (Unshare flag)))"
  by (auto simp: stable_def intro: asked_append)

lemma stable_entered: "stable (entered K p)"
  unfolding entered_def [abs_def] by (intro stable_conj stable_ball stable_joined stable_unshared stable_imp stable_mapped)

lemma join_existing_joins: "ensures (join_existing K p) (\<lambda>h. \<forall>ns \<in> set (pl_join p). joined K h ns)"
  unfolding join_existing_def
proof (rule ensures_each)
  show "ensures (join_one K ns) (\<lambda>h. joined K h ns)" for ns
    by (rule ensuresI) (cases ns; auto simp: join_one_def joined_def wp_simps split: option.split)
  show "grows (join_one K ns)" for ns
    unfolding grows_def join_one_def by (cases ns) (auto intro!: emits_intros)
qed (rule stable_joined)

fun setup_call :: "sysop \<Rightarrow> bool" where
  "setup_call (Proc _) = False"
| "setup_call (Chan (ChanSend RequestUserMapping)) = True"
| "setup_call (Chan (ChanSend _)) = False"
| "setup_call (Fd (FdWrite _ _)) = False"
| "setup_call _ = True"

fun_cases setup_callE: "setup_call op"

lemma clock_setup: "emits setup_call (recorder_new K)" "emits setup_call (rec_begin K n c)"
  unfolding recorder_new_def wall_nanos_def rec_begin_def rec_end_def elapsed_us_def by (intro emits_intros; simp)+

lemma join_existing_setup: "emits setup_call (join_existing K p)"
  unfolding join_existing_def join_one_def by (intro emits_intros) auto

lemma unshare_each_setup: "emits setup_call (unshare_each K p order c)"
  by (induction K p order c rule: unshare_each.induct)
    (auto simp: write_time_offsets_def intro!: emits_intros clock_setup)

lemma map_users_setup: "emits setup_call (map_users K p c)"
  unfolding map_users_def become_root_in_namespace_def by (intro emits_intros clock_setup) auto

lemma unshare_each_unshares:
  "ensures (unshare_each K p order c) (\<lambda>h. \<forall>(name, flag) \<in> set order. unshares p flag \<longrightarrow> done_op K h (Ns (Unshare flag)))"
proof (induction K p order c rule: unshare_each.induct)
  case (2 K p name flag rest clock)
  show ?case
  proof (cases "unshares p flag")
    case True
    have "ensures (bind_p (rec_begin K (''unshare.'' @ name) clock) (\<lambda>clock.
        seq_p (do_op K SyscallErr (Ns (Unshare flag)))
        (seq_p (when_p (name = ''time'') (write_time_offsets K (bu_time_offsets (pl_bundle p))))
          (unshare_each K p rest clock))))
      (\<lambda>h. done_op K h (Ns (Unshare flag)) \<and> (\<forall>(name, flag) \<in> set rest. unshares p flag \<longrightarrow> done_op K h (Ns (Unshare flag))))"
    proof (intro ensures_conj ensures_then)
      show "ensures (seq_p (do_op K SyscallErr (Ns (Unshare flag)))
        (seq_p (when_p (name = ''time'') (write_time_offsets K (bu_time_offsets (pl_bundle p))))
          (unshare_each K p rest clock))) (\<lambda>h. done_op K h (Ns (Unshare flag)))" for clock
        by (intro ensures_seq_first ensures_do_op stable_asked grows_seq grows_when emits_grows [OF unshare_each_setup])
          (auto simp: grows_def write_time_offsets_def intro!: emits_intros)
    qed (intro ensures_seq_then, rule 2, simp add: True)
    with True show ?thesis by simp
  qed (use 2 in simp)
qed (simp add: ensures_def)

lemma kind_user_mapping: "message_kind m = ''UserMappingDone'' \<longleftrightarrow> m = UserMappingDone"
  by (cases m) auto

lemma map_users_maps: "ensures (map_users K p c) (\<lambda>h. unshares p CLONE_NEWUSER \<longrightarrow> mapped_as_root K h)"
proof (cases "unshares p CLONE_NEWUSER")
  case True
  have "wp (seq_p (send K RequestUserMapping)
        (bind_p (expect K ''UserMappingDone'') (\<lambda>_. seq_p (become_root_in_namespace K) (ret clock))))
      (\<lambda>_. mapped_as_root K) (\<lambda>_ _. True) h" for clock h
    unfolding expect_def become_root_in_namespace_def wp_simps mapped_as_root_def
    by (auto simp: received_def decode_reply_def ok_or_def expected_Inr kind_user_mapping Let_def
        split: option.split sum.split)
  then show ?thesis
    unfolding map_users_def by (simp add: True) (intro ensures_then ensuresI)
qed (simp add: ensures_def)

lemma setup_no_handover: "emits setup_call m \<Longrightarrow> emits (\<lambda>op. \<not> hands_over op) m"
proof (erule emits_mono)
  show "setup_call op \<Longrightarrow> \<not> hands_over op" for op by (cases op rule: setup_call.cases) auto
qed

lemma setup_no_proc: "emits setup_call m \<Longrightarrow> emits (\<lambda>op. op \<noteq> Proc c) m"
  by (erule emits_mono) auto

lemma ordinary_no_fork: "emits ordinary m \<Longrightarrow> emits (\<lambda>op. op \<noteq> Proc Fork) m"
  by (erule emits_mono) auto

lemma leave_calls [emits_intros]:
  assumes "\<And>code. P (Proc (ExitProc code))" "\<And>text. P (Tty (PrintErr text))"
  shows "emits P (die K text code)" "emits P (leave_quietly K e)" "emits P (leave_loudly K e)"
  unfolding leave_quietly_def leave_loudly_def die_def exit_with_def
  by (intro emits_intros; rule assms)+

lemma report_failure_guards:
  assumes "guards P G F m" "\<And>reason. \<not> P (Chan (ChanSend (Failed reason)))" "\<And>e. emits (\<lambda>op. \<not> P op) (leave e)"
  shows "guards P G F (report_failure K leave m)"
  unfolding report_failure_def
  by (rule guards_on_result [OF assms(1), where E = "\<lambda>_ _. True"])
    (auto intro!: guards_no_call emits_intros wp_mono [OF wp_true] simp: assms(2,3) split: sum.split)

text \<open>The steps before the fork, for any class of calls that none of them makes.\<close>

lemma stage_one_guards:
  assumes no: "\<And>op. setup_call op \<Longrightarrow> \<not> P op"
    and fork: "guards P (entered K p) F (io K SyscallErr (Proc Fork) r_num)"
    and child: "guards P (entered K p) F (report_failure K (leave_loudly K) (container_init K p))"
    and parent: "\<And>child phases. \<not> P (Chan (ChanSend (InitPid child phases)))" "\<not> P (Proc (ExitProc 0))"
  shows "guards P (\<lambda>_. True) F (stage_one K p)"
proof -
  have quiet: "emits setup_call m \<Longrightarrow> emits (\<lambda>op. \<not> P op) m" for m :: "'b prog"
    by (erule emits_mono) (rule no)
  have clock: "emits (\<lambda>op. \<not> P op) (recorder_new K)" "emits (\<lambda>op. \<not> P op) (rec_begin K n c)"
      "emits (\<lambda>op. \<not> P op) (rec_take K c)" for n c
    unfolding recorder_new_def wall_nanos_def rec_begin_def rec_end_def elapsed_us_def rec_take_def
    by (intro emits_intros; simp add: no)+
  have exit0: "emits (\<lambda>op. \<not> P op) (bind_p (rec_take K c) (\<lambda>(phases, _). seq_p (send K (InitPid i phases)) (exit_with K 0)))" for c i
    unfolding exit_with_def by (intro emits_intros clock) (auto simp: parent intro!: emits_intros)
  have forked: "guards P (entered K p) F (bind_p (io K SyscallErr (Proc Fork) r_num) (\<lambda>i. if i \<noteq> 0
      then bind_p (rec_take K c) (\<lambda>(phases, _). seq_p (send K (InitPid i phases)) (exit_with K 0))
      else report_failure K (leave_loudly K) (container_init K p)))" for c
  proof (rule guards_bind [OF fork, where E = "\<lambda>_. entered K p"])
    show "wp (io K SyscallErr (Proc Fork) r_num) (\<lambda>_. entered K p) (\<lambda>_ _. True) h" if "entered K p h" for h
      using that stable_entered [unfolded stable_def, rule_format, of K p h "[Proc Fork]"]
      by (simp add: wp_simps split: option.split)
  qed (auto intro: child guards_no_call exit0)
  show ?thesis
    unfolding stage_one_def
    apply (rule guards_skip [OF clock(1)], intro stable_const)
    apply (rule guards_skip [OF clock(2)], intro stable_const)
    apply (rule guards_note_seq [OF quiet [OF join_existing_setup] _ join_existing_joins], intro stable_const)
    apply (rule guards_note [OF quiet [OF unshare_each_setup] _ unshare_each_unshares],
        intro stable_conj stable_const stable_all_joined)
    apply (rule guards_note [OF quiet [OF map_users_setup] _ map_users_maps],
        intro stable_conj stable_const stable_all_joined stable_unshared)
    apply (rule guards_skip [OF clock(2)],
        intro stable_conj stable_const stable_all_joined stable_unshared stable_imp stable_mapped)
    apply (rule guards_weaken [OF forked])
    apply (simp add: entered_def)
    done
qed

text \<open>
  C4: control leaves the runtime only when the container is confined. Whenever either process tells
  the runtime that the container is ready, announces it on the exec fifo, or executes the program,
  every namespace of the plan has been joined or created, the runtime has confirmed that the init is
  in its control group, and, with a mount namespace, the root was changed and hardened; the system call filter is
  loaded and complete, and user, groups, capabilities and no-new-privileges are those of the
  specification. This holds for every kernel and after every failure.
\<close>

theorem control_only_when_confined:
  "guarded hands_over (\<lambda>h. entered K p h \<and> confined K p h) (intermediate K p)"
  unfolding intermediate_def
  by (intro guarded_guards report_failure_guards stage_one_guards container_init_guards stable_entered guards_no_call)
    (auto intro!: emits_intros elim: setup_callE)

lemma container_init_no_fork: "emits (\<lambda>op. op \<noteq> Proc Fork) (container_init K p)"
  unfolding container_init_def fifo_park_def
  by (intro emits_intros steps_ordinary [THEN ordinary_no_fork]) auto

lemma intermediate_grows: "grows (intermediate K p)"
proof -
  have quiet: "emits P m \<Longrightarrow> emits (\<lambda>_. True) m" for P and m :: "'a prog" by (erule emits_mono) simp
  have clock: "emits (\<lambda>_. True) (recorder_new K)" "emits (\<lambda>_. True) (rec_begin K n c)" "emits (\<lambda>_. True) (rec_take K c)" for n c
    by (rule emits_mono [OF clock_ordinary(1)] emits_mono [OF clock_ordinary(3)] emits_mono [OF clock_ordinary(4)], simp)+
  show ?thesis
    unfolding grows_def intermediate_def report_failure_def stage_one_def exit_with_def leave_quietly_def leave_loudly_def die_def
    by (intro emits_intros clock emits_mono [OF join_existing_setup] emits_mono [OF unshare_each_setup]
        emits_mono [OF map_users_setup] emits_mono [OF container_init_no_fork]; simp)
qed

text \<open>
  The init is forked only inside its namespaces: at the fork every listed namespace has been
  joined through its own path, every requested one created, and in a new user namespace the runtime
  has confirmed the id mappings and the process has become their root. The child is therefore the
  first process of a new PID namespace.
\<close>

theorem fork_inside_namespaces:
  "guarded (\<lambda>op. op = Proc Fork) (entered K p) (intermediate K p)"
  unfolding intermediate_def
  by (intro guarded_guards report_failure_guards stage_one_guards guards_no_call [OF container_init_no_fork] guards_known [OF _ stable_entered])
    (auto intro: emits_intros simp: grows_def elim: setup_callE)

fun is_exec :: "sysop \<Rightarrow> bool" where
  "is_exec (Proc (Execve _ _ _)) = True"
| "is_exec _ = False"

definition start_awaited :: "outside \<Rightarrow> plan \<Rightarrow> history \<Rightarrow> bool" where
  "start_awaited K p h \<longleftrightarrow> (\<exists>phases. done_op K h (Chan (ChanSend (InitReady phases))))
     \<and> (\<exists>writer. asked K h (Fd (OpenFd (fd_path (pl_fifo p)) OWrite)) (\<lambda>r. r_err r = None \<and> r_num r = writer)
           \<and> done_op K h (Fd (FdWrite writer [char_of HANDSHAKE])))
     \<and> done_op K h (Proc SigUnblockAll)"

lemma park_writes:
  "ensures (fifo_park K fd) (\<lambda>h. \<exists>writer.
     asked K h (Fd (OpenFd (fd_path fd) OWrite)) (\<lambda>r. r_err r = None \<and> r_num r = writer)
     \<and> done_op K h (Fd (FdWrite writer [char_of HANDSHAKE])))"
  by (rule ensuresI) (auto simp: fifo_park_def wp_simps split: option.split)

lemma send_sends: "ensures (send K m) (\<lambda>h. done_op K h (Chan (ChanSend m)))"
  unfolding send_def by (rule ensures_do_op)

lemma unblock_unblocks: "ensures (unblock_all K) (\<lambda>h. done_op K h (Proc SigUnblockAll))"
  unfolding unblock_all_def by (rule ensures_do_op)

lemma ordinary_no_exec: "emits ordinary m \<Longrightarrow> emits (\<lambda>op. \<not> is_exec op) m"
proof (erule emits_mono)
  show "ordinary op \<Longrightarrow> \<not> is_exec op" for op by (cases op rule: ordinary.cases) auto
qed

lemma send_no_exec: "emits (\<lambda>op. \<not> is_exec op) (send K m)" "emits (\<lambda>op. \<not> is_exec op) (fifo_park K fd)"
  unfolding fifo_park_def by (intro emits_intros; simp)+

lemma stable_parked:
  "stable (\<lambda>h. \<exists>writer. asked K h (Fd (OpenFd path OWrite)) (\<lambda>r. r_err r = None \<and> r_num r = writer)
     \<and> done_op K h (Fd (FdWrite writer text)))"
  by (intro stable_ex stable_conj stable_asked)

lemma container_init_waits: "guards is_exec G (start_awaited K p) (container_init K p)"
proof -
  have tail: "guards is_exec (\<lambda>_. True) (start_awaited K p)
     (bind_p (rec_take K clock) (\<lambda>(phases, _).
         seq_p (send K (InitReady phases))
         (seq_p (fifo_park K (pl_fifo p))
         (seq_p (hooks_run K hs StartContainer st)
         (seq_p (unblock_all K) (do_op K SyscallErr (Proc (Execve program argv env))))))))" for clock hs st program argv env
    apply (rule guards_skip [OF clock_ordinary(4) [THEN ordinary_no_exec]], intro stable_const)
    apply (rule guards_split)+
    apply (rule guards_note_seq [OF send_no_exec(1) _ send_sends], intro stable_const)
    apply (rule guards_note_seq [OF send_no_exec(2) _ park_writes], intro stable_conj stable_const stable_asked)
    apply (rule guards_skip_seq [OF hooks_run_ordinary [THEN ordinary_no_exec]],
        intro stable_conj stable_const stable_asked stable_parked)
    apply (rule guards_note_seq [OF unblock_all_ordinary [THEN ordinary_no_exec] _ unblock_unblocks],
        intro stable_conj stable_const stable_asked stable_parked)
    apply (rule guards_do_op)
    apply (auto simp: start_awaited_def)
    done
  have cgroup: "emits (\<lambda>op. \<not> is_exec op) (when_p b (do_op K c (Ns op)))" for b c op
    by (intro emits_intros) simp
  have "guards is_exec (\<lambda>_. True) (start_awaited K p) (container_init K p)"
    unfolding container_init_def
    by (rule tail guards_split | rule guards_skip guards_skip_seq, rule steps_ordinary [THEN ordinary_no_exec] cgroup, rule stable_const)+
  then show ?thesis by (rule guards_weaken) simp
qed

text \<open>
  C14: the container's program runs only after the start. Before the init executes it, the runtime
  was told that the container is ready, the handshake byte went through the exec fifo (so somebody
  has opened it to start the container), and the signals the runtime had blocked are unblocked.
\<close>

theorem program_runs_after_start:
  "guarded is_exec (start_awaited K p) (intermediate K p)"
  unfolding intermediate_def
  by (intro guarded_guards report_failure_guards stage_one_guards container_init_waits guards_no_call)
    (auto intro!: emits_intros elim: setup_callE)

definition process_over :: "outside \<Rightarrow> history \<Rightarrow> bool" where
  "process_over K h \<longleftrightarrow> (case h of
     Proc (ExitProc code) # Chan (ChanSend (InitPid pid phases)) # h' \<Rightarrow>
       code = 0 \<and> r_err (answer K h' (Chan (ChanSend (InitPid pid phases)))) = None
   | Proc (ExitProc code) # Chan (ChanSend (Failed reason)) # _ \<Rightarrow> code = 1
   | Proc (ExitProc code) # Tty (PrintErr text) # Chan (ChanSend (Failed reason)) # _ \<Rightarrow> code = 1 \<or> code = 101
   | Proc (Execve program argv env) # h' \<Rightarrow> r_err (answer K h' (Proc (Execve program argv env))) = None
   | _ \<Rightarrow> False)"

lemma report_failure_over:
  assumes "ensures m (process_over K)" "leave = leave_quietly K \<or> leave = leave_loudly K"
  shows "wp (report_failure K leave m) (\<lambda>_. process_over K) (\<lambda>_ _. False) h"
  using assms unfolding report_failure_def wp_on_result
  by - (rule wpI; auto simp: ensures_def wp_simps leave_quietly_def leave_loudly_def die_def exit_with_def process_over_def
      split: option.split)

lemma container_init_over: "ensures (container_init K p) (process_over K)"
proof -
  have exec: "ensures (do_op K c (Proc (Execve program argv env))) (process_over K)" for c program argv env
    by (rule ensuresI) (simp add: wp_simps process_over_def split: option.split)
  show ?thesis
    unfolding container_init_def case_prod_beta
    by (rule exec | rule ensures_then ensures_seq_then)+
qed

text \<open>
  C15: neither process is left behind and no failure is silent: the intermediate process never
  returns, and it ends in one of three ways. It sent the init's pid and exits with 0; or it (or its
  child) was replaced by the container's program; or it reported the reason of the failure to the
  runtime and exits with 1, the init after it has said so on standard error (with 101 when it cannot).
\<close>

theorem failure_is_reported:
  "wp (intermediate K p) (\<lambda>_. process_over K) (\<lambda>_ _. False) h"
  unfolding intermediate_def
proof (rule report_failure_over)
  have parent: "ensures (seq_p (send K (InitPid i phases)) (exit_with K 0)) (process_over K)" for i phases
    by (rule ensuresI) (simp add: wp_simps exit_with_def process_over_def split: option.split)
  have child: "ensures (report_failure K (leave_loudly K) (container_init K p)) (process_over K)"
    by (rule ensuresI, rule wp_mono [OF report_failure_over [OF container_init_over]]) simp_all
  show "leave_quietly K = leave_quietly K \<or> leave_quietly K = leave_loudly K" by simp
  show "ensures (stage_one K p) (process_over K)"
    unfolding stage_one_def
    by (rule ensures_then ensures_seq_then)+ (auto intro: child ensures_then parent)
qed

end
