(* ===== verification/Exec.thy ===== *)
theory Exec
  imports Init State
begin

text \<open>
  \<^verbatim>\<open>src/src/container/exec.rs\<close>: running a further process in a running container. The
  runtime joins the container's namespaces itself, forks, and its child becomes the process. As in
  \<open>Init\<close>, one history follows one process, and the child's result counts as its exit code.
\<close>

definition exec_join_order :: "(string \<times> clone_flags) list" where
  "exec_join_order =
     [(''user'', CLONE_NEWUSER), (''ipc'', CLONE_NEWIPC), (''uts'', CLONE_NEWUTS), (''net'', CLONE_NEWNET),
      (''pid'', CLONE_NEWPID), (''cgroup'', CLONE_NEWCGROUP), (''mnt'', CLONE_NEWNS)]"

record exec_options =
  eo_argv :: "string list"
  eo_env :: "string list"
  eo_cwd :: "string option"
  eo_process :: "string option"
  eo_user :: "string option"
  eo_additional_gids :: "nat list"
  eo_console_socket :: "string option"
  eo_tty :: bool
  eo_detach :: bool
  eo_pid_file :: "string option"
  eo_ignore_paused :: bool

record target =
  ta_argv :: "string list"
  ta_env :: "string list"
  ta_cwd :: string
  ta_uid :: "nat option"
  ta_gid :: "nat option"
  ta_groups :: "nat list"
  ta_terminal :: bool

section \<open>What to run\<close>

definition parse_user :: "string \<Rightarrow> (nat option \<times> nat option) res" where
  "parse_user text =
     (let (uid, gid) = (case split_once (CHR '':'') text of
          Some (uid, gid) \<Rightarrow> (uid, Some gid) | None \<Rightarrow> (text, None));
          bad = Invalid ''--user must be UID[:GID] as numbers'' in
      and_then (ok_or (parse_unsigned u32_bound uid) bad) (\<lambda>uid.
      and_then (case gid of
          Some gid \<Rightarrow> and_then (ok_or (parse_unsigned u32_bound gid) bad) (\<lambda>gid. Inr (Some gid))
        | None \<Rightarrow> Inr None) (\<lambda>gid.
      Inr (Some uid, gid))))"

definition read_process :: "outside \<Rightarrow> string option \<Rightarrow> process option prog" where
  "read_process K path = (case path of
     Some path \<Rightarrow> bind_p (io K (IoErr ''read the process'') (Query (ReadFile path)) r_text) (\<lambda>text.
       lift_res (and_then (ok_or (parse_process K text) JsonErr) (\<lambda>p. Inr (Some p))))
   | None \<Rightarrow> ret None)"

definition target_argv :: "process option \<Rightarrow> exec_options \<Rightarrow> string list res" where
  "target_argv process opts =
     and_then (case process of
         Some p \<Rightarrow> Inr (flat (pr_args p))
       | None \<Rightarrow> if eo_argv opts \<noteq> [] then Inr (eo_argv opts) else Inl (SpecField ''process.args'')) (\<lambda>argv.
     if argv = [] then Inl (SpecField ''process.args'') else Inr argv)"

definition target_env :: "oci_bundle option \<Rightarrow> process option \<Rightarrow> exec_options \<Rightarrow> string list res" where
  "target_env spec process opts =
     (let base = (case process of Some p \<Rightarrow> flat (pr_env p) | None \<Rightarrow> get_or [] (map_option bu_env spec)) in
      and_then (map_res (\<lambda>entry. if CHR ''='' \<notin> set entry
          then Inl (Invalid ''--env is not in KEY=VALUE form'') else Inr entry) (eo_env opts)) (\<lambda>extra.
      Inr (base @ extra)))"

definition target_cwd :: "oci_bundle option \<Rightarrow> process option \<Rightarrow> exec_options \<Rightarrow> string" where
  "target_cwd spec process opts =
     (let chosen = (case eo_cwd opts of Some cwd \<Rightarrow> Some cwd
        | None \<Rightarrow> (case process of Some p \<Rightarrow> Some (pr_cwd p) | None \<Rightarrow> Option.bind spec bu_cwd)) in
      case chosen of Some cwd \<Rightarrow> if cwd \<noteq> [] then cwd else ''/'' | None \<Rightarrow> ''/'')"

definition target_ids :: "process option \<Rightarrow> exec_options \<Rightarrow> (nat option \<times> nat option) res" where
  "target_ids process opts = (case eo_user opts of
     Some text \<Rightarrow> parse_user text
   | None \<Rightarrow> (case process of
       Some p \<Rightarrow> Inr (Some (us_uid (pr_user p)), Some (us_gid (pr_user p)))
     | None \<Rightarrow> Inr (None, None)))"

definition target_groups :: "process option \<Rightarrow> exec_options \<Rightarrow> nat list" where
  "target_groups process opts =
     (if eo_additional_gids opts \<noteq> [] then eo_additional_gids opts
      else case process of Some p \<Rightarrow> flat (us_additional_gids (pr_user p)) | None \<Rightarrow> [])"

definition target_of :: "oci_bundle option \<Rightarrow> process option \<Rightarrow> exec_options \<Rightarrow> target res" where
  "target_of spec process opts =
     and_then (target_argv process opts) (\<lambda>argv.
     and_then (target_env spec process opts) (\<lambda>env.
     and_then (target_ids process opts) (\<lambda>(uid, gid).
     Inr \<lparr>ta_argv = argv, ta_env = env, ta_cwd = target_cwd spec process opts, ta_uid = uid, ta_gid = gid,
        ta_groups = target_groups process opts,
        ta_terminal = (case process of Some p \<Rightarrow> get_or False (pr_terminal p) | None \<Rightarrow> eo_tty opts)\<rparr>)))"

definition resolve_target :: "outside \<Rightarrow> container \<Rightarrow> exec_options \<Rightarrow> target prog" where
  "resolve_target K c opts =
     bind_p (or_else None (bind_p (bundle_load K (pe_bundle (co_state c))) (\<lambda>b. ret (Some b)))) (\<lambda>spec.
     bind_p (read_process K (eo_process opts)) (\<lambda>process.
     lift_res (target_of spec process opts)))"

section \<open>Entering the container\<close>

definition ns_path_of :: "int \<Rightarrow> string \<Rightarrow> string" where
  "ns_path_of pid name = ''/proc/'' @ int_text pid @ ''/ns/'' @ name"

definition own_ns_path :: "string \<Rightarrow> string" where
  "own_ns_path name = ''/proc/self/ns/'' @ name"

definition link_text :: "reply \<Rightarrow> string option" where
  "link_text r = (if r_err r = None then Some (r_text r) else None)"

fun collect_each :: "outside \<Rightarrow> int \<Rightarrow> (string \<times> clone_flags) list \<Rightarrow> (string \<times> clone_flags \<times> int) list prog" where
  "collect_each K init [] = ret []"
| "collect_each K init ((name, flag) # rest) =
     (let theirs = ns_path_of init name in
      bind_p (ask K (Query (Exists theirs)) r_flag) (\<lambda>present.
      if \<not> present then collect_each K init rest
      else bind_p (ask K (Query (ReadLink (own_ns_path name))) link_text) (\<lambda>ours.
        bind_p (ask K (Query (ReadLink theirs)) link_text) (\<lambda>target.
        if ours \<noteq> None \<and> ours = target then collect_each K init rest
        else bind_p (io K (NixErr ''open the namespace'') (Fd (OpenFd theirs ORead)) r_num) (\<lambda>handle.
          bind_p (collect_each K init rest) (\<lambda>handles.
          ret ((name, flag, handle) # handles)))))))"

definition collect :: "outside \<Rightarrow> int \<Rightarrow> (string \<times> clone_flags \<times> int) list prog" where
  "collect K init = collect_each K init exec_join_order"

definition single_threaded :: "outside \<Rightarrow> unit prog" where
  "single_threaded K =
     bind_p (io K (IoErr ''count our own threads'') (Query (ReadDir ''/proc/self/task'')) (\<lambda>r. length (r_list r))) (\<lambda>threads.
     if threads \<le> 1 then ret () else fail (Invalid ''the runtime has several threads''))"

definition open_cgroup_procs :: "outside \<Rightarrow> container \<Rightarrow> int prog" where
  "open_cgroup_procs K c =
     io K (IoErr ''open cgroup.procs before joining the container namespaces'')
       (Fd (OpenFd (path_join (cg_path (co_cgroup c)) ''cgroup.procs'') OWrite)) r_num"

definition place :: "outside \<Rightarrow> int \<Rightarrow> int \<Rightarrow> unit prog" where
  "place K procs pid = do_op K (IoErr ''write the exec process into the container's cgroup'') (Fd (FdWrite procs (int_text pid)))"

definition join_handles :: "outside \<Rightarrow> (string \<times> clone_flags \<times> int) list \<Rightarrow> unit prog" where
  "join_handles K handles = each (\<lambda>(name, flag, handle). do_op K (NixErr ''setns'') (Ns (SetNs handle flag))) handles"

definition enter :: "outside \<Rightarrow> target \<Rightarrow> int option \<Rightarrow> unit prog" where
  "enter K t console =
     seq_p (do_op K (NixErr ''chdir to / after entering the container's mount namespace'') (Mnt (Chdir ''/'')))
     (seq_p (given console (console_setup K))
     (seq_p (given (ta_gid t) (\<lambda>gid.
        seq_p (when_p (ta_groups t \<noteq> [])
            (do_op K (NixErr ''set the supplementary groups for the exec process'') (Cred (SetGroups (ta_groups t)))))
          (do_op K (NixErr ''setgid'') (Cred (SetGid gid)))))
     (seq_p (given (ta_uid t) (\<lambda>uid. do_op K (NixErr ''setuid'') (Cred (SetUid uid))))
     (seq_p (do_op K (NixErr ''chdir'') (Mnt (Chdir (ta_cwd t))))
     (bind_p (resolve_executable K (hd (ta_argv t)) (ta_env t) True) (\<lambda>program.
      bind_p (lift_res (cstring program)) (\<lambda>program.
      bind_p (lift_res (to_cstrings (ta_argv t))) (\<lambda>argv.
      bind_p (lift_res (to_cstrings (ta_env t))) (\<lambda>env.
      seq_p (unblock_all K)
        (do_op K SyscallErr (Proc (Execve program argv env))))))))))))"

section \<open>The command\<close>

definition check_exec_status :: "string \<Rightarrow> status \<Rightarrow> exec_options \<Rightarrow> unit res" where
  "check_exec_status cid status opts =
     (if status = Stopped \<or> status = Creating
      then Inl (BadState cid (status_text status) ''created or running'')
      else if status = Paused \<and> \<not> eo_ignore_paused opts
      then Inl (BadState cid ''paused'' ''running; pass --ignore-paused to exec anyway'')
      else Inr ())"

definition check_terminal :: "string option \<Rightarrow> bool \<Rightarrow> string \<Rightarrow> string \<Rightarrow> unit res" where
  "check_terminal socket terminal no_socket no_terminal =
     (case (socket, terminal) of
        (None, True) \<Rightarrow> Inl (Invalid no_socket)
      | (Some _, False) \<Rightarrow> Inl (Invalid no_terminal)
      | _ \<Rightarrow> Inr ())"

definition exec_child :: "outside \<Rightarrow> target \<Rightarrow> int option \<Rightarrow> nat prog" where
  "exec_child K t console =
     on_result (bind_p (expect K ''CgroupApplied'') (\<lambda>_. enter K t console)) (\<lambda>r. case r of
       Inr _ \<Rightarrow> ret 0
     | Inl e \<Rightarrow> seq_p (die K (''mars: exec failed: '' @ error_text e) 126) (ret 126))"

definition exec_parent :: "outside \<Rightarrow> exec_options \<Rightarrow> int \<Rightarrow> int option \<Rightarrow> int \<Rightarrow> nat prog" where
  "exec_parent K opts procs pid_out pid =
     seq_p (place K procs pid)
     (seq_p (send K (CgroupApplied pid))
     (seq_p (given pid_out (\<lambda>handle.
        do_op K (IoErr ''write the exec pid file'') (Fd (FdWrite handle (int_text pid)))))
     (if eo_detach opts then ret 0 else supervise K pid)))"

definition exec_spawn :: "outside \<Rightarrow> container \<Rightarrow> exec_options \<Rightarrow> target \<Rightarrow> nat prog" where
  "exec_spawn K c opts t =
     bind_p (collect K (co_pid c)) (\<lambda>handles.
     bind_p (case eo_console_socket opts of
         Some path \<Rightarrow> bind_p (open_socket K path) (\<lambda>fd. ret (Some fd)) | None \<Rightarrow> ret None) (\<lambda>console.
     bind_p (open_cgroup_procs K c) (\<lambda>procs.
     bind_p (case eo_pid_file opts of
         Some path \<Rightarrow> io K (IoErr ''create the pid file'') (Fs (CreateFile path)) (\<lambda>r. Some (r_num r))
       | None \<Rightarrow> ret None) (\<lambda>pid_out.
     seq_p (join_handles K handles)
     (seq_p (block_forwardable K)
     (seq_p (channel_pair K)
     (bind_p (io K SyscallErr (Proc Fork) r_num) (\<lambda>pid.
      if pid = 0 then exec_child K t console
      else exec_parent K opts procs pid_out pid))))))))"

definition exec_in :: "outside \<Rightarrow> dirs \<Rightarrow> string \<Rightarrow> exec_options \<Rightarrow> nat prog" where
  "exec_in K l cid opts =
     bind_p (container_load K l cid) (\<lambda>c.
     bind_p (container_status K c) (\<lambda>status.
     seq_p (lift_res (check_exec_status cid status opts))
     (bind_p (resolve_target K c opts) (\<lambda>t.
      seq_p (lift_res (check_terminal (eo_console_socket opts) (ta_terminal t)
          ''the exec process asks for a terminal but no --console-socket was given''
          ''--console-socket was given but the exec process does not ask for a terminal''))
      (seq_p (single_threaded K)
      (exec_spawn K c opts t))))))"

section \<open>Inside the container's namespaces\<close>

text \<open>Why a namespace of the table needs no further step: it is absent, or shared already.\<close>

definition ns_shared :: "outside \<Rightarrow> int \<Rightarrow> history \<Rightarrow> string \<Rightarrow> bool" where
  "ns_shared K init h name \<longleftrightarrow> asked K h (Query (Exists (ns_path_of init name))) (\<lambda>r. \<not> r_flag r)
   \<or> (\<exists>t. asked K h (Query (ReadLink (own_ns_path name))) (\<lambda>r. link_text r = Some t)
        \<and> asked K h (Query (ReadLink (ns_path_of init name))) (\<lambda>r. link_text r = Some t))"

definition ns_opened :: "outside \<Rightarrow> int \<Rightarrow> history \<Rightarrow> string \<Rightarrow> int \<Rightarrow> bool" where
  "ns_opened K init h name fd \<longleftrightarrow> asked K h (Fd (OpenFd (ns_path_of init name) ORead)) (\<lambda>r. r_err r = None \<and> r_num r = fd)"

definition ns_entered :: "outside \<Rightarrow> int \<Rightarrow> history \<Rightarrow> bool" where
  "ns_entered K init h \<longleftrightarrow> list_all (\<lambda>(name, flag). ns_shared K init h name
     \<or> (\<exists>fd. ns_opened K init h name fd \<and> done_op K h (Ns (SetNs fd flag)))) exec_join_order"

definition collected :: "outside \<Rightarrow> int \<Rightarrow> (string \<times> clone_flags) list \<Rightarrow> (string \<times> clone_flags \<times> int) list \<Rightarrow> history \<Rightarrow> bool" where
  "collected K init order handles h \<longleftrightarrow> list_all (\<lambda>(name, flag). ns_shared K init h name
     \<or> (\<exists>fd. (name, flag, fd) \<in> set handles \<and> ns_opened K init h name fd)) order"

lemma stable_ns: "stable (\<lambda>h. ns_shared K init h name)" "stable (\<lambda>h. ns_opened K init h name fd)"
  unfolding ns_shared_def [abs_def] ns_opened_def [abs_def]
  by (intro stable_disj stable_asked stable_ex stable_conj)+

lemma stable_list_all: "(\<And>x. stable (F x)) \<Longrightarrow> stable (\<lambda>h. list_all (\<lambda>x. F x h) xs)"
  by (auto simp: stable_def list_all_iff)

lemma stable_split: "(\<And>a b. stable (F a b)) \<Longrightarrow> stable (\<lambda>h. case p of (a, b) \<Rightarrow> F a b h)"
  by (cases p) simp

lemma stable_collected: "stable (collected K init order handles)"
  unfolding collected_def [abs_def]
  by (intro stable_list_all stable_split stable_disj stable_ns stable_ex stable_conj stable_const)

lemma stable_ns_entered: "stable (ns_entered K init)"
  unfolding ns_entered_def [abs_def]
  by (intro stable_list_all stable_split stable_disj stable_ns stable_ex stable_conj stable_asked)

lemma collect_each_calls: "emits (\<lambda>op. case op of Query _ \<Rightarrow> True | Fd (OpenFd _ _) \<Rightarrow> True | _ \<Rightarrow> False) (collect_each K init order)"
  by (induction order) (auto simp: Let_def intro!: emits_intros)

lemma collect_each_collects: "wp (collect_each K init order) (collected K init order) (\<lambda>_ _. True) h"
proof (induction order arbitrary: h)
  case (Cons kind order)
  obtain name flag where kind: "kind = (name, flag)" by (cases kind)
  have rest: "wp (collect_each K init order) (\<lambda>handles h'. collected K init order handles h' \<and> G h') (\<lambda>_ _. True) h1"
    if "stable G" "G h1" for G h1
    by (rule wpI) (use wp_sound [OF Cons.IH] wp_sound [OF emits_keeps [OF collect_each_calls that]] in blast)+
  have shared: "wp (collect_each K init order) (collected K init (kind # order)) (\<lambda>_ _. True) h1"
    if "ns_shared K init h1 name" for h1
    by (rule wp_mono [OF rest [OF stable_ns(1)]]) (use that in \<open>auto simp: collected_def kind\<close>)
  have opened: "wp (collect_each K init order) (\<lambda>handles. collected K init (kind # order) ((name, flag, fd) # handles)) (\<lambda>_ _. True) h1"
    if "ns_opened K init h1 name fd" for h1 fd
    by (rule wp_mono [OF rest [OF stable_ns(2)]]) (use that in \<open>auto simp: collected_def kind list_all_iff\<close>)
  let ?own = "Query (ReadLink (own_ns_path name))" and ?theirs = "Query (ReadLink (ns_path_of init name))"
  have same: "wp (collect_each K init order) (collected K init (kind # order)) (\<lambda>_ _. True) (?theirs # ?own # h1)"
    if "Some t = link_text (answer K (?own # h1) ?theirs)" "link_text (answer K h1 ?own) = link_text (answer K (?own # h1) ?theirs)" for t h1
    by (rule shared) (use that in \<open>auto simp: ns_shared_def intro!: exI [of _ t]\<close>)
  have absent: "wp (collect_each K init order) (collected K init (kind # order)) (\<lambda>_ _. True) (Query (Exists (ns_path_of init name)) # h1)"
    if "\<not> r_flag (answer K h1 (Query (Exists (ns_path_of init name))))" for h1
    by (rule shared) (use that in \<open>simp add: ns_shared_def\<close>)
  show ?case
    unfolding kind collect_each.simps Let_def wp_simps if_distrib [of "\<lambda>m. wp m _ _ _"]
    by (auto simp: wp_simps ns_opened_def kind [symmetric] split: option.split intro!: absent same opened)
qed (simp add: wp_simps collected_def)

lemma join_handles_enters:
  "stable G \<Longrightarrow> G h \<Longrightarrow> collected K init exec_join_order handles h \<Longrightarrow>
     wp (join_handles K handles) (\<lambda>_ h'. G h' \<and> ns_entered K init h') (\<lambda>_ _. True) h"
proof -
  assume G: "stable G" "G h" and c: "collected K init exec_join_order handles h"
  have calls: "emits (\<lambda>op. True) (join_handles K handles)"
    unfolding join_handles_def by (intro emits_intros) auto
  have "ensures (join_handles K handles) (\<lambda>h. \<forall>x \<in> set handles. case x of (name, flag, fd) \<Rightarrow> done_op K h (Ns (SetNs fd flag)))"
    unfolding join_handles_def
    by (rule ensures_each) (auto intro: ensures_do_op grows_intros stable_split stable_asked)
  then have set: "wp (join_handles K handles) (\<lambda>_ h'. \<forall>(name, flag, fd) \<in> set handles. done_op K h' (Ns (SetNs fd flag))) (\<lambda>_ _. True) h"
    by (simp add: ensures_wp)
  show ?thesis
  proof (rule wpI)
    fix u h' assume run: "join_handles K handles h = (Inr u, h')"
    have "\<forall>(name, flag, fd) \<in> set handles. done_op K h' (Ns (SetNs fd flag))" by (rule wp_sound [OF set run])
    moreover have "collected K init exec_join_order handles h'"
      by (rule wp_sound [OF wp_mono [OF emits_keeps [OF calls stable_collected c]] run]) simp_all
    moreover have "G h'"
      by (rule wp_sound [OF wp_mono [OF emits_keeps [OF calls G]] run]) simp_all
    ultimately show "G h' \<and> ns_entered K init h'"
      by (fastforce simp: collected_def ns_entered_def list_all_iff)
  qed simp
qed

definition exec_identity :: "outside \<Rightarrow> target \<Rightarrow> history \<Rightarrow> bool" where
  "exec_identity K t h \<longleftrightarrow> (\<forall>gid. ta_gid t = Some gid \<longrightarrow> done_op K h (Cred (SetGid gid)))
     \<and> (\<forall>uid. ta_uid t = Some uid \<longrightarrow> done_op K h (Cred (SetUid uid)))"

definition told_placed :: "outside \<Rightarrow> history \<Rightarrow> bool" where
  "told_placed K h \<longleftrightarrow> (\<exists>pid. asked K h (Chan ChanRecv) (\<lambda>r. r_err r = None \<and> r_msg r = Some (CgroupApplied pid)))"

lemma stable_told: "stable (told_placed K)"
  unfolding told_placed_def [abs_def] by (intro stable_ex stable_asked)

lemma expect_placed: "ensures (expect K ''CgroupApplied'') (told_placed K)"
proof -
  have kind: "message_kind m = ''CgroupApplied'' \<longleftrightarrow> (\<exists>pid. m = CgroupApplied pid)" for m by (cases m) auto
  show ?thesis
    by (rule ensuresI)
      (auto simp: expect_def told_placed_def wp_simps received_def decode_reply_def ok_or_def expected_Inr kind Let_def
        split: option.split sum.split)
qed

lemma resolve_ordinary: "emits ordinary (resolve_executable K program env own)"
  unfolding resolve_executable_def by (intro emits_intros find_in_ordinary) auto

lemma enter_guards:
  assumes G: "stable G"
  shows "guards is_exec G (\<lambda>h. G h \<and> exec_identity K t h \<and> done_op K h (Mnt (Chdir (ta_cwd t)))) (enter K t console)"
proof -
  have groups: "emits (\<lambda>op. \<not> is_exec op) (given (ta_gid t) (\<lambda>gid. seq_p (when_p b (do_op K c (Cred op))) (do_op K d (Cred (SetGid gid)))))"
    and uid: "emits (\<lambda>op. \<not> is_exec op) (given (ta_uid t) (\<lambda>uid. do_op K c (Cred (SetUid uid))))"
    and dir: "emits (\<lambda>op. \<not> is_exec op) (do_op K c (Mnt mop))" for b c d op mop
    by (intro emits_intros; simp)+
  have set_gid: "ensures (given (ta_gid t) (\<lambda>gid. seq_p m (do_op K c (Cred (SetGid gid)))))
      (\<lambda>h. \<forall>gid. ta_gid t = Some gid \<longrightarrow> done_op K h (Cred (SetGid gid)))" for m c
    by (intro ensures_given ensures_seq_then ensures_do_op)
  have set_uid: "ensures (given (ta_uid t) (\<lambda>uid. do_op K c (Cred (SetUid uid))))
      (\<lambda>h. \<forall>uid. ta_uid t = Some uid \<longrightarrow> done_op K h (Cred (SetUid uid)))" for c
    by (intro ensures_given ensures_do_op)
  note quiet = console_ordinary resolve_ordinary unblock_all_ordinary
  have pure: "emits (\<lambda>op. \<not> is_exec op) (lift_res r)" for r :: "'b res" by (rule emits_lift_res)
  note keep = G stable_conj stable_all stable_imp stable_asked
  show ?thesis
    unfolding enter_def
    apply (rule guards_skip_seq [OF dir], rule G)
    apply (rule guards_skip_seq, rule emits_given, rule console_ordinary [THEN ordinary_no_exec], rule G)
    apply (rule guards_note_seq [OF groups _ set_gid], intro keep)
    apply (rule guards_note_seq [OF uid _ set_uid], intro keep)
    apply (rule guards_note_seq [OF dir _ ensures_do_op], intro keep)
    apply (rule guards_skip [OF resolve_ordinary [THEN ordinary_no_exec]], intro keep)
    apply (rule guards_skip [OF pure], intro keep)+
    apply (rule guards_skip_seq [OF unblock_all_ordinary [THEN ordinary_no_exec]], intro keep)
    apply (rule guards_do_op)
    apply (auto simp: exec_identity_def)
    done
qed

lemma exec_child_guards:
  assumes G: "stable G"
  shows "guards is_exec G (\<lambda>h. G h \<and> told_placed K h \<and> exec_identity K t h) (exec_child K t console)"
proof -
  have "guards is_exec G (\<lambda>h. G h \<and> told_placed K h \<and> exec_identity K t h)
      (bind_p (expect K ''CgroupApplied'') (\<lambda>_. enter K t console))"
  proof (rule guards_note [OF _ G expect_placed])
    show "guards is_exec (\<lambda>h. G h \<and> told_placed K h) (\<lambda>h. G h \<and> told_placed K h \<and> exec_identity K t h) (enter K t console)"
      using enter_guards [OF stable_conj [OF G stable_told [of K]], of K t console]
      by (auto simp: guards_def)
  qed (intro emits_intros, simp)
  then show ?thesis
    unfolding exec_child_def
    by (rule guards_on_result [where E = "\<lambda>_ _. True"])
      (auto intro!: guards_no_call emits_intros wp_mono [OF wp_true] split: sum.split)
qed

lemma open_socket_ordinary: "emits ordinary (open_socket K path)"
  unfolding open_socket_def by (intro emits_intros) auto

lemma collect_ordinary: "emits ordinary (collect K init)"
proof -
  have "(case op of Query _ \<Rightarrow> True | Fd (OpenFd _ _) \<Rightarrow> True | _ \<Rightarrow> False) \<Longrightarrow> ordinary op" for op
    by (cases op rule: ordinary.cases) auto
  then show ?thesis unfolding collect_def by (rule emits_mono [OF collect_each_calls])
qed

lemma supervise_ordinary: "emits ordinary (supervise K pid)"
proof -
  have "supervise_call pid op \<Longrightarrow> ordinary op" for op by (cases op rule: ordinary.cases) auto
  then show ?thesis unfolding supervise_def by (rule emits_mono [OF supervise_calls])
qed

lemma before_fork_ordinary:
  "emits ordinary (case sock of Some path \<Rightarrow> bind_p (open_socket K path) (\<lambda>fd. ret (Some fd)) | None \<Rightarrow> ret None)"
  "emits ordinary (open_cgroup_procs K c)"
  "emits ordinary (case pid_out of Some path \<Rightarrow> io K e (Fs (CreateFile path)) f | None \<Rightarrow> ret None)"
  "emits ordinary (join_handles K handles)" "emits ordinary (block_forwardable K)" "emits ordinary (channel_pair K)"
  unfolding open_cgroup_procs_def join_handles_def block_forwardable_def channel_pair_def
  by ((intro emits_intros open_socket_ordinary; force simp: ordinary.simps)+)

lemma exec_parent_no_exec: "emits (\<lambda>op. \<not> is_exec op) (exec_parent K opts procs pid_out pid)"
  unfolding exec_parent_def place_def
  by (intro emits_intros ordinary_no_exec [OF supervise_ordinary]) auto


section \<open>Placed first, confined by nothing else\<close>

lemma place_places: "ensures (place K procs pid) (\<lambda>h. done_op K h (Fd (FdWrite procs (int_text pid))))"
  unfolding place_def by (rule ensures_do_op)

text \<open>
  The process is in the container's control group before it may run: the parent releases it only
  after its pid was written through the descriptor that was opened for the group's process list.
\<close>

theorem exec_placed_before_release:
  "guarded (\<lambda>op. op = Chan (ChanSend (CgroupApplied pid)))
     (\<lambda>h. done_op K h (Fd (FdWrite procs (int_text pid)))) (exec_parent K opts procs pid_out pid)"
proof (rule guarded_guards)
  have place: "emits (\<lambda>op. op \<noteq> Chan (ChanSend (CgroupApplied pid))) (place K procs pid)"
    unfolding place_def by (intro emits_intros) simp
  have rest: "grows (seq_p (send K (CgroupApplied pid))
      (seq_p (given pid_out (\<lambda>handle. do_op K e (Fd (FdWrite handle (int_text pid)))))
      (if eo_detach opts then ret 0 else supervise K pid)))" for e
    unfolding grows_def by (intro emits_intros emits_mono [OF supervise_ordinary]) auto
  show "guards (\<lambda>op. op = Chan (ChanSend (CgroupApplied pid))) (\<lambda>_. True)
     (\<lambda>h. done_op K h (Fd (FdWrite procs (int_text pid)))) (exec_parent K opts procs pid_out pid)"
    unfolding exec_parent_def
    by (rule guards_note_seq [OF place _ place_places], rule stable_const, rule guards_known [OF rest stable_asked]) simp
qed

text \<open>
  The calls by which the runtime confines a process beyond its namespaces and control group, and the
  supplementary groups a target may ask for.
\<close>

fun restricts :: "sysop \<Rightarrow> bool" where
  "restricts (Cap _) = True"
| "restricts (Sc _) = True"
| "restricts (Cred NoNewPrivs) = True"
| "restricts (Cred (SetRlimit _ _ _)) = True"
| "restricts _ = False"

fun exec_call :: "target \<Rightarrow> sysop \<Rightarrow> bool" where
  "exec_call t (Cred (SetGroups gids)) = (gids \<noteq> [] \<and> gids = ta_groups t \<and> ta_gid t \<noteq> None)"
| "exec_call t op = (\<not> restricts op)"

lemma console_exec_call: "emits (exec_call t) (console_setup K fd)"
proof (rule emits_mono [OF console_setup_calls])
  show "console_call op \<Longrightarrow> exec_call t op" for op by (cases op) auto
qed

lemma find_in_exec_call: "emits (exec_call t) (resolve_executable K program env own)"
proof -
  have "emits (exec_call t) (find_in K program dirs)" for dirs
    by (induction dirs) (auto simp: Let_def intro!: emits_intros)
  then show ?thesis unfolding resolve_executable_def by (intro emits_intros) auto
qed

text \<open>
  What \<^verbatim>\<open>mars exec\<close> leaves out. From entering the container to the program, it sets no
  capability, loads no system call filter, sets no resource limit and never sets no-new-privileges,
  whatever the process description asks for; and it sets the supplementary groups only when a group
  was named and the list is not empty, so otherwise the program keeps those of the runtime.
\<close>

theorem exec_confines_no_further: "emits (exec_call t) (enter K t console)"
  unfolding enter_def unblock_all_def
  by (intro emits_intros console_exec_call find_in_exec_call) (auto intro: emits_intros)

text \<open>
  A namespace whose link is gone counts as one that is not there: when the init ends between the check
  of the status and this point, nothing is left to join, and no error is raised.
\<close>

lemma dead_init_joins_nothing:
  assumes "\<And>h name. \<not> r_flag (answer K h (Query (Exists (ns_path_of init name))))"
  shows "wp (collect K init) (\<lambda>handles _. handles = []) (\<lambda>_ _. False) h"
proof -
  have "wp (collect_each K init order) (\<lambda>handles _. handles = []) (\<lambda>_ _. False) h" for order h
    by (induction order arbitrary: h) (auto simp: wp_simps assms Let_def)
  then show ?thesis by (simp add: collect_def)
qed

section \<open>The order of joining\<close>

interpretation exec_joins: join_table "map fst exec_join_order" "''user''" "''mnt''"
  by unfold_locales (auto simp: exec_join_order_def)

lemma exec_ranks: "map (join_rank (map fst exec_join_order)) (map fst exec_join_order) = [0..<7]"
  by code_simp

lemma collect_subseq:
  "wp (collect_each K init order) (\<lambda>handles _. subseq (map fst handles) (map fst order)) (\<lambda>_ _. True) h"
proof (induction order arbitrary: h)
  case (Cons kind order)
  obtain name flag where kind: "kind = (name, flag)" by (cases kind)
  have skipped: "wp (collect_each K init order) (\<lambda>handles _. subseq (map fst handles) (name # map fst order)) (\<lambda>_ _. True) h1" for h1
    by (rule wp_mono [OF Cons.IH]) auto
  show ?case
    unfolding kind collect_each.simps Let_def wp_simps if_distrib [of "\<lambda>m. wp m _ _ _"]
    by (simp add: wp_simps skipped Cons.IH split: option.split)
qed (simp add: wp_simps)

text \<open>
  The namespaces of a container are joined in the order of the table: nothing is joined before the
  user namespace or after the mount namespace, and none is joined twice.
\<close>

theorem exec_joins_in_order:
  "wp (collect K init) (\<lambda>handles _. distinct (map fst handles)
     \<and> (\<forall>xs ys. map fst handles = xs @ ''user'' # ys \<longrightarrow> xs = [])
     \<and> (\<forall>xs ys. map fst handles = xs @ ''mnt'' # ys \<longrightarrow> ys = [])) (\<lambda>_ _. True) h"
  unfolding collect_def
proof (rule wp_mono [OF collect_subseq])
  fix handles :: "(string \<times> clone_flags \<times> int) list" and h' :: history
  let ?table = "map fst exec_join_order"
  assume sub: "subseq (map fst handles) ?table"
  then obtain N where n: "map fst handles = nths ?table N" using subseq_conv_nths by blast
  have d: "distinct (map fst handles)" unfolding n by (rule distinct_nthsI [OF exec_joins.table_distinct])
  have inside: "set (map fst handles) \<subseteq> set ?table" unfolding n by (rule set_nths_subset)
  have "sorted (map (join_rank ?table) ?table)" unfolding exec_ranks by simp
  then have s: "sorted (map (join_rank ?table) (map fst handles))"
    unfolding n nths_map [symmetric] by (rule sorted_nths)
  show "distinct (map fst handles) \<and> (\<forall>xs ys. map fst handles = xs @ ''user'' # ys \<longrightarrow> xs = [])
     \<and> (\<forall>xs ys. map fst handles = xs @ ''mnt'' # ys \<longrightarrow> ys = [])"
  proof (intro conjI d allI impI)
    show "xs = []" if "map fst handles = xs @ ''user'' # ys" for xs ys
      using exec_joins.user_first [of xs ys] s inside d unfolding that by (cases xs) auto
    show "ys = []" if "map fst handles = xs @ ''mnt'' # ys" for xs ys
    proof -
      have "\<And>y. y \<in> set ys \<Longrightarrow> y = ''mnt''"
        using exec_joins.mnt_last [of xs ys] s inside unfolding that by auto
      moreover have "''mnt'' \<notin> set ys" using d unfolding that by simp
      ultimately show ?thesis by (cases ys) auto
    qed
  qed
qed simp

section \<open>The user of the process\<close>

lemma split_once_None: "c \<notin> set s \<Longrightarrow> split_once c s = None"
  by (simp add: split_once_def)

lemma split_once_at: "c \<notin> set a \<Longrightarrow> split_once c (a @ c # b) = Some (a, b)"
  by (induction a) (auto simp: split_once_def)

lemma parse_unsigned_too_big: "bound \<le> n \<Longrightarrow> parse_unsigned bound (dec_text n) = None"
proof -
  assume n: "bound \<le> n"
  obtain c r where cr: "dec_text n = c # r" by (cases "dec_text n") auto
  then have "c \<noteq> CHR ''+''" using dec_text_no [of "CHR ''+''" n] by auto
  with cr n show ?thesis using digits_val_dec_text [of n] by (auto simp: parse_unsigned_def Let_def)
qed

text \<open>
  \<^verbatim>\<open>--user\<close> reads back what it is given: every 32-bit user id, alone or with a 32-bit group
  id, is understood as itself, and a user id beyond 32 bits is refused instead of wrapping around.
\<close>

theorem parse_user_round_trip:
  assumes "uid < u32_bound" "gid < u32_bound" "u32_bound \<le> big"
  shows "parse_user (dec_text uid) = Inr (Some uid, None)
    \<and> parse_user (dec_text uid @ CHR '':'' # dec_text gid) = Inr (Some uid, Some gid)
    \<and> parse_user (dec_text big) = Inl (Invalid ''--user must be UID[:GID] as numbers'')"
  using assms
  by (simp add: parse_user_def split_once_None split_once_at dec_text_no parse_unsigned_too_big result_simps Let_def)

lemma parse_user_round_trip_witness:
  "parse_user ''1000:100'' = Inr (Some 1000, Some 100)"
proof -
  have digits: "dec_text 1000 = ''1000''" "dec_text 100 = ''100''" by code_simp+
  show ?thesis using parse_user_round_trip [of 1000 100 "2 ^ 32"] by (simp add: digits)
qed

end
