(* ===== verification/Lifecycle.thy ===== *)
theory Lifecycle
  imports Exec Userns
begin

text \<open>
  \<^verbatim>\<open>src/src/container/mod.rs\<close>: the commands of a container's life. Creating one prepares the
  root and the control group, forks the processes of \<open>Init\<close> and shakes hands with them; the
  other commands load the recorded state, require a status, and act. Log lines are not modelled.
\<close>

record create_options =
  cr_id :: string
  cr_pid_file :: "string option"
  cr_console_socket :: "string option"
  cr_rootless :: bool

section \<open>Tearing down\<close>

fun reap_all :: "outside \<Rightarrow> nat \<Rightarrow> unit prog" where
  "reap_all K 0 = fail Diverged"
| "reap_all K (Suc n) =
     bind_p (call K (Proc (WaitPid None))) (\<lambda>r.
     if r_err r \<noteq> None \<or> r_wait r = WStillAlive then ret () else reap_all K n)"

fun await_empty :: "outside \<Rightarrow> cgroup \<Rightarrow> nat \<Rightarrow> unit prog" where
  "await_empty K cg 0 = ret ()"
| "await_empty K cg (Suc n) =
     seq_p (reap_all K (fuel K))
     (bind_p (or_else True (bind_p (cg_procs K cg) (\<lambda>pids. ret (pids = [])))) (\<lambda>empty.
      if empty then ret ()
      else seq_p (ask K (Time (SleepMs 20)) (\<lambda>_. ())) (await_empty K cg n)))"

definition kill_quietly :: "outside \<Rightarrow> int \<Rightarrow> int \<Rightarrow> unit prog" where
  "kill_quietly K signal pid = ignore (do_op K SyscallErr (Proc (KillProc pid signal)))"

definition teardown :: "outside \<Rightarrow> cgroup \<Rightarrow> unit prog" where
  "teardown K cg =
     bind_p (or_else [] (cg_procs K cg)) (\<lambda>pids.
     seq_p (each (kill_quietly K SIGKILL) pids) (await_empty K cg 250))"

section \<open>The runtime's side of the handshake\<close>

definition answer_mapping :: "outside \<Rightarrow> oci_bundle \<Rightarrow> int \<Rightarrow> message \<Rightarrow> message prog" where
  "answer_mapping K b intermediate_pid m =
     (if m = RequestUserMapping then
        bind_p (ask K (Cred GetEuid) (\<lambda>r. r_num r = 0)) (\<lambda>privileged.
        seq_p (userns_write K intermediate_pid (bu_id_mappings b) privileged)
        (seq_p (send K UserMappingDone) (recv K)))
      else ret m)"

definition expect_init_pid :: "message \<Rightarrow> (int \<times> phase list) res" where
  "expect_init_pid m = (case m of
     InitPid pid phases \<Rightarrow> Inr (pid, phases)
   | Failed reason \<Rightarrow> Inl (InitFailed reason)
   | _ \<Rightarrow> Inl (SyncErr ''expected InitPid''))"

definition ready_phases :: "message \<Rightarrow> phase list res" where
  "ready_phases m = (case m of InitReady phases \<Rightarrow> Inr phases | _ \<Rightarrow> Inl (SyncErr ''expected InitReady''))"

definition persisted_of :: "plan \<Rightarrow> create_options \<Rightarrow> cgroup \<Rightarrow> int \<Rightarrow> nat \<Rightarrow> string \<Rightarrow> persisted" where
  "persisted_of p opts cg init started created =
     \<lparr>pe_oci_version = OCI_VERSION, pe_id = cr_id opts, pe_pid = init, pe_start_time = started,
      pe_bundle = bu_dir (pl_bundle p), pe_rootfs = pl_rootfs p, pe_cgroup = cg_relative cg,
      pe_created = created, pe_rootless = cr_rootless opts, pe_annotations = bu_annotations (pl_bundle p)\<rparr>"

definition handshake_attach ::
    "outside \<Rightarrow> int \<Rightarrow> plan \<Rightarrow> cgroup \<Rightarrow> recorder \<Rightarrow> 64 word \<Rightarrow> (int \<times> recorder) prog" where
  "handshake_attach K child p cg clock forked_at =
     bind_p (rec_begin K ''wait.initpid'' clock) (\<lambda>clock.
     bind_p (recv K) (\<lambda>m.
     bind_p (answer_mapping K (pl_bundle p) child m) (\<lambda>m.
     bind_p (lift_res (expect_init_pid m)) (\<lambda>(init, phases).
     let clock = absorb ''intermediate'' forked_at phases clock in
     bind_p (rec_begin K ''reap.intermediate'' clock) (\<lambda>clock.
     seq_p (do_op K SyscallErr (Proc (WaitPid (Some child))))
     (bind_p (rec_begin K ''cgroup.attach'' clock) (\<lambda>clock.
      seq_p (cg_add_process K cg init) (ret (init, clock)))))))))"

definition handshake_hooks :: "outside \<Rightarrow> plan \<Rightarrow> int \<Rightarrow> recorder \<Rightarrow> recorder prog" where
  "handshake_hooks K p init clock =
     (let hs = bu_hooks (pl_bundle p); state = (pl_state p)\<lparr>os_pid := Some init\<rparr> in
      bind_p (rec_begin K ''hooks.createRuntime'' clock) (\<lambda>clock.
      seq_p (hooks_run K hs Prestart state)
      (seq_p (hooks_run K hs CreateRuntime state) (ret clock))))"

definition handshake_record :: "outside \<Rightarrow> plan \<Rightarrow> cgroup \<Rightarrow> dirs \<Rightarrow> create_options \<Rightarrow> int \<Rightarrow> unit prog" where
  "handshake_record K p cg l opts init =
     bind_p (start_time K init) (\<lambda>started.
     bind_p (now_rfc3339 K) (\<lambda>created.
     seq_p (container_save K l (persisted_of p opts cg init started created))
       (write_pid_file K (cr_pid_file opts) init)))"

definition handshake_finish ::
    "outside \<Rightarrow> plan \<Rightarrow> cgroup \<Rightarrow> dirs \<Rightarrow> create_options \<Rightarrow> int \<Rightarrow> recorder \<Rightarrow> 64 word \<Rightarrow> recorder prog" where
  "handshake_finish K p cg l opts init clock init_started =
     bind_p (expect K ''InitReady'') (\<lambda>m.
     bind_p (lift_res (ready_phases m)) (\<lambda>phases.
     bind_p (rec_begin K ''state'' clock) (\<lambda>clock.
     seq_p (handshake_record K p cg l opts init)
     (bind_p (rec_end K clock) (\<lambda>clock.
      ret (absorb ''init'' init_started phases clock))))))"

definition handshake ::
    "outside \<Rightarrow> int \<Rightarrow> plan \<Rightarrow> cgroup \<Rightarrow> dirs \<Rightarrow> create_options \<Rightarrow> recorder \<Rightarrow> 64 word \<Rightarrow> recorder prog" where
  "handshake K child p cg l opts clock forked_at =
     bind_p (handshake_attach K child p cg clock forked_at) (\<lambda>(init, clock).
     bind_p (handshake_hooks K p init clock) (\<lambda>clock.
     bind_p (rec_begin K ''init'' clock) (\<lambda>clock.
     bind_p (elapsed_us K clock) (\<lambda>init_started.
     seq_p (send K (CgroupApplied init)) (handshake_finish K p cg l opts init clock init_started)))))"

section \<open>Creating a container\<close>

text \<open>
  In the forked child creating does not return: its result is \<open>None\<close>, the process is over, and
  no caller goes on.
\<close>

definition initial_state :: "oci_bundle \<Rightarrow> create_options \<Rightarrow> Data.oci_state" where
  "initial_state b opts =
     \<lparr>os_version = OCI_VERSION, os_id = cr_id opts, os_status = Creating, os_pid = None, os_bundle = bu_dir b,
      os_annotations = (if bu_annotations b = [] then None else Some (bu_annotations b))\<rparr>"

definition spawn_parent ::
    "outside \<Rightarrow> int \<Rightarrow> plan \<Rightarrow> cgroup \<Rightarrow> dirs \<Rightarrow> create_options \<Rightarrow> recorder \<Rightarrow> 64 word \<Rightarrow> recorder prog" where
  "spawn_parent K child p cg l opts clock forked_at =
     on_result (handshake K child p cg l opts clock forked_at) (\<lambda>r. case r of
       Inr clock \<Rightarrow> ret clock
     | Inl e \<Rightarrow> seq_p (ignore (do_op K SyscallErr (Fs (RmFile (exec_fifo l (cr_id opts))))))
         (seq_p (teardown K cg) (fail e)))"

definition spawn ::
    "outside \<Rightarrow> dirs \<Rightarrow> oci_bundle \<Rightarrow> create_options \<Rightarrow> string \<Rightarrow> layers option \<Rightarrow> clone_flags
      \<Rightarrow> (ns_type \<times> string) list \<Rightarrow> bool \<Rightarrow> cgroup \<Rightarrow> recorder \<Rightarrow> recorder option prog" where
  "spawn K l b opts rootfs overlay unshare_flags join cgroup_ns cg clock =
     bind_p (fifo_create K (exec_fifo l (cr_id opts))) (\<lambda>fifo.
     bind_p (case cr_console_socket opts of
         Some path \<Rightarrow> bind_p (open_socket K path) (\<lambda>fd. ret (Some fd)) | None \<Rightarrow> ret None) (\<lambda>console.
     let p = \<lparr>pl_bundle = b, pl_rootfs = rootfs, pl_overlay = overlay, pl_unshare_flags = unshare_flags,
       pl_join = join, pl_cgroup_ns = cgroup_ns, pl_fifo = fifo, pl_console = console,
       pl_state = initial_state b opts\<rparr> in
     seq_p (do_op K SyscallErr (Proc SubReaper))
     (seq_p (block_forwardable K)
     (seq_p (channel_pair K)
     (bind_p (rec_begin K ''fork'' clock) (\<lambda>clock.
      bind_p (elapsed_us K clock) (\<lambda>forked_at.
      bind_p (io K SyscallErr (Proc Fork) r_num) (\<lambda>pid.
      if pid = 0 then seq_p (intermediate K p) (ret None)
      else bind_p (spawn_parent K pid p cg l opts clock forked_at) (\<lambda>clock. ret (Some clock))))))))))"

definition prepare_merged :: "outside \<Rightarrow> string \<Rightarrow> unit prog" where
  "prepare_merged K rootfs =
     seq_p (do_op K (IoErr ''create overlay mountpoint'') (Fs (MkDirAll rootfs)))
     (bind_p (io K (IoErr ''inspect overlay mountpoint'') (Query (ReadDir rootfs))
        (\<lambda>r. r_list r \<noteq> [] \<or> r_num2 r \<noteq> 0 \<or> \<not> r_flag r)) (\<lambda>some_entry.
      if some_entry then fail (OverlayErr ''root.path is not empty'') else ret ()))"

text \<open>
  \<^verbatim>\<open>namespace::layout\<close> asks for each path in turn whether it exists; \<open>layout_io\<close> is
  \<open>layout_scan\<close> with those questions asked.
\<close>

fun layout_scan_io ::
  "outside \<Rightarrow> linux_namespace list \<Rightarrow> clone_flags \<Rightarrow> (ns_type \<times> string) list
    \<Rightarrow> (clone_flags \<times> (ns_type \<times> string) list) prog" where
  "layout_scan_io K [] create join = ret (create, join)"
| "layout_scan_io K (ns # rest) create join =
     (let flag = flag_for (ns_typ ns) in
      case ns_path ns of
        Some path \<Rightarrow>
          if path \<noteq> [] then
            bind_p (ask K (Query (Exists path)) r_flag) (\<lambda>present.
            if \<not> present then fail (Invalid ''namespace points at a path which does not exist'')
            else layout_scan_io K rest create (join @ [(ns_typ ns, path)]))
          else layout_scan_io K rest (create OR flag) join
      | None \<Rightarrow> layout_scan_io K rest (create OR flag) join)"

definition layout_io :: "outside \<Rightarrow> linux_namespace list \<Rightarrow> ns_layout prog" where
  "layout_io K namespaces =
     bind_p (layout_scan_io K namespaces 0 []) (\<lambda>(create, join).
     ret \<lparr>lay_create = create, lay_join = sort_key (\<lambda>(kind, _). join_rank JOIN_ORDER kind) join\<rparr>)"

definition build_overlay :: "outside \<Rightarrow> string \<Rightarrow> clone_flags \<Rightarrow> layers option \<Rightarrow> unit prog" where
  "build_overlay K rootfs unshare_flags overlay = given overlay (\<lambda>l.
     if \<not> flags_contain unshare_flags CLONE_NEWNS then fail (OverlayErr ''an overlay rootfs needs a mount namespace'')
     else seq_p (prepare K l) (prepare_merged K rootfs))"

definition build ::
    "outside \<Rightarrow> dirs \<Rightarrow> oci_bundle \<Rightarrow> create_options \<Rightarrow> recorder \<Rightarrow> recorder option prog" where
  "build K l b opts clock =
     seq_p (lift_res (check_terminal (cr_console_socket opts) (bu_terminal b)
         ''process.terminal is true but no --console-socket was given''
         ''--console-socket was given but process.terminal is false''))
     (bind_p (rec_begin K ''plan'' clock) (\<lambda>clock.
      bind_p (layout_io K (bu_namespaces b)) (\<lambda>namespaces.
      let cgroup_ns = flags_contain (lay_create namespaces) CLONE_NEWCGROUP;
          unshare_flags = without (lay_create namespaces) CLONE_NEWCGROUP in
      bind_p (lift_res (bu_rootfs b)) (\<lambda>rootfs.
      bind_p (lift_res (bu_overlay b)) (\<lambda>overlay.
      seq_p (build_overlay K rootfs unshare_flags overlay)
      (bind_p (ask K (Query (IsDir rootfs)) r_flag) (\<lambda>is_dir.
       if \<not> is_dir then fail (RootfsMissing rootfs)
       else bind_p (rec_begin K ''cgroup'' clock) (\<lambda>clock.
        bind_p (cg_create K (relative_path (bu_cgroups_path b) (cr_id opts))) (\<lambda>cg.
        on_result
          (seq_p (given (bu_resources b) (cg_apply K cg))
            (spawn K l b opts rootfs overlay unshare_flags (lay_join namespaces) cgroup_ns cg clock))
          (\<lambda>outcome. case outcome of
             Inr finished \<Rightarrow> ret finished
           | Inl e \<Rightarrow> seq_p (ignore (cg_destroy K cg)) (fail e)))))))))))"

definition create ::
    "outside \<Rightarrow> dirs \<Rightarrow> oci_bundle \<Rightarrow> create_options \<Rightarrow> recorder \<Rightarrow> recorder option prog" where
  "create K l b opts clock =
     (let dir = container_dir l (cr_id opts) in
      bind_p (ask K (Query (IsFile (state_file l (cr_id opts)))) r_flag) (\<lambda>exists.
      if exists then
        bind_p (container_load K l (cr_id opts)) (\<lambda>existing.
        bind_p (container_status K existing) (\<lambda>status.
        fail (AlreadyExists (if status \<noteq> Stopped then cr_id opts
          else cr_id opts @ ''; it is stopped but not deleted, run `mars delete '' @ cr_id opts @ ''` first''))))
      else seq_p (do_op K (IoErr ''create the container directory'') (Fs (MkDirAll dir)))
        (on_result (build K l b opts clock) (\<lambda>r. case r of
           Inr finished \<Rightarrow> ret finished
         | Inl e \<Rightarrow> seq_p (ignore (do_op K SyscallErr (Fs (RmDirAll dir)))) (fail e)))))"

section \<open>The other commands\<close>

definition container_hooks :: "outside \<Rightarrow> container \<Rightarrow> hooks option prog" where
  "container_hooks K c =
     on_result (bundle_load K (pe_bundle (co_state c))) (\<lambda>r. case r of
       Inr b \<Rightarrow> ret (bu_hooks b) | Inl _ \<Rightarrow> ret None)"

definition start :: "outside \<Rightarrow> dirs \<Rightarrow> string \<Rightarrow> unit prog" where
  "start K l cid =
     bind_p (container_load K l cid) (\<lambda>c.
     bind_p (require K c [Created]) (\<lambda>_.
     seq_p (fifo_release K (co_exec_fifo c))
     (bind_p (container_hooks K c) (\<lambda>hs.
      bind_p (State.oci_state K c) (\<lambda>state. hooks_run K hs Poststart state)))))"

definition explain_exit :: "outside \<Rightarrow> cgroup \<Rightarrow> nat res \<Rightarrow> unit prog" where
  "explain_exit K cg outcome = (case outcome of
     Inl _ \<Rightarrow> ret ()
   | Inr _ \<Rightarrow> seq_p (ignore (memory_events K cg)) (ignore (cpu_stat K cg)))"

definition run_started :: "outside \<Rightarrow> oci_bundle \<Rightarrow> bool \<Rightarrow> container \<Rightarrow> nat prog" where
  "run_started K b keep c =
     on_result (supervise K (co_pid c)) (\<lambda>outcome.
     seq_p (explain_exit K (co_cgroup c) outcome)
     (bind_p (State.oci_state K c) (\<lambda>state.
      seq_p (hooks_run K (bu_hooks b) Poststop state)
      (seq_p (ignore (cg_destroy K (co_cgroup c)))
      (seq_p (when_p (\<not> keep) (ignore (container_remove K c)))
      (lift_res outcome))))))"

text \<open>\<open>exported\<close> is the caller's closure that sends the trace.\<close>

definition run ::
    "outside \<Rightarrow> dirs \<Rightarrow> oci_bundle \<Rightarrow> create_options \<Rightarrow> bool \<Rightarrow> bool \<Rightarrow> recorder
      \<Rightarrow> (recorder \<Rightarrow> unit prog) \<Rightarrow> nat prog" where
  "run K l b opts detach keep clock exported =
     seq_p (block_forwardable K)
     (bind_p (create K l b opts clock) (\<lambda>finished. case finished of
        None \<Rightarrow> ret 0
      | Some clock \<Rightarrow>
          bind_p (container_load K l (cr_id opts)) (\<lambda>c.
          seq_p (fifo_release K (co_exec_fifo c))
          (bind_p (State.oci_state K c) (\<lambda>state.
           seq_p (hooks_run K (bu_hooks b) Poststart state)
           (seq_p (exported clock)
           (if detach then ret 0 else run_started K b keep c)))))))"

definition kill_each :: "outside \<Rightarrow> int \<Rightarrow> int list \<Rightarrow> unit prog" where
  "kill_each K signal pids = each (\<lambda>pid. do_op K SyscallErr (Proc (KillProc pid signal))) pids"

definition kill_all :: "outside \<Rightarrow> cgroup \<Rightarrow> int \<Rightarrow> unit prog" where
  "kill_all K cg signal =
     bind_p (is_frozen K cg) (\<lambda>frozen.
     seq_p (when_p (\<not> frozen) (cg_freeze K cg True))
     (on_result (bind_p (cg_procs K cg) (kill_each K signal)) (\<lambda>result.
      seq_p (when_p (\<not> frozen) (cg_freeze K cg False)) (lift_res result))))"

definition kill :: "outside \<Rightarrow> dirs \<Rightarrow> string \<Rightarrow> int \<Rightarrow> bool \<Rightarrow> unit prog" where
  "kill K l cid signal to_all =
     bind_p (container_load K l cid) (\<lambda>c.
     bind_p (require K c [Created, Running, Paused]) (\<lambda>_.
     if \<not> to_all then do_op K SyscallErr (Proc (KillProc (co_pid c) signal))
     else kill_all K (co_cgroup c) signal))"

fun await_dead :: "outside \<Rightarrow> container \<Rightarrow> nat \<Rightarrow> unit prog" where
  "await_dead K c 0 = ret ()"
| "await_dead K c (Suc n) =
     bind_p (alive K c) (\<lambda>is_alive.
     if \<not> is_alive then ret ()
     else seq_p (ask K (Time (SleepMs 10)) (\<lambda>_. ())) (await_dead K c n))"

definition force_stop :: "outside \<Rightarrow> container \<Rightarrow> unit prog" where
  "force_stop K c =
     (let cg = co_cgroup c in
      bind_p (is_frozen K cg) (\<lambda>frozen.
      seq_p (when_p frozen (cg_freeze K cg False))
      (bind_p (or_else [] (cg_procs K cg)) (\<lambda>pids.
       seq_p (each (kill_quietly K SIGKILL) pids) (await_dead K c 500)))))"

definition delete_loaded :: "outside \<Rightarrow> string \<Rightarrow> bool \<Rightarrow> container \<Rightarrow> unit prog" where
  "delete_loaded K cid force c =
     bind_p (container_status K c) (\<lambda>status.
     seq_p (if status = Stopped then ret ()
        else if \<not> force then fail (BadState cid (status_text status) ''stopped; pass --force to kill it first'')
        else force_stop K c)
     (bind_p (or_else None (container_hooks K c)) (\<lambda>hs.
      seq_p (ignore (cg_destroy K (co_cgroup c)))
      (bind_p (State.oci_state K c) (\<lambda>state.
       seq_p (hooks_run K hs Poststop state) (container_remove K c))))))"

definition delete :: "outside \<Rightarrow> dirs \<Rightarrow> string \<Rightarrow> bool \<Rightarrow> unit prog" where
  "delete K l cid force =
     on_result (container_load K l cid) (\<lambda>r. case r of
       Inr c \<Rightarrow> delete_loaded K cid force c
     | Inl e \<Rightarrow> (case e of NotFound _ \<Rightarrow> if force then ret () else fail e | _ \<Rightarrow> fail e))"

definition pause :: "outside \<Rightarrow> dirs \<Rightarrow> string \<Rightarrow> bool \<Rightarrow> unit prog" where
  "pause K l cid paused =
     bind_p (container_load K l cid) (\<lambda>c.
     bind_p (require K c (if paused then [Created, Running] else [Paused])) (\<lambda>_.
     cg_freeze K (co_cgroup c) paused))"

definition update :: "outside \<Rightarrow> dirs \<Rightarrow> string \<Rightarrow> resources \<Rightarrow> unit prog" where
  "update K l cid rs =
     bind_p (container_load K l cid) (\<lambda>c.
     bind_p (require K c [Created, Running, Paused]) (\<lambda>_.
     cg_apply K (co_cgroup c) rs))"

section \<open>Which command is legal when\<close>

text \<open>
  The abstract life of a container: the status a command may be given in and the one it leads to
  (\<open>None\<close> once the container is deleted). Killing may or may not end it; executing may be told to
  ignore a pause, deleting to kill first.
\<close>

datatype command = Start | Kill | Pause | Resume | Update | ExecProcess bool | Delete bool

inductive life_step :: "status \<Rightarrow> command \<Rightarrow> status option \<Rightarrow> bool" where
  started: "life_step Created Start (Some Running)"
| paused: "s \<in> {Created, Running} \<Longrightarrow> life_step s Pause (Some Paused)"
| resumed: "s \<in> {Created, Running} \<Longrightarrow> life_step Paused Resume (Some s)"
| killed: "s \<in> {Created, Running, Paused} \<Longrightarrow> t \<in> {s, Stopped} \<Longrightarrow> life_step s Kill (Some t)"
| updated: "s \<in> {Created, Running, Paused} \<Longrightarrow> life_step s Update (Some s)"
| executed: "s \<in> {Created, Running} \<Longrightarrow> life_step s (ExecProcess ignore_paused) (Some s)"
| executed_paused: "life_step Paused (ExecProcess True) (Some Paused)"
| deleted: "life_step Stopped (Delete force) None"
| removed: "life_step s (Delete True) None"

inductive_simps life_step_simps [simp]: "life_step s Start t" "life_step s Pause t" "life_step s Resume t"
  "life_step s Kill t" "life_step s Update t" "life_step s (ExecProcess b) t" "life_step s (Delete b) t"

definition legal_in :: "command \<Rightarrow> status \<Rightarrow> bool" where
  "legal_in cmd s \<longleftrightarrow> (\<exists>t. life_step s cmd t)"

definition legal :: "outside \<Rightarrow> dirs \<Rightarrow> string \<Rightarrow> command \<Rightarrow> history \<Rightarrow> bool" where
  "legal K l cid cmd h \<longleftrightarrow> (\<exists>c s. earlier (container_load K l cid) c h \<and> earlier (container_status K c) s h \<and> legal_in cmd s)"

lemma stable_legal: "stable (legal K l cid cmd)"
  unfolding legal_def [abs_def] by (intro stable_ex stable_conj stable_earlier stable_const)

lemma load_queries: "emits is_query (container_load K l cid)"
  unfolding container_load_def Let_def by (intro emits_intros) auto

lemma alive_queries: "emits is_query (alive K c)"
  unfolding alive_def start_time_def by (intro emits_intros) auto

lemma status_queries: "emits is_query (container_status K c)"
  unfolding container_status_def by (intro emits_intros alive_queries frozen_queries) auto

lemma oci_state_queries: "emits is_query (State.oci_state K c)"
  unfolding State.oci_state_def by (intro emits_intros status_queries)

lemma query_effect: "emits is_query m \<Longrightarrow> emits (\<lambda>op. \<not> effect op) m"
  by (erule emits_mono) simp

lemma require_queries: "emits is_query (require K c ss)"
  unfolding require_def by (intro emits_intros status_queries)

lemma wp_require: "wp (require K c ss) (\<lambda>s h'. earlier (container_status K c) s h' \<and> s \<in> set ss) (\<lambda>_ _. True) h"
  unfolding require_def wp_simps if_distrib [of "\<lambda>m. wp m _ _ _"]
  by (rule wp_mono [OF wp_earlier]) (auto simp: wp_simps)

text \<open>The shape the commands share: load, require a status, act.\<close>

lemma load_require_guards:
  assumes "\<And>s. s \<in> set ss \<Longrightarrow> legal_in cmd s" "\<And>c. grows (m c)"
  shows "guarded effect (legal K l cid cmd)
    (bind_p (container_load K l cid) (\<lambda>c. bind_p (require K c ss) (\<lambda>_. m c)))"
proof (intro guarded_guards guards_bind [OF guards_no_call [OF query_effect [OF load_queries]] wp_earlier]
    guards_bind [OF guards_no_call [OF query_effect [OF require_queries]]])
  fix c h assume c: "earlier (container_load K l cid) c h"
  show "wp (require K c ss) (\<lambda>_. legal K l cid cmd) (\<lambda>_ _. True) h"
  proof (rule wpI)
    fix s h' assume run: "require K c ss h = (Inr s, h')"
    have "earlier (container_load K l cid) c h'"
      by (rule wp_sound [OF wp_mono [OF emits_keeps [OF require_queries stable_earlier c]] run]) simp_all
    with wp_sound [OF wp_require run] assms(1) show "legal K l cid cmd h'" by (auto simp: legal_def)
  qed simp
qed (auto intro: guards_known stable_legal assms(2))

lemma bundle_load_queries: "emits is_query (bundle_load K dir)"
  unfolding bundle_load_def Let_def by (intro emits_intros) auto

lemma container_hooks_queries: "emits is_query (container_hooks K c)"
  unfolding container_hooks_def by (intro emits_intros bundle_load_queries)

lemma destroy_calls: "emits (\<lambda>op. case op of Fs (RmDir _) \<Rightarrow> True | Time _ \<Rightarrow> True | _ \<Rightarrow> False) (cg_destroy K cg)"
proof -
  have "emits (\<lambda>op. case op of Fs (RmDir _) \<Rightarrow> True | Time _ \<Rightarrow> True | _ \<Rightarrow> False) (remove_retry K path n)" for path n
    by (induction K path n rule: remove_retry.induct) (auto intro!: emits_intros)
  then show ?thesis unfolding cg_destroy_def by (intro emits_intros) auto
qed

lemma release_calls_only:
  "emits (\<lambda>op. case op of Query _ \<Rightarrow> True | Fd (OpenFd _ _) \<Rightarrow> True | Fd (FdRead _) \<Rightarrow> True | Fs (RmFile _) \<Rightarrow> True | _ \<Rightarrow> False)
     (fifo_release K path)"
  unfolding fifo_release_def by (intro emits_intros) auto

lemma await_dead_calls: "emits (\<lambda>op. case op of Query _ \<Rightarrow> True | Time _ \<Rightarrow> True | _ \<Rightarrow> False) (await_dead K c n)"
  by (induction n) (auto intro!: emits_intros emits_mono [OF alive_queries] elim: is_queryE)

lemmas part_calls = load_queries status_queries oci_state_queries require_queries frozen_queries freeze_calls
  bundle_load_queries container_hooks_queries destroy_calls procs_queries release_calls_only await_dead_calls hooks_run_calls

lemma parts_grow:
  "grows (cg_freeze K cg b)" "grows (container_hooks K c)" "grows (State.oci_state K c)" "grows (hooks_run K hs ph st)"
  "grows (cg_destroy K cg)" "grows (fifo_release K path)" "grows (is_frozen K cg)" "grows (cg_procs K cg)" "grows (await_dead K c n)"
  by (rule emits_grows, rule part_calls)+

lemma grows_more:
  "grows m \<Longrightarrow> (\<And>x. grows (f x)) \<Longrightarrow> grows (bind_p m f)"
  "grows m \<Longrightarrow> (\<And>r. grows (g r)) \<Longrightarrow> grows (on_result m g)"
  "grows m \<Longrightarrow> grows (ignore m)" "grows m \<Longrightarrow> grows (or_else d m)"
  "(\<And>x. x \<in> set xs \<Longrightarrow> grows (h x)) \<Longrightarrow> grows (each h xs)"
  "(b \<Longrightarrow> grows n) \<Longrightarrow> (\<not> b \<Longrightarrow> grows n') \<Longrightarrow> grows (if b then n else n')"
  by (simp_all add: grows_def emits_bind emits_on_result emits_ignore emits_or_else emits_each)

lemma start_grows: "grows (seq_p (fifo_release K path) (bind_p (container_hooks K c) (\<lambda>hs.
    bind_p (State.oci_state K c) (\<lambda>state. hooks_run K hs Poststart state))))"
  by (intro grows_seq grows_more parts_grow)

lemma kill_all_grows: "grows (kill_all K cg signal)"
  unfolding kill_all_def kill_each_def by (intro grows_seq grows_more parts_grow grows_when grows_intros)

lemma force_stop_grows: "grows (force_stop K c)"
  unfolding force_stop_def kill_quietly_def Let_def by (intro grows_seq grows_more parts_grow grows_when grows_intros)

lemma remove_grows: "grows (container_remove K c)"
  unfolding container_remove_def grows_def Let_def by (intro emits_intros) auto

lemma apply_grows: "grows (cg_apply K cg rs)"
  unfolding cg_apply_def cg_write_def grows_def by (intro emits_intros) auto

lemma exec_spawn_grows: "grows (exec_spawn K c opts t)"
proof -
  note quiet = collect_ordinary before_fork_ordinary
  have child: "grows (exec_child K t console)" for console
    unfolding exec_child_def enter_def unblock_all_def exit_with_def grows_def
    by (intro emits_intros emits_mono [OF console_ordinary] emits_mono [OF resolve_ordinary]) auto
  have parent: "grows (exec_parent K opts procs pid_out pid)" for procs pid_out pid
    by (rule emits_grows [OF exec_parent_no_exec])
  show ?thesis
    unfolding exec_spawn_def
    by (intro grows_seq grows_more child parent emits_grows [OF quiet(1)] emits_grows [OF quiet(2)] emits_grows [OF quiet(3)]
        emits_grows [OF quiet(4)] emits_grows [OF quiet(5)] emits_grows [OF quiet(6)] emits_grows [OF quiet(7)])
      (simp add: grows_def emits_intros)
qed

lemma exec_rest_grows:
  "grows (bind_p (resolve_target K c opts) (\<lambda>t. seq_p (lift_res (r t)) (seq_p (single_threaded K) (exec_spawn K c opts t))))"
proof -
  have "grows (resolve_target K c opts)" "grows (single_threaded K)"
    unfolding resolve_target_def read_process_def single_threaded_def grows_def
    by (intro emits_intros emits_mono [OF bundle_load_queries]; simp)+
  then show ?thesis by (intro grows_seq grows_more grows_intros exec_spawn_grows) auto
qed

lemma legal_table:
  "s \<in> {Created} \<Longrightarrow> legal_in Start s" "s \<in> {Created, Running, Paused} \<Longrightarrow> legal_in Kill s"
  "s \<in> {Created, Running, Paused} \<Longrightarrow> legal_in Update s"
  "s \<in> set (if b then [Created, Running] else [Paused]) \<Longrightarrow> legal_in (if b then Pause else Resume) s"
  "check_exec_status cid s opts = Inr () \<Longrightarrow> legal_in (ExecProcess (eo_ignore_paused opts)) s"
  "s = Stopped \<or> force \<Longrightarrow> legal_in (Delete force) s"
  by (auto simp: legal_in_def check_exec_status_def split: if_splits) (cases s; auto)+

lemma exec_legal: "guarded effect (legal K l cid (ExecProcess (eo_ignore_paused opts))) (exec_in K l cid opts)"
proof (rule guarded_guards)
  let ?L = "legal K l cid (ExecProcess (eo_ignore_paused opts))"
  have check: "guards effect (\<lambda>h. earlier (container_load K l cid) c h \<and> earlier (container_status K c) s h) ?L
      (seq_p (lift_res (check_exec_status cid s opts)) m)" if "grows m" for c s and m :: "'a prog"
  proof (cases "check_exec_status cid s opts")
    case (Inr u)
    then have "legal_in (ExecProcess (eo_ignore_paused opts)) s" by (intro legal_table(5)) simp
    moreover have "grows (seq_p (lift_res (check_exec_status cid s opts)) m)" by (intro grows_seq grows_intros that)
    ultimately show ?thesis by (intro guards_known stable_legal) (auto simp: legal_def)
  qed (auto intro!: guards_no_call simp: seq_p_def bind_p_def lift_res_def emits_def)
  have status: "wp (container_status K c) (\<lambda>s h. earlier (container_load K l cid) c h \<and> earlier (container_status K c) s h) (\<lambda>_ _. True) h"
    if "earlier (container_load K l cid) c h" for c h
  proof (rule wpI)
    fix s h' assume run: "container_status K c h = (Inr s, h')"
    show "earlier (container_load K l cid) c h' \<and> earlier (container_status K c) s h'"
      using wp_sound [OF wp_mono [OF emits_keeps [OF status_queries stable_earlier that]] run] earlier_run [of "container_status K c", OF run] by simp
  qed simp
  show "guards effect (\<lambda>_. True) ?L (exec_in K l cid opts)"
    unfolding exec_in_def
    by (intro guards_bind [OF guards_no_call [OF query_effect [OF load_queries]] wp_earlier]
        guards_bind [OF guards_no_call [OF query_effect [OF status_queries]] status] check exec_rest_grows)
qed

lemma delete_legal: "guarded effect (legal K l cid (Delete force)) (delete K l cid force)"
proof (rule guarded_guards)
  let ?L = "legal K l cid (Delete force)"
  let ?rest = "\<lambda>c. bind_p (or_else None (container_hooks K c)) (\<lambda>hs.
      seq_p (ignore (cg_destroy K (co_cgroup c)))
      (bind_p (State.oci_state K c) (\<lambda>state.
       seq_p (hooks_run K hs Poststop state) (container_remove K c))))"
  have rest: "grows (?rest c)" for c
    by (intro grows_seq grows_more parts_grow remove_grows)
  have act: "guards effect (\<lambda>h. earlier (container_load K l cid) c h \<and> earlier (container_status K c) s h) ?L
      (seq_p (if s = Stopped then ret () else if \<not> force then fail e else force_stop K c) (?rest c))" for c s e
  proof (cases "s = Stopped \<or> force")
    case True
    then have "legal_in (Delete force) s" by (rule legal_table(6))
    moreover have "grows (seq_p (if s = Stopped then ret () else if \<not> force then fail e else force_stop K c) (?rest c))"
      by (intro grows_seq grows_more(6) rest force_stop_grows grows_intros)
    ultimately show ?thesis by (intro guards_known stable_legal) (auto simp: legal_def)
  qed (auto intro!: guards_no_call simp: seq_p_def bind_p_def fail_def emits_def)
  have status: "wp (container_status K c) (\<lambda>s h. earlier (container_load K l cid) c h \<and> earlier (container_status K c) s h) (\<lambda>_ _. True) h"
    if "earlier (container_load K l cid) c h" for c h
  proof (rule wpI)
    fix s h' assume run: "container_status K c h = (Inr s, h')"
    show "earlier (container_load K l cid) c h' \<and> earlier (container_status K c) s h'"
      using wp_sound [OF wp_mono [OF emits_keeps [OF status_queries stable_earlier that]] run]
        earlier_run [of "container_status K c", OF run] by simp
  qed simp
  have loaded: "guards effect (earlier (container_load K l cid) c) ?L (delete_loaded K cid force c)" for c
    unfolding delete_loaded_def
    by (rule guards_bind [OF guards_no_call [OF query_effect [OF status_queries]] status act])
  show "guards effect (\<lambda>_. True) ?L (delete K l cid force)"
    unfolding delete_def
    by (rule guards_on_result [where E = "\<lambda>r. case r of Inl _ \<Rightarrow> \<lambda>_. True | Inr c \<Rightarrow> earlier (container_load K l cid) c"])
      (auto intro!: guards_no_call [OF query_effect [OF load_queries]] wp_earlier loaded
        intro: guards_no_call emits_intros split: sum.split error.split)
qed

text \<open>
  C2: no command acts on a container in a state that does not allow it. Whatever \<^verbatim>\<open>start\<close>,
  \<^verbatim>\<open>kill\<close>, \<^verbatim>\<open>pause\<close>, \<^verbatim>\<open>resume\<close>, \<^verbatim>\<open>update\<close>,
  \<^verbatim>\<open>exec\<close> and \<^verbatim>\<open>delete\<close> do beyond reading, they do only after the container was
  loaded and its status, derived from the live process, was one from which the abstract life of a
  container has a step of that command.
\<close>

theorem commands_follow_lifecycle:
  "guarded effect (legal K l cid Start) (start K l cid)
   \<and> guarded effect (legal K l cid Kill) (kill K l cid signal to_all)
   \<and> guarded effect (legal K l cid (if paused then Pause else Resume)) (pause K l cid paused)
   \<and> guarded effect (legal K l cid Update) (update K l cid rs)
   \<and> guarded effect (legal K l cid (ExecProcess (eo_ignore_paused opts))) (exec_in K l cid opts)
   \<and> guarded effect (legal K l cid (Delete force)) (delete K l cid force)"
proof (intro conjI)
  show "guarded effect (legal K l cid Start) (start K l cid)"
    unfolding start_def by (rule load_require_guards) (auto intro: legal_table(1) start_grows)
  show "guarded effect (legal K l cid Kill) (kill K l cid signal to_all)"
    unfolding kill_def
    by (rule load_require_guards) (auto intro!: legal_table(2) grows_more(6) kill_all_grows grows_intros)
  show "guarded effect (legal K l cid (if paused then Pause else Resume)) (pause K l cid paused)"
    unfolding pause_def by (rule load_require_guards, erule legal_table(4), rule parts_grow)
  show "guarded effect (legal K l cid Update) (update K l cid rs)"
    unfolding update_def by (rule load_require_guards) (auto intro: legal_table(3) apply_grows)
qed (rule exec_legal delete_legal)+

section \<open>Creation cleans up after itself\<close>

lemma layout_io_queries: "emits is_query (layout_io K nss)"
proof -
  have "emits is_query (layout_scan_io K nss c j)" for nss c j
    by (induction K nss c j rule: layout_scan_io.induct) (auto simp: Let_def intro!: emits_intros split: option.split)
  then show ?thesis unfolding layout_io_def by (intro emits_intros) auto
qed

text \<open>The layout with its questions asked is the layout of \<open>Namespace\<close> for paths that exist.\<close>

lemma layout_io_layout: "wp (layout_io K nss) (\<lambda>lay _. layout (\<lambda>_. True) nss = Inr lay) (\<lambda>_ _. True) h"
proof -
  have scan: "wp (layout_scan_io K nss c j) (\<lambda>x _. layout_scan (\<lambda>_. True) nss c j = Inr x) (\<lambda>_ _. True) h" for nss c j h
  proof (induction nss arbitrary: c j h)
    case (Cons ns nss)
    then show ?case
      by (auto simp: wp_simps Let_def if_distrib [of "\<lambda>m. wp m _ _ _"] split: option.split)
  qed (simp add: wp_simps)
  show ?thesis
    unfolding layout_io_def wp_simps by (rule wp_mono [OF scan]) (auto simp: wp_simps layout_def and_then_def)
qed

lemma destroy_removes: "wp (cg_destroy K cg) (\<lambda>_ h'. Fs (RmDir (cg_path cg)) \<in> set h') (\<lambda>_ h'. Fs (RmDir (cg_path cg)) \<in> set h') h"
proof -
  have grow: "wp (given x (\<lambda>parent. when_p (b parent) (ignore (do_op K c (f parent))))) (\<lambda>_ h'. op \<in> set h') (\<lambda>_ h'. op \<in> set h') h"
    if "op \<in> set h" for x b c f op h
    using that by (cases x) (auto simp: wp_simps split: option.split)
  have keep: "op \<in> set h \<Longrightarrow> wp (remove_retry K path n) (\<lambda>_ h'. op \<in> set h') (\<lambda>_ h'. op \<in> set h') h" for path n op h
    by (induction n arbitrary: h) (auto simp: wp_simps if_distrib [of "\<lambda>m. wp m _ _ _"] split: option.split)
  have first: "wp (remove_retry K path (Suc n)) (\<lambda>_ h'. Fs (RmDir path) \<in> set h') (\<lambda>_ h'. Fs (RmDir path) \<in> set h') h" for path n h
    by (auto simp: wp_simps if_distrib [of "\<lambda>m. wp m _ _ _"] split: option.split intro: keep)
  have "wp (remove_retry K path 50) (\<lambda>_ h'. Fs (RmDir path) \<in> set h') (\<lambda>_ h'. Fs (RmDir path) \<in> set h') h" for path h
    using first [of path 49 h] by simp
  then show ?thesis
    unfolding cg_destroy_def wp_seq by (rule wp_mono) (auto intro: grow)
qed

text \<open>What a failed creation leaves: nothing made, or the directory (and the control group, if made) removed.\<close>

definition names_cgroup :: "string \<Rightarrow> string \<Rightarrow> bool" where
  "names_cgroup relative path \<longleftrightarrow> components path = components MOUNT_POINT @ filter is_normal (components relative)"

definition cgroup_removed :: "string \<Rightarrow> history \<Rightarrow> bool" where
  "cgroup_removed relative h \<longleftrightarrow> (\<exists>path. names_cgroup relative path \<and> Fs (RmDir path) \<in> set h)"

lemma save_calls: "emits (\<lambda>op. \<exists>f. op = Fs f) (container_save K l st)"
  unfolding container_save_def by (intro emits_intros) auto

lemma clock_grows: "grows (rec_begin K n c)" "grows (rec_end K c)" "grows (elapsed_us K c)" "grows (recorder_new K)"
  unfolding rec_begin_def rec_end_def elapsed_us_def recorder_new_def wall_nanos_def grows_def by (intro emits_intros; simp)+

lemma handshake_grows: "grows (handshake K child p cg l opts clock forked_at)"
proof -
  have maps: "grows (userns_write K pid m privileged)" for pid m privileged
    using grows_write_one unfolding userns_write_def deny_setgroups_def grows_def
    by (intro emits_intros) auto
  have attach: "grows (handshake_attach K child p cg clock forked_at)"
    using clock_grows maps
    unfolding handshake_attach_def answer_mapping_def cg_add_process_def cg_write_def grows_def Let_def
    by (intro emits_intros) auto
  have hooks: "grows (handshake_hooks K p init clock)" for init clock
    using clock_grows parts_grow(4)
    unfolding handshake_hooks_def grows_def Let_def by (intro emits_intros) auto
  have saved: "grows (handshake_record K p cg l opts init)" for init
    unfolding handshake_record_def start_time_def now_rfc3339_def write_pid_file_def grows_def
    by (intro emits_intros emits_mono [OF save_calls]) auto
  show ?thesis
    using attach hooks saved clock_grows unfolding handshake_def handshake_finish_def grows_def
    by (intro emits_intros) auto
qed

lemma spawn_grows: "grows (spawn K l b opts rootfs overlay flags join ns cg clock)"
proof -
  have reap: "grows (reap_all K n)" for n
    by (induction n) (auto simp: grows_def intro!: emits_intros)
  have empty: "grows (await_empty K cg n)" for n
  proof (induction n)
    case (Suc n)
    show ?case
      unfolding await_empty.simps grows_def
      using reap Suc by (intro emits_intros emits_mono [OF procs_queries]) (simp_all add: grows_def)
  qed (simp add: grows_def emits_intros)
  have down: "grows (teardown K cg)"
    using empty unfolding teardown_def kill_quietly_def grows_def
    by (intro emits_intros emits_mono [OF procs_queries]) auto
  have parent: "grows (spawn_parent K pid p cg l opts clock forked_at)" for pid p clock forked_at
    using handshake_grows down unfolding spawn_parent_def grows_def by (intro emits_intros) auto
  have fifo: "grows (fifo_create K path)" for path unfolding fifo_create_def grows_def by (intro emits_intros) auto
  have io: "grows (io K c op f)" for c op and f :: "reply \<Rightarrow> 'a" unfolding grows_def by (intro emits_intros) simp
  have console: "grows (case sock of Some path \<Rightarrow> bind_p (open_socket K path) (\<lambda>fd. ret (Some fd)) | None \<Rightarrow> ret None)" for sock
    by (rule emits_grows [OF before_fork_ordinary(1)])
  show ?thesis
    unfolding spawn_def Let_def block_forwardable_def channel_pair_def
    by (intro grows_seq grows_more grows_intros intermediate_grows parent fifo console clock_grows)
      (simp add: grows_def emits_intros)
qed

text \<open>
  \<open>clean N C h0 h\<close>: the run from \<open>h0\<close> to \<open>h\<close> made only calls of \<open>N\<close>, or ended with \<open>C\<close>.
\<close>

definition clean :: "(sysop \<Rightarrow> bool) \<Rightarrow> (history \<Rightarrow> bool) \<Rightarrow> history \<Rightarrow> history \<Rightarrow> bool" where
  "clean N C h0 h \<longleftrightarrow> (\<exists>k. h = k @ h0 \<and> (list_all N k \<or> C h))"

lemma clean_bind:
  assumes "emits N m" "\<And>x h1. wp (f x) (\<lambda>_ _. True) (\<lambda>_. clean N C h1) h1"
  shows "wp (bind_p m f) (\<lambda>_ _. True) (\<lambda>_. clean N C h) h"
  unfolding wp_bind
proof (rule wp_mono [OF emits_wp [OF assms(1)]])
  fix x h1 assume "\<exists>l. h1 = l @ h \<and> list_all N l"
  then obtain l where l: "h1 = l @ h" "list_all N l" by blast
  show "wp (f x) (\<lambda>_ _. True) (\<lambda>_. clean N C h) h1"
    by (rule wp_mono [OF assms(2)]) (use l in \<open>auto simp: clean_def\<close>)
qed (auto simp: clean_def)

lemma clean_seq: "emits N m \<Longrightarrow> (\<And>h1. wp n (\<lambda>_ _. True) (\<lambda>_. clean N C h1) h1) \<Longrightarrow> wp (seq_p m n) (\<lambda>_ _. True) (\<lambda>_. clean N C h) h"
  unfolding seq_p_def by (rule clean_bind)

lemma clean_fail: "wp (fail e) (\<lambda>_ _. True) (\<lambda>_. clean N C h) h"
  by (simp add: wp_fail clean_def)

abbreviation no_fork :: "sysop \<Rightarrow> bool" where
  "no_fork op \<equiv> op \<noteq> Proc Fork"

lemma before_cgroup_hush:
  "emits hush (rec_begin K n clock)" "emits hush (layout_io K nss)" "emits hush (build_overlay K r flags ov)"
  "emits hush (cg_create K rel)"
proof -
  show "emits hush (rec_begin K n clock)"
    by (rule own_hush [OF clock_own(3)])
  show "emits hush (layout_io K nss)"
    by (rule emits_mono [OF layout_io_queries]) (auto elim: is_queryE)
  show "emits hush (build_overlay K r flags ov)"
    unfolding build_overlay_def prepare_def prepare_merged_def prepare_writable_def check_lower_def lower_is_dir_def
      check_same_filesystem_def Let_def
    by (intro emits_intros) (auto intro: emits_intros)
  have "create_call op \<Longrightarrow> hush op" for op by (cases op) auto
  then show "emits hush (cg_create K rel)"
    using cg_create_cases(1) by (auto simp: emits_def list_all_iff) (metis surj_pair snd_conv)
qed

lemma hush_no_fork: "emits hush m \<Longrightarrow> emits no_fork m"
  by (erule emits_mono) auto

lemmas before_cgroup_no_fork = before_cgroup_hush [THEN hush_no_fork]

lemma destroy_cleans:
  assumes "names_cgroup rel (cg_path cg)"
  shows "wp (seq_p (ignore (cg_destroy K cg)) (fail e)) (\<lambda>_ _. True) (\<lambda>_. cgroup_removed rel) h"
proof -
  have "wp (cg_destroy K cg) (\<lambda>_. cgroup_removed rel) (\<lambda>_. cgroup_removed rel) h"
    by (rule wp_mono [OF destroy_removes]) (use assms in \<open>auto simp: cgroup_removed_def\<close>)
  then show ?thesis by (simp add: wp_simps)
qed

lemma spawned_or_destroyed:
  assumes "names_cgroup rel (cg_path cg)" "grows m"
  shows "wp (on_result m (\<lambda>outcome. case outcome of
      Inr finished \<Rightarrow> ret finished | Inl e \<Rightarrow> seq_p (ignore (cg_destroy K cg)) (fail e)))
    (\<lambda>_ _. True) (\<lambda>_. clean N (cgroup_removed rel) h) h"
proof -
  have "wp (seq_p (ignore (cg_destroy K cg)) (fail e)) (\<lambda>_ _. True) (\<lambda>_. clean N (cgroup_removed rel) h) h1"
    if h1: "h1 = k @ h" for e h1 k
  proof (rule wpI)
    fix e' h2 assume run: "seq_p (ignore (cg_destroy K cg)) (fail e) h1 = (Inl e', h2)"
    have "grows (seq_p (ignore (cg_destroy K cg)) (fail e))" by (intro grows_seq grows_more parts_grow grows_intros)
    then obtain k' where "h2 = k' @ h1"
      using run unfolding grows_def emits_def by (metis snd_conv)
    with h1 wp_sound_err [OF destroy_cleans [OF assms(1)] run] show "clean N (cgroup_removed rel) h h2"
      by (auto simp: clean_def)
  qed simp
  then show ?thesis
    unfolding wp_on_result
    by (intro wp_mono [OF emits_wp [OF assms(2) [unfolded grows_def]]]) (auto simp: wp_simps)
qed

lemma cg_create_path: "wp (cg_create K rel) (\<lambda>cg _. names_cgroup rel (cg_path cg)) (\<lambda>_ _. True) h"
proof (rule wpI)
  show "names_cgroup rel (cg_path cg)" if "cg_create K rel h = (Inr cg, h')" for cg h'
    using cg_create_cases(2) [OF that] by (simp add: names_cgroup_def)
qed simp

lemma build_cleans:
  "wp (build K l b opts clock) (\<lambda>_ _. True)
     (\<lambda>_. clean no_fork (cgroup_removed (relative_path (bu_cgroups_path b) (cr_id opts))) h) h"
proof -
  let ?rel = "relative_path (bu_cgroups_path b) (cr_id opts)"
  have final: "wp (bind_p (cg_create K ?rel) (\<lambda>cg.
      on_result (seq_p (given (bu_resources b) (cg_apply K cg)) (spawn K l b opts r ov fl jn ns cg clk))
        (\<lambda>outcome. case outcome of
           Inr finished \<Rightarrow> ret finished | Inl e \<Rightarrow> seq_p (ignore (cg_destroy K cg)) (fail e))))
      (\<lambda>_ _. True) (\<lambda>_. clean no_fork (cgroup_removed ?rel) h1) h1" for r ov fl jn ns clk h1
    unfolding wp_bind
  proof (rule wpI)
    fix cg h2 assume run: "cg_create K ?rel h1 = (Inr cg, h2)"
    have path: "names_cgroup ?rel (cg_path cg)" by (rule wp_sound [OF cg_create_path run])
    obtain k where k: "h2 = k @ h1" "list_all no_fork k" using emitsD [OF before_cgroup_no_fork(4) run] .
    show "wp (on_result (seq_p (given (bu_resources b) (cg_apply K cg)) (spawn K l b opts r ov fl jn ns cg clk))
        (\<lambda>outcome. case outcome of
           Inr finished \<Rightarrow> ret finished | Inl e \<Rightarrow> seq_p (ignore (cg_destroy K cg)) (fail e)))
        (\<lambda>_ _. True) (\<lambda>_. clean no_fork (cgroup_removed ?rel) h1) h2"
      by (rule wp_mono [OF spawned_or_destroyed [OF path]])
        (use k in \<open>auto intro: grows_seq grows_given apply_grows spawn_grows simp: clean_def\<close>)
  next
    fix e h2 assume run: "cg_create K ?rel h1 = (Inl e, h2)"
    obtain k where "h2 = k @ h1" "list_all no_fork k" using emitsD [OF before_cgroup_no_fork(4) run] .
    then show "clean no_fork (cgroup_removed ?rel) h1 h2" by (auto simp: clean_def)
  qed
  show ?thesis
    unfolding build_def Let_def
    by (intro clean_seq clean_bind before_cgroup_no_fork emits_lift_res)
      (auto intro!: emits_intros clean_fail clean_bind before_cgroup_no_fork final)
qed


section \<open>The order of the handshake\<close>

definition attached :: "outside \<Rightarrow> cgroup \<Rightarrow> int \<Rightarrow> history \<Rightarrow> bool" where
  "attached K cg pid h \<longleftrightarrow> done_op K h (Fs (WriteFile (path_join (cg_path cg) ''cgroup.procs'') (int_text pid)))"

definition became_ready :: "outside \<Rightarrow> history \<Rightarrow> bool" where
  "became_ready K h \<longleftrightarrow> (\<exists>phases. asked K h (Chan ChanRecv) (\<lambda>r. r_err r = None \<and> r_msg r = Some (InitReady phases)))"

lemma stable_attached: "stable (attached K cg pid)" "stable (became_ready K)"
  unfolding attached_def [abs_def] became_ready_def [abs_def] by (intro stable_ex stable_asked)+

fun is_release :: "sysop \<Rightarrow> bool" where
  "is_release (Chan (ChanSend (CgroupApplied _))) = True"
| "is_release _ = False"

fun is_recording :: "sysop \<Rightarrow> bool" where
  "is_recording (Fs (Rename _ _)) = True"
| "is_recording _ = False"

text \<open>Neither a release of the init nor a rename.\<close>

fun preparatory :: "sysop \<Rightarrow> bool" where
  "preparatory (Chan (ChanSend (CgroupApplied _))) = False"
| "preparatory (Fs (Rename _ _)) = False"
| "preparatory _ = True"

lemma handshake_attach_calls: "emits preparatory (handshake_attach K child p cg clock forked_at)"
proof -
  have clock: "emits preparatory (rec_begin K n c)" for n c
    unfolding rec_begin_def rec_end_def elapsed_us_def by (intro emits_intros) auto
  have helper: "emits preparatory (write_one K pid map ms privileged helper)" for pid map ms privileged helper
    unfolding write_one_def run_helper_def
    by (intro emits_intros emits_mono [OF locate_calls]) (auto intro!: emits_intros split: wait_status.split)
  show ?thesis
    unfolding handshake_attach_def answer_mapping_def userns_write_def deny_setgroups_def cg_add_process_def cg_write_def Let_def
    by (intro emits_intros clock helper) (auto intro: emits_intros)
qed

lemma wp_then: "(\<And>x h1. wp (f x) Q (\<lambda>_ _. True) h1) \<Longrightarrow> wp (bind_p m f) Q (\<lambda>_ _. True) h"
  unfolding wp_bind by (rule wp_mono [OF wp_true]) auto

lemma wp_then_seq: "(\<And>h1. wp n Q (\<lambda>_ _. True) h1) \<Longrightarrow> wp (seq_p m n) Q (\<lambda>_ _. True) h"
  unfolding seq_p_def by (rule wp_then)

lemma handshake_attach_attaches:
  "wp (handshake_attach K child p cg clock forked_at) (\<lambda>(init, _). attached K cg init) (\<lambda>_ _. True) h"
proof -
  have "wp (seq_p (cg_add_process K cg init) (ret (init, clock))) (\<lambda>(init, _). attached K cg init) (\<lambda>_ _. True) h" for init clock h
    by (simp add: wp_simps cg_add_process_def cg_write_def attached_def split: option.split)
  note last = this
  show ?thesis
    unfolding handshake_attach_def Let_def case_prod_beta [of "\<lambda>init phases. bind_p (m init phases) (f init phases)" for m f]
    by (rule last wp_then wp_then_seq)+
qed

lemma handshake_hooks_calls: "emits preparatory (handshake_hooks K p init clock)"
proof -
  have "hook_call op \<Longrightarrow> preparatory op" for op by (cases op) auto
  then show ?thesis
    unfolding handshake_hooks_def rec_begin_def rec_end_def elapsed_us_def Let_def
    by (intro emits_intros emits_mono [OF hooks_run_calls]) auto
qed

lemma clock_preparatory: "emits preparatory (rec_begin K n c)" "emits preparatory (rec_end K c)" "emits preparatory (elapsed_us K c)"
  unfolding rec_begin_def rec_end_def elapsed_us_def by (intro emits_intros; simp)+

lemma handshake_record_calls: "emits (\<lambda>op. \<not> is_release op) (handshake_record K p cg l opts init)"
proof -
  have "\<exists>f. op = Fs f \<Longrightarrow> \<not> is_release op" for op by auto
  then show ?thesis
    unfolding handshake_record_def start_time_def now_rfc3339_def write_pid_file_def
    by (intro emits_intros emits_mono [OF save_calls]) auto
qed

lemma prep_no_release: "emits preparatory m \<Longrightarrow> emits (\<lambda>op. \<not> is_release op) m"
proof (erule emits_mono)
  show "preparatory op \<Longrightarrow> \<not> is_release op" for op by (cases op rule: preparatory.cases) auto
qed

lemma prep_no_recording: "emits preparatory m \<Longrightarrow> emits (\<lambda>op. \<not> is_recording op) m"
proof (erule emits_mono)
  show "preparatory op \<Longrightarrow> \<not> is_recording op" for op by (cases op rule: preparatory.cases) auto
qed

lemma handshake_finish_no_release: "emits (\<lambda>op. \<not> is_release op) (handshake_finish K p cg l opts init clock started)"
  unfolding handshake_finish_def
  by (intro emits_intros prep_no_release [OF clock_preparatory(1)] prep_no_release [OF clock_preparatory(2)] handshake_record_calls) simp

lemma expect_ready: "ensures (expect K ''InitReady'') (became_ready K)"
proof -
  have kind: "message_kind m = ''InitReady'' \<longleftrightarrow> (\<exists>phases. m = InitReady phases)" for m by (cases m) auto
  show ?thesis
    by (rule ensuresI)
      (auto simp: expect_def became_ready_def wp_simps received_def decode_reply_def ok_or_def expected_Inr kind Let_def
        split: option.split sum.split)
qed

lemma handshake_finish_records: "guards is_recording (\<lambda>_. True) (became_ready K) (handshake_finish K p cg l opts init clock started)"
proof -
  have rest: "grows (bind_p (lift_res (ready_phases m)) (\<lambda>phases.
     bind_p (rec_begin K ''state'' clock) (\<lambda>clock.
     seq_p (handshake_record K p cg l opts init)
     (bind_p (rec_end K clock) (\<lambda>clock. ret (absorb ''init'' started phases clock))))))" for m
    by (intro grows_seq grows_more grows_intros clock_grows emits_grows [OF handshake_record_calls])
  have "emits (\<lambda>op. \<not> is_recording op) (expect K ''InitReady'')" by (intro emits_intros) simp
  then show ?thesis
    unfolding handshake_finish_def
    by (rule guards_note [OF _ stable_const expect_ready]) (rule guards_known [OF rest stable_attached(2)], simp)
qed

lemma released_attached:
  "guards (\<lambda>op. op = Chan (ChanSend (CgroupApplied pid))) (attached K cg init) (attached K cg pid)
     (seq_p (send K (CgroupApplied init)) (handshake_finish K p cg l opts init clock started))"
proof (cases "init = pid")
  case True
  have "grows (seq_p (send K (CgroupApplied init)) (handshake_finish K p cg l opts init clock started))"
    unfolding send_def by (intro grows_seq grows_intros emits_grows [OF handshake_finish_no_release])
  then show ?thesis by (rule guards_known [OF _ stable_attached(1)]) (simp add: True)
next
  case False
  have "emits (\<lambda>op. op \<noteq> Chan (ChanSend (CgroupApplied pid))) (handshake_finish K p cg l opts init clock started)"
    by (rule emits_mono [OF handshake_finish_no_release]) auto
  with False show ?thesis by (intro guards_no_call emits_intros) auto
qed

text \<open>
  C7: the runtime lets the container's init go on only when it is in its control group, so no
  process of the container ever runs outside of its limits; and it records the container only after
  the init has reported that it is ready, so a recorded container is one that can be started.
\<close>

theorem handshake_in_order:
  "guarded (\<lambda>op. op = Chan (ChanSend (CgroupApplied pid))) (attached K cg pid) (handshake K child p cg l opts clock forked_at)
   \<and> guarded is_recording (became_ready K) (handshake K child p cg l opts clock forked_at)"
proof
  have prep: "emits preparatory m \<Longrightarrow> emits (\<lambda>op. op \<noteq> Chan (ChanSend (CgroupApplied pid))) m" for m :: "'b prog"
    by (erule emits_mono) auto
  show "guarded (\<lambda>op. op = Chan (ChanSend (CgroupApplied pid))) (attached K cg pid) (handshake K child p cg l opts clock forked_at)"
    unfolding handshake_def
  proof (intro guarded_guards guards_bind [where E = "\<lambda>(init, _). attached K cg init",
        OF guards_no_call [OF prep [OF handshake_attach_calls]] handshake_attach_attaches])
    show "guards (\<lambda>op. op = Chan (ChanSend (CgroupApplied pid))) (case x of (init, _) \<Rightarrow> attached K cg init) (attached K cg pid)
      (case x of (init, clock) \<Rightarrow> bind_p (handshake_hooks K p init clock) (\<lambda>clock.
        bind_p (rec_begin K ''init'' clock) (\<lambda>clock. bind_p (elapsed_us K clock) (\<lambda>init_started.
        seq_p (send K (CgroupApplied init)) (handshake_finish K p cg l opts init clock init_started)))))" for x
      by (cases x)
        (auto intro!: guards_skip [OF prep [OF handshake_hooks_calls]] guards_skip [OF prep [OF clock_preparatory(1)]]
          guards_skip [OF prep [OF clock_preparatory(3)]] stable_attached released_attached)
  qed
  show "guarded is_recording (became_ready K) (handshake K child p cg l opts clock forked_at)"
    unfolding handshake_def
    by (intro guarded_guards guards_skip guards_skip_seq guards_split stable_const handshake_finish_records
        prep_no_recording [OF handshake_attach_calls] prep_no_recording [OF handshake_hooks_calls]
        prep_no_recording [OF clock_preparatory(1)] prep_no_recording [OF clock_preparatory(3)])
      (intro emits_intros, simp)
qed

section \<open>A container starts at most once\<close>

fun makes :: "string \<Rightarrow> sysop \<Rightarrow> bool" where
  "makes path (Fs (MkFifo p _)) = (p = path)"
| "makes path (Fs (CreateFile p)) = (p = path)"
| "makes path (Fs (WriteFile p _)) = (p = path)"
| "makes path (Fs (Rename _ p)) = (p = path)"
| "makes path (Fd (OpenFd p OAppend)) = (p = path)"
| "makes path _ = False"

text \<open>
  What the file system promises: a removed file stays away until it is made again; and what the
  runtime's own state files promise: each names the container it is stored under.
\<close>

definition stays_removed :: "outside \<Rightarrow> string \<Rightarrow> bool" where
  "stays_removed K path \<longleftrightarrow> (\<forall>h l. r_err (answer K h (Fs (RmFile path))) = None
     \<longrightarrow> list_all (\<lambda>op. \<not> makes path op) l
     \<longrightarrow> \<not> r_flag (answer K (l @ Fs (RmFile path) # h) (Query (Exists path))))"

definition names_itself :: "outside \<Rightarrow> dirs \<Rightarrow> string \<Rightarrow> bool" where
  "names_itself K l cid \<longleftrightarrow> (\<forall>h c h'. container_load K l cid h = (Inr c, h') \<longrightarrow> co_exec_fifo c = exec_fifo l cid)"

definition fifo_gone :: "outside \<Rightarrow> string \<Rightarrow> history \<Rightarrow> bool" where
  "fifo_gone K path h \<longleftrightarrow> (\<exists>l h0. h = l @ Fs (RmFile path) # h0
     \<and> r_err (answer K h0 (Fs (RmFile path))) = None \<and> list_all (\<lambda>op. \<not> makes path op) l)"

lemma fifo_gone_append: "fifo_gone K path h \<Longrightarrow> list_all (\<lambda>op. \<not> makes path op) l \<Longrightarrow> fifo_gone K path (l @ h)"
  unfolding fifo_gone_def by (metis append_assoc list_all_append)

lemma fifo_gone_keeps: "emits (\<lambda>op. \<not> makes path op) m \<Longrightarrow> fifo_gone K path h \<Longrightarrow> wp m (\<lambda>_. fifo_gone K path) (\<lambda>_. fifo_gone K path) h"
  by (rule wp_grow) (auto intro: fifo_gone_append)

lemma fifo_gone_now: "r_err (answer K h (Fs (RmFile path))) = None \<Longrightarrow> fifo_gone K path (Fs (RmFile path) # h)"
  unfolding fifo_gone_def by (rule exI [of _ "[]"]) simp

lemma release_removes: "wp (fifo_release K path) (\<lambda>_. fifo_gone K path) (\<lambda>_ _. True) h"
  unfolding fifo_release_def wp_simps
  by (auto simp: wp_simps split: option.split intro: fifo_gone_now)

lemma query_makes_nothing: "emits is_query m \<Longrightarrow> emits (\<lambda>op. \<not> makes path op) m"
  by (erule emits_mono) (auto elim: is_queryE)

lemma hooks_make_nothing: "emits (\<lambda>op. \<not> makes path op) (hooks_run K hs ph st)"
proof (rule emits_mono [OF hooks_run_calls])
  show "hook_call op \<Longrightarrow> \<not> makes path op" for op by (cases op) auto
qed

lemma start_removes_fifo:
  assumes "names_itself K l cid"
  shows "wp (start K l cid) (\<lambda>_. fifo_gone K (exec_fifo l cid)) (\<lambda>_ _. True) h"
proof -
  let ?path = "exec_fifo l cid"
  have rest: "wp (bind_p (container_hooks K c) (\<lambda>hs. bind_p (State.oci_state K c) (\<lambda>state. hooks_run K hs Poststart state)))
      (\<lambda>_. fifo_gone K ?path) (\<lambda>_ _. True) h1" if "fifo_gone K ?path h1" for c h1
    by (rule wp_mono [OF fifo_gone_keeps [OF _ that]])
      (auto intro!: emits_bind query_makes_nothing [OF container_hooks_queries] query_makes_nothing [OF oci_state_queries]
        hooks_make_nothing)
  have release: "wp (seq_p (fifo_release K ?path) (bind_p (container_hooks K c) (\<lambda>hs.
      bind_p (State.oci_state K c) (\<lambda>state. hooks_run K hs Poststart state)))) (\<lambda>_. fifo_gone K ?path) (\<lambda>_ _. True) h1" for c h1
    unfolding wp_seq by (rule wp_mono [OF release_removes]) (auto intro: rest)
  have "wp (container_load K l cid) (\<lambda>c _. co_exec_fifo c = ?path) (\<lambda>_ _. True) h"
    using assms by (auto intro!: wpI simp: names_itself_def)
  then show ?thesis
    unfolding start_def wp_bind [of "container_load K l cid"]
    by (rule wp_mono) (auto intro!: wp_then release)
qed

lemma status_without_fifo:
  assumes "stays_removed K (co_exec_fifo c)"
  shows "fifo_gone K (co_exec_fifo c) h \<Longrightarrow> wp (container_status K c) (\<lambda>s _. s \<noteq> Created) (\<lambda>_ _. True) h"
proof -
  assume gone: "fifo_gone K (co_exec_fifo c) h"
  have absent: "\<not> r_flag (answer K h1 (Query (Exists (co_exec_fifo c))))" if "fifo_gone K (co_exec_fifo c) h1" for h1
    using that assms unfolding fifo_gone_def stays_removed_def by blast
  have ask: "wp (bind_p (ask K (Query (Exists (co_exec_fifo c))) r_flag) (\<lambda>waiting. ret (if waiting then Created else Running)))
      (\<lambda>s _. s \<noteq> Created) (\<lambda>_ _. True) h1" if "fifo_gone K (co_exec_fifo c) h1" for h1
    using absent [OF that] by (simp add: wp_simps)
  have frozen: "wp (bind_p (is_frozen K cg) (\<lambda>frozen. if frozen then ret Paused
      else bind_p (ask K (Query (Exists (co_exec_fifo c))) r_flag) (\<lambda>waiting. ret (if waiting then Created else Running))))
      (\<lambda>s _. s \<noteq> Created) (\<lambda>_ _. True) h1" if "fifo_gone K (co_exec_fifo c) h1" for cg h1
    unfolding wp_bind [of "is_frozen K cg"]
    by (rule wp_mono [OF fifo_gone_keeps [OF query_makes_nothing [OF frozen_queries] that]]) (auto simp: wp_ret ask)
  show ?thesis
    unfolding container_status_def wp_bind [of "alive K c"]
    by (rule wp_mono [OF fifo_gone_keeps [OF query_makes_nothing [OF alive_queries] gone]]) (auto simp: wp_ret frozen)
qed

text \<open>
  C10: starting a container twice fails. After a successful start, every later start of the same
  container fails before it acts, whatever happened in between, as long as the exec fifo was not
  made again.
\<close>

theorem second_start_fails:
  assumes "stays_removed K (exec_fifo l cid)" "names_itself K l cid"
    and "start K l cid h = (Inr (), h1)" "list_all (\<lambda>op. \<not> makes (exec_fifo l cid) op) later"
  shows "wp (start K l cid) (\<lambda>_ _. False) (\<lambda>_ h2. \<exists>calls. h2 = calls @ later @ h1 \<and> list_all is_query calls) (later @ h1)"
proof -
  let ?path = "exec_fifo l cid" and ?h = "later @ h1"
  have "fifo_gone K ?path h1" using wp_sound [OF start_removes_fifo [OF assms(2)] assms(3)] by simp
  then have gone: "fifo_gone K ?path ?h" using assms(4) by (rule fifo_gone_append)
  have refused: "wp (require K c [Created]) (\<lambda>_ _. False) (\<lambda>_ _. True) h2"
    if "co_exec_fifo c = ?path" "fifo_gone K ?path h2" for c h2
    unfolding require_def wp_bind [of "container_status K c"]
    by (rule wp_mono [OF status_without_fifo]) (use that assms(1) in \<open>simp_all add: wp_simps\<close>)
  let ?Q = "\<lambda>h2. \<exists>calls. h2 = calls @ ?h \<and> list_all is_query calls"
  have load: "wp (container_load K l cid) (\<lambda>c h2. co_exec_fifo c = ?path \<and> ?Q h2) (\<lambda>_. ?Q) ?h"
  proof (rule wpI)
    show "co_exec_fifo c = ?path \<and> ?Q h2" if "container_load K l cid ?h = (Inr c, h2)" for c h2
      using assms(2) [unfolded names_itself_def] wp_sound [OF emits_wp [OF load_queries] that] that by blast
    show "?Q h2" if "container_load K l cid ?h = (Inl e, h2)" for e h2
      using wp_sound_err [OF emits_wp [OF load_queries] that] .
  qed
  have req: "wp (require K c [Created]) (\<lambda>_ _. False) (\<lambda>_. ?Q) h2" if c: "co_exec_fifo c = ?path \<and> ?Q h2" for c h2
  proof (rule wpI)
    from c obtain k where k: "h2 = k @ ?h" "list_all is_query k" by blast
    then have "list_all (\<lambda>op. \<not> makes ?path op) k" by (auto simp: list_all_iff elim!: is_queryE)
    with gone k(1) have gone2: "fifo_gone K ?path h2" by (simp add: fifo_gone_append)
    show False if "require K c [Created] h2 = (Inr s, h3)" for s h3
      using wp_sound [OF refused that] c gone2 by simp
    show "?Q h3" if run: "require K c [Created] h2 = (Inl e, h3)" for e h3
    proof -
      obtain k' where "h3 = k' @ h2" "list_all is_query k'" using emitsD [OF require_queries run] .
      with k show ?thesis by (intro exI [of _ "k' @ k"]) simp
    qed
  qed
  show ?thesis
    unfolding start_def wp_bind [of "container_load K l cid"] wp_bind [of "require K c ss" for c ss]
    by (rule wp_mono [OF load]) (auto intro!: wp_mono [OF req])
qed

text \<open>A file system that forgets removed files, with one created container.\<close>

definition one_created :: outside where
  "one_created = (granting (\<lambda>_ r. r))\<lparr>answer := (\<lambda>h op. case op of
       Query (Exists p) \<Rightarrow> plain_reply\<lparr>r_flag := Fs (RmFile p) \<notin> set h\<rparr>
     | Query (ReadFile p) \<Rightarrow> plain_reply\<lparr>r_text := ''(sh) S 1 1 1 1 1 1 1 1 1 1 1 1 1 1 1 1 1 1 500''\<rparr>
     | _ \<Rightarrow> plain_reply\<lparr>r_num := 1, r_num2 := 48\<rparr>),
     parse_state := (\<lambda>_. Some (some_state\<lparr>pe_start_time := 500\<rparr>))\<rparr>"

lemma one_created_promises: "stays_removed one_created path" "names_itself one_created l (pe_id some_state)"
proof -
  show "stays_removed one_created path" by (simp add: stays_removed_def one_created_def)
  show "names_itself one_created l (pe_id some_state)"
    by (auto simp: names_itself_def one_created_def container_load_def bind_p_def ask_def io_def call_def ret_def fail_def
        lift_res_def ok_or_def co_exec_fifo_def co_id_def Let_def plain_reply_def split: option.splits if_splits)
qed

lemma second_start_fails_witness:
  "\<exists>h1. start one_created \<lparr>root = ''/run''\<rparr> (pe_id some_state) [] = (Inr (), h1)
     \<and> wp (start one_created \<lparr>root = ''/run''\<rparr> (pe_id some_state)) (\<lambda>_ _. False)
         (\<lambda>_ h2. \<exists>calls. h2 = calls @ [Time Now] @ h1 \<and> list_all is_query calls) ([Time Now] @ h1)"
proof -
  let ?run = "start one_created \<lparr>root = ''/run''\<rparr> (pe_id some_state) []"
  have "fst ?run = Inr ()" by code_simp
  then obtain h1 where run: "?run = (Inr (), h1)" by (cases ?run) auto
  from second_start_fails [OF one_created_promises run, of "[Time Now]"] run show ?thesis by auto
qed

section \<open>Killing all processes\<close>

definition all_signalled :: "outside \<Rightarrow> cgroup \<Rightarrow> int \<Rightarrow> history \<Rightarrow> bool" where
  "all_signalled K cg signal h \<longleftrightarrow> (\<exists>pids. earlier (cg_procs K cg) pids h
     \<and> list_all (\<lambda>pid. done_op K h (Proc (KillProc pid signal))) pids)"

lemma stable_all_signalled: "stable (all_signalled K cg signal)"
  unfolding all_signalled_def [abs_def] by (intro stable_ex stable_conj stable_earlier stable_list_all stable_asked)

lemma kill_each_signals:
  "earlier (cg_procs K cg) pids h \<Longrightarrow> wp (kill_each K signal pids) (\<lambda>_. all_signalled K cg signal) (\<lambda>_ _. True) h"
proof -
  assume "earlier (cg_procs K cg) pids h"
  then have "wp (kill_each K signal pids)
      (\<lambda>_ h'. earlier (cg_procs K cg) pids h' \<and> (\<forall>pid \<in> set pids. done_op K h' (Proc (KillProc pid signal)))) (\<lambda>_ _. True) h"
    unfolding kill_each_def
    by (rule wp_each_all) (auto simp: wp_simps split: option.split intro: earlier_append)
  then show ?thesis by (rule wp_mono) (auto simp: all_signalled_def list_all_iff)
qed

lemma kill_all_while_frozen_def:
  "kill_all K cg signal = while_frozen (is_frozen K cg) (cg_freeze K cg) (bind_p (cg_procs K cg) (kill_each K signal))"
  by (simp add: kill_all_def while_frozen_def)

lemma kill_all_sends: "ensures (bind_p (cg_procs K cg) (kill_each K signal)) (all_signalled K cg signal)"
  by (rule ensuresI) (auto simp: wp_bind intro!: wp_mono [OF wp_earlier] kill_each_signals)

lemma kill_all_body_grows: "grows (bind_p (cg_procs K cg) (kill_each K signal))"
  unfolding kill_each_def by (intro grows_more parts_grow grows_intros)

abbreviation freeze_write :: "cgroup \<Rightarrow> string \<Rightarrow> sysop" where
  "freeze_write cg text \<equiv> Fs (WriteFile (path_join (cg_path cg) ''cgroup.freeze'') text)"

definition thawed_if_killed :: "outside \<Rightarrow> cgroup \<Rightarrow> history \<Rightarrow> history \<Rightarrow> bool" where
  "thawed_if_killed K cg h h' \<longleftrightarrow> polled K cg h \<or> (\<exists>calls. h' = calls @ h \<and> list_all no_kill calls)
     \<or> freeze_write cg ''0'' \<in> set h'"

lemma thaw_writes:
  "wp (cg_freeze K cg False) (\<lambda>_ h'. freeze_write cg ''0'' \<in> set h') (\<lambda>_ h'. freeze_write cg ''0'' \<in> set h') h"
proof -
  have "wp (await_frozen K cg False 500) (\<lambda>_ h'. op \<in> set h') (\<lambda>_ h'. op \<in> set h') h1" if "op \<in> set h1" for op h1
  proof -
    have "emits (\<lambda>_. True) (await_frozen K cg False n)" for n
      by (induction n) (auto intro!: emits_intros emits_mono [OF frozen_queries])
    from wp_grow [OF this] show ?thesis using that by auto
  qed
  then show ?thesis unfolding cg_freeze_def cg_write_def wp_simps by (auto split: option.split)
qed

lemma kill_all_thaws: "wp (kill_all K cg signal) (\<lambda>_. thawed_if_killed K cg h) (\<lambda>_. thawed_if_killed K cg h) h"
proof -
  let ?T = "thawed_if_killed K cg h" and ?poll = "Query (ReadFile (path_join (cg_path cg) ''cgroup.events''))"
  have rest: "wp (on_result m (\<lambda>result. seq_p (cg_freeze K cg False) (lift_res result))) (\<lambda>_. ?T) (\<lambda>_. ?T) h1" for m :: "unit prog" and h1
  proof -
    have "wp (seq_p (cg_freeze K cg False) (lift_res result)) (\<lambda>_. ?T) (\<lambda>_. ?T) h2" for result :: "unit res" and h2
      unfolding wp_seq
      by (rule wp_mono [OF thaw_writes]) (auto simp: wp_lift_res thawed_if_killed_def split: sum.split)
    then show ?thesis unfolding wp_on_result by (auto intro: wpI)
  qed
  have freeze: "wp (cg_freeze K cg True) (\<lambda>_ _. True) (\<lambda>_. ?T) (?poll # h)"
  proof (rule wpI)
    show "?T h'" if run: "cg_freeze K cg True (?poll # h) = (Inl e, h')" for e h'
    proof -
      obtain k where "h' = k @ ?poll # h" "list_all no_kill k" using emitsD [OF freeze_no_kill run] .
      then have "h' = (k @ [?poll]) @ h \<and> list_all no_kill (k @ [?poll])" by simp
      then show ?thesis unfolding thawed_if_killed_def by blast
    qed
  qed simp
  show ?thesis
  proof (cases "polled K cg h")
    case False
    then show ?thesis
      unfolding kill_all_def wp_bind [of "is_frozen K cg"] wp_is_frozen
      by (simp add: when_p_def wp_seq wp_mono [OF freeze rest])
  qed (auto intro: wpI simp: thawed_if_killed_def)
qed


section \<open>Deleting releases everything\<close>

text \<open>Every process the group of a container was seen to hold was sent the kill signal.\<close>

definition all_killed :: "outside \<Rightarrow> container \<Rightarrow> history \<Rightarrow> bool" where
  "all_killed K c h \<longleftrightarrow> (\<exists>pids. earlier (or_else [] (cg_procs K (co_cgroup c))) pids h
     \<and> (\<forall>pid \<in> set pids. Proc (KillProc pid SIGKILL) \<in> set h))"

definition state_gone :: "outside \<Rightarrow> container \<Rightarrow> history \<Rightarrow> bool" where
  "state_gone K c h \<longleftrightarrow> (let dir = container_dir (co_layout c) (co_id c) in
     asked K h (Query (Exists dir)) (\<lambda>r. \<not> r_flag r) \<or> done_op K h (Fs (RmDirAll dir)))"

definition ended :: "outside \<Rightarrow> bool \<Rightarrow> container \<Rightarrow> history \<Rightarrow> bool" where
  "ended K force c h \<longleftrightarrow> earlier (container_status K c) Stopped h \<or> force \<and> all_killed K c h"

definition group_removal :: "container \<Rightarrow> history \<Rightarrow> bool" where
  "group_removal c h \<longleftrightarrow> Fs (RmDir (cg_path (co_cgroup c))) \<in> set h"

lemma stable_member: "stable (\<lambda>h. op \<in> set h)"
  by (simp add: stable_def)

lemma stable_ended: "stable (ended K force c)"
  unfolding ended_def [abs_def] all_killed_def [abs_def]
  by (intro stable_disj stable_conj stable_const stable_ex stable_ball stable_earlier stable_member)

lemma stable_group_removal: "stable (group_removal c)"
  unfolding group_removal_def [abs_def] by (rule stable_member)

lemma force_stop_kills: "ensures (force_stop K c) (all_killed K c)"
proof -
  have kill: "ensures (each (kill_quietly K SIGKILL) pids) (\<lambda>h. \<forall>pid \<in> set pids. Proc (KillProc pid SIGKILL) \<in> set h)" for pids
    by (rule ensures_each) (auto intro!: ensuresI stable_member grows_more grows_intros simp: kill_quietly_def wp_simps split: option.split)
  have wait: "grows (await_dead K c 500)" by (rule parts_grow)
  have "wp (seq_p (each (kill_quietly K SIGKILL) pids) (await_dead K c 500)) (\<lambda>_. all_killed K c) (\<lambda>_ _. True) h1"
    if "earlier (or_else [] (cg_procs K (co_cgroup c))) pids h1" for pids h1
  proof (rule wpI)
    fix u h2 assume run: "seq_p (each (kill_quietly K SIGKILL) pids) (await_dead K c 500) h1 = (Inr u, h2)"
    have grow: "grows (seq_p (each (kill_quietly K SIGKILL) pids) (await_dead K c 500))"
      unfolding kill_quietly_def by (intro grows_seq grows_more grows_intros wait)
    have "earlier (or_else [] (cg_procs K (co_cgroup c))) pids h2"
      using wp_sound [OF emits_keeps [OF grow [unfolded grows_def] stable_earlier that] run] .
    moreover have "ensures (seq_p (each (kill_quietly K SIGKILL) pids) (await_dead K c 500))
        (\<lambda>h. \<forall>pid \<in> set pids. Proc (KillProc pid SIGKILL) \<in> set h)"
      by (rule ensures_seq_first [OF kill _ wait]) (intro stable_ball stable_member)
    ultimately show "all_killed K c h2" using run unfolding all_killed_def ensures_def by blast
  qed simp
  then show ?thesis
    unfolding force_stop_def Let_def
    by (intro ensures_then ensures_seq_then ensuresI) (simp add: wp_bind wp_mono [OF wp_earlier])
qed

lemma destroy_tries: "ensures (ignore (cg_destroy K (co_cgroup c))) (group_removal c)"
  unfolding ensures_wp wp_ignore group_removal_def [abs_def] by (rule allI) (rule destroy_removes)

lemma remove_removes: "ensures (container_remove K c) (state_gone K c)"
  by (rule ensuresI) (auto simp: container_remove_def state_gone_def wp_simps Let_def split: option.split)

text \<open>The two halves of a deletion: ending the processes, and releasing what the container held.\<close>

abbreviation delete_stop :: "outside \<Rightarrow> string \<Rightarrow> bool \<Rightarrow> container \<Rightarrow> status \<Rightarrow> unit prog" where
  "delete_stop K cid force c s \<equiv> (if s = Stopped then ret ()
     else if \<not> force then fail (BadState cid (status_text s) ''stopped; pass --force to kill it first'')
     else force_stop K c)"

abbreviation delete_rest :: "outside \<Rightarrow> container \<Rightarrow> unit prog" where
  "delete_rest K c \<equiv> bind_p (or_else None (container_hooks K c)) (\<lambda>hs. seq_p (ignore (cg_destroy K (co_cgroup c)))
     (bind_p (State.oci_state K c) (\<lambda>state. seq_p (hooks_run K hs Poststop state) (container_remove K c))))"

lemma delete_last_grows:
  "grows (bind_p (State.oci_state K c) (\<lambda>state. seq_p (hooks_run K hs Poststop state) (container_remove K c)))"
  by (intro grows_seq grows_more parts_grow remove_grows)

lemma delete_stop_ends:
  assumes seen: "earlier (container_status K c) s h"
  shows "wp (delete_stop K cid force c s) (\<lambda>_. ended K force c) (\<lambda>_ _. True) h"
proof (cases "s = Stopped")
  case True
  with seen show ?thesis by (simp add: wp_ret ended_def)
next
  case False
  have "wp (force_stop K c) (\<lambda>_. all_killed K c) (\<lambda>_ _. True) h"
    using force_stop_kills [of K c] by (simp add: ensures_wp)
  then have "wp (force_stop K c) (\<lambda>_. ended K True c) (\<lambda>_ _. True) h"
    by (rule wp_mono) (simp_all add: ended_def)
  with False show ?thesis by (cases force) (simp_all add: wp_fail)
qed

lemma delete_order:
  "guarded (\<lambda>op. \<exists>dir. op = Fs (RmDirAll dir)) (\<lambda>h. ended K force c h \<and> group_removal c h) (delete_loaded K cid force c)"
    (is "guarded ?P ?F _")
  unfolding delete_loaded_def
proof (intro guarded_guards guards_bind [where E = "earlier (container_status K c)", OF guards_no_call wp_earlier])
  have quiet: "emits (\<lambda>op. \<not> ?P op) m" if "emits is_query m" for m :: "'b prog"
    using that by (rule emits_mono) auto
  show "emits (\<lambda>op. \<not> ?P op) (container_status K c)" by (rule quiet [OF status_queries])
  fix s
  have "emits (\<lambda>op. \<not> ?P op) (force_stop K c)"
    unfolding force_stop_def kill_quietly_def Let_def
    by (intro emits_intros quiet frozen_queries procs_queries emits_mono [OF freeze_calls] emits_mono [OF await_dead_calls])
      (auto split: sysop.splits)
  then have stop: "guards ?P (earlier (container_status K c) s) ?F (delete_stop K cid force c s)"
    by (intro guards_no_call) (simp add: emits_ret emits_fail)
  have destroy: "emits (\<lambda>op. \<not> ?P op) (ignore (cg_destroy K (co_cgroup c)))"
    by (intro emits_intros emits_mono [OF destroy_calls]) auto
  have "guards ?P (ended K force c) ?F (delete_rest K c)"
    by (intro guards_skip guards_note_seq [OF destroy stable_ended destroy_tries] stable_ended
        emits_or_else quiet container_hooks_queries guards_known [OF delete_last_grows] stable_conj stable_group_removal)
  then show "guards ?P (earlier (container_status K c) s) ?F (seq_p (delete_stop K cid force c s) (delete_rest K c))"
    unfolding seq_p_def [of "delete_stop K cid force c s"]
    by (intro guards_bind [where E = "\<lambda>_. ended K force c" and m = "delete_stop K cid force c s"] stop delete_stop_ends)
qed

lemma delete_ensures_ended: "ensures (delete_loaded K cid force c) (ended K force c)"
proof (rule ensuresI)
  fix h
  let ?E = "ended K force c"
  have rest: "grows (delete_rest K c)" by (intro grows_seq grows_more parts_grow remove_grows)
  have "wp (delete_rest K c) (\<lambda>_. ?E) (\<lambda>_ _. True) h1" if "?E h1" for h1
    by (rule wp_mono [OF emits_keeps [OF rest [unfolded grows_def] stable_ended that]]) simp_all
  then have "wp (seq_p (delete_stop K cid force c s) (delete_rest K c)) (\<lambda>_. ?E) (\<lambda>_ _. True) h1"
    if "earlier (container_status K c) s h1" for s h1
    unfolding wp_seq by (rule wp_mono [OF delete_stop_ends [OF that]]) simp_all
  then show "wp (delete_loaded K cid force c) (\<lambda>_. ?E) (\<lambda>_ _. True) h"
    unfolding delete_loaded_def wp_bind [of "container_status K c"] by (rule wp_mono [OF wp_earlier]) simp_all
qed

lemma delete_ensures_gone: "ensures (delete_loaded K cid force c) (\<lambda>h. group_removal c h \<and> state_gone K c h)"
  unfolding delete_loaded_def
proof (intro ensures_conj)
  show "ensures (bind_p (container_status K c) (\<lambda>s. seq_p (delete_stop K cid force c s) (delete_rest K c))) (group_removal c)"
    by (intro ensures_then, rule ensures_seq_then, rule ensures_then,
        rule ensures_seq_first [OF destroy_tries stable_group_removal delete_last_grows])
  show "ensures (bind_p (container_status K c) (\<lambda>s. seq_p (delete_stop K cid force c s) (delete_rest K c))) (state_gone K c)"
    by (intro ensures_then ensures_seq_then remove_removes)
qed


end
