(* ===== verification/Commands.thy ===== *)
theory Commands
  imports Lifecycle
begin

text \<open>
  \<^verbatim>\<open>src/src/cli.rs\<close> and \<^verbatim>\<open>src/src/commands/\<close>: the commands as the command line
  gives them. The parsing of the command line is \<^verbatim>\<open>clap\<close>'s; the records here are its results.
  The texts that the serialisation library produces, the environment variable of the telemetry and
  the clock that a failed create leaves behind are fields of a \<open>frontend\<close>, a parameter of the
  model.
\<close>

section \<open>The command line\<close>

datatype rootless_mode = RootlessTrue | RootlessFalse | RootlessAuto
datatype list_format = ListTable | ListJson
datatype log_format = LogText | LogJson

record create_args =
  ar_bundle :: string
  ar_console_socket :: "string option"
  ar_pid_file :: "string option"
  ar_preserve_fds :: int
  ar_no_pivot :: bool
  ar_no_new_keyring :: bool
  ar_id :: string

record run_args = create_args +
  ar_detach :: bool
  ar_keep :: bool

record exec_args =
  ax_process :: "string option"
  ax_console_socket :: "string option"
  ax_cwd :: "string option"
  ax_env :: "string list"
  ax_tty :: bool
  ax_user :: "string option"
  ax_additional_gids :: "nat list"
  ax_detach :: bool
  ax_pid_file :: "string option"
  ax_process_label :: "string option"
  ax_apparmor :: "string option"
  ax_no_new_privs :: bool
  ax_cap :: "string list"
  ax_preserve_fds :: int
  ax_cgroup :: "string option"
  ax_ignore_paused :: bool
  ax_id :: string
  ax_argv :: "string list"

record kill_args =
  ak_all :: bool
  ak_id :: string
  ak_signal :: string

record delete_args =
  ad_force :: bool
  ad_id :: string

record list_args =
  al_format :: list_format
  al_quiet :: bool

record ps_args =
  ap_format :: string
  ap_id :: string
  ap_options :: "string list"

record events_args =
  ae_interval :: string
  ae_stats :: bool
  ae_id :: string

record update_args =
  au_resources :: "string option"
  au_memory :: "int option"
  au_memory_swap :: "int option"
  au_cpu_quota :: "int option"
  au_cpu_period :: "nat option"
  au_cpu_share :: "nat option"
  au_cpuset_cpus :: "string option"
  au_cpuset_mems :: "string option"
  au_pids_limit :: "int option"
  au_id :: string

record spec_args =
  as_bundle :: string

datatype cli_command =
    CmdCreate create_args | CmdStart string | CmdRun run_args | CmdExec exec_args | CmdKill kill_args
  | CmdDelete delete_args | CmdState string | CmdList list_args | CmdPs ps_args | CmdPause string
  | CmdResume string | CmdEvents events_args | CmdUpdate update_args | CmdSpec spec_args | CmdFeatures

record cli =
  cl_root :: string
  cl_log :: "string option"
  cl_log_format :: log_format
  cl_debug :: bool
  cl_systemd_cgroup :: bool
  cl_rootless :: "rootless_mode option"
  cl_otlp_endpoint :: "string option"
  cl_command :: cli_command

section \<open>The surroundings\<close>

record event_stats =
  es_usage :: nat
  es_peak :: nat
  es_limit_events :: nat
  es_oom_kill :: nat
  es_usage_usec :: nat
  es_nr_periods :: nat
  es_nr_throttled :: nat
  es_throttled_usec :: nat
  es_pids_current :: nat

record event =
  ev_kind :: string
  ev_id :: string
  ev_data :: "event_stats option"

text \<open>A value of \<^verbatim>\<open>serde_json\<close>; an object is the list of its members as they are written.\<close>

datatype json = JNull | JBool bool | JStr string | JArr "json list" | JObj "(string \<times> json) list"

record frontend =
  fr_state_json :: "Data.oci_state \<Rightarrow> string option"
  fr_states_json :: "Data.oci_state list \<Rightarrow> string option"
  fr_event_json :: "event \<Rightarrow> string option"
  fr_pids_json :: "int list \<Rightarrow> string option"
  fr_spec_json :: "string \<Rightarrow> string \<Rightarrow> string option"
  fr_value_json :: "json \<Rightarrow> string option"
  fr_otlp_env :: "string option"
  fr_log_env :: "string option"
  fr_clock_left :: "history \<Rightarrow> recorder"

text \<open>\<^verbatim>\<open>println!\<close> of a line; it panics when standard output cannot be written.\<close>

definition println :: "outside \<Rightarrow> string \<Rightarrow> unit prog" where
  "println K line = do_op K (\<lambda>_. Panicked) (Tty (PrintOut (line @ [CHR 0x0A])))"

definition json_line :: "outside \<Rightarrow> string option \<Rightarrow> unit prog" where
  "json_line K json = bind_p (lift_res (ok_or json JsonErr)) (println K)"

section \<open>Creating and running\<close>

definition reject_unsupported :: "int \<Rightarrow> bool \<Rightarrow> unit res" where
  "reject_unsupported preserve_fds no_pivot =
     (if preserve_fds \<noteq> 0 then Inl (Unimplemented ''--preserve-fds'')
      else if no_pivot then Inl (Unimplemented ''--no-pivot'') else Inr ())"

definition trace :: "outside \<Rightarrow> frontend \<Rightarrow> string option \<Rightarrow> string \<Rightarrow> string \<Rightarrow> recorder \<Rightarrow> unit prog" where
  "trace K J otlp name cid clock = (case endpoint otlp (fr_otlp_env J) of
     None \<Rightarrow> bind_p (rec_end K clock) (\<lambda>_. ret ())
   | Some e \<Rightarrow> ignore (export_trace K e name cid clock))"

definition options_of :: "('a create_args_scheme) \<Rightarrow> bool \<Rightarrow> create_options" where
  "options_of args rootless = \<lparr>cr_id = ar_id args, cr_pid_file = ar_pid_file args,
     cr_console_socket = ar_console_socket args, cr_rootless = rootless\<rparr>"

text \<open>
  The trace follows a failed create too; what its recorder then holds depends on where create
  failed, and is the parameter \<open>fr_clock_left\<close>. A process forked by create never comes back.
\<close>

definition create_command ::
    "outside \<Rightarrow> frontend \<Rightarrow> dirs \<Rightarrow> create_args \<Rightarrow> bool \<Rightarrow> string option \<Rightarrow> unit prog" where
  "create_command K J l args rootless otlp =
     seq_p (lift_res (reject_unsupported (ar_preserve_fds args) (ar_no_pivot args)))
     (bind_p (recorder_new K) (\<lambda>clock.
      bind_p (rec_begin K ''bundle'' clock) (\<lambda>clock.
      bind_p (bundle_load K (ar_bundle args)) (\<lambda>b.
      on_result (create K l b (options_of args rootless) clock) (\<lambda>outcome. case outcome of
        Inr None \<Rightarrow> ret ()
      | Inr (Some clock) \<Rightarrow> trace K J otlp ''container.create'' (ar_id args) clock
      | Inl e \<Rightarrow> seq_p (\<lambda>h. trace K J otlp ''container.create'' (ar_id args) (fr_clock_left J h) h) (fail e))))))"

definition run_command ::
    "outside \<Rightarrow> frontend \<Rightarrow> dirs \<Rightarrow> run_args \<Rightarrow> bool \<Rightarrow> string option \<Rightarrow> nat prog" where
  "run_command K J l args rootless otlp =
     seq_p (lift_res (reject_unsupported (ar_preserve_fds args) (ar_no_pivot args)))
     (bind_p (recorder_new K) (\<lambda>clock.
      bind_p (rec_begin K ''bundle'' clock) (\<lambda>clock.
      bind_p (bundle_load K (ar_bundle args)) (\<lambda>b.
      run K l b (options_of args rootless) (ar_detach args) (ar_keep args) clock
        (trace K J otlp ''container.run'' (ar_id args))))))"

definition exec_options_of :: "exec_args \<Rightarrow> exec_options" where
  "exec_options_of args = \<lparr>eo_argv = ax_argv args, eo_env = ax_env args, eo_cwd = ax_cwd args,
     eo_process = ax_process args, eo_user = ax_user args, eo_additional_gids = ax_additional_gids args,
     eo_console_socket = ax_console_socket args, eo_tty = ax_tty args, eo_detach = ax_detach args,
     eo_pid_file = ax_pid_file args, eo_ignore_paused = ax_ignore_paused args\<rparr>"

definition exec_command :: "outside \<Rightarrow> dirs \<Rightarrow> exec_args \<Rightarrow> nat prog" where
  "exec_command K l args =
     (if ax_preserve_fds args \<noteq> 0 then fail (Unimplemented ''exec --preserve-fds'')
      else exec_in K l (ax_id args) (exec_options_of args))"

section \<open>Signals, state and limits\<close>

definition kill_command :: "outside \<Rightarrow> dirs \<Rightarrow> kill_args \<Rightarrow> unit prog" where
  "kill_command K l args =
     bind_p (lift_res (parse_signal K (ak_signal args))) (\<lambda>signal. kill K l (ak_id args) signal (ak_all args))"

text \<open>\<^verbatim>\<open>writeln!\<close> returns its error.\<close>

definition state_command :: "outside \<Rightarrow> frontend \<Rightarrow> dirs \<Rightarrow> string \<Rightarrow> unit prog" where
  "state_command K J l cid =
     bind_p (container_load K l cid) (\<lambda>c.
     bind_p (State.oci_state K c) (\<lambda>state.
     bind_p (lift_res (ok_or (fr_state_json J state) JsonErr)) (\<lambda>json.
     do_op K (IoErr ''write the container state to stdout'') (Tty (PrintOut (json @ [CHR 0x0A]))))))"

text \<open>\<^verbatim>\<open>from_flags\<close>: the builders of the specification library set the given fields.\<close>

definition flags_memory :: "update_args \<Rightarrow> memory option" where
  "flags_memory a =
     (if au_memory a \<noteq> None \<or> au_memory_swap a \<noteq> None
      then Some \<lparr>me_limit = au_memory a, me_reservation = None, me_swap = au_memory_swap a\<rparr> else None)"

definition flags_cpu :: "update_args \<Rightarrow> cpu option" where
  "flags_cpu a =
     (if au_cpu_quota a \<noteq> None \<or> au_cpu_period a \<noteq> None \<or> au_cpu_share a \<noteq> None
         \<or> au_cpuset_cpus a \<noteq> None \<or> au_cpuset_mems a \<noteq> None
      then Some \<lparr>cp_shares = au_cpu_share a, cp_quota = au_cpu_quota a, cp_period = au_cpu_period a,
        cp_cpus = au_cpuset_cpus a, cp_mems = au_cpuset_mems a\<rparr> else None)"

definition from_flags :: "update_args \<Rightarrow> resources res" where
  "from_flags a =
     (if flags_memory a = None \<and> flags_cpu a = None \<and> au_pids_limit a = None
      then Inl (Invalid ''update needs at least one limit, or --resources with a JSON document'')
      else Inr \<lparr>rs_memory = flags_memory a, rs_cpu = flags_cpu a, rs_pids = au_pids_limit a,
        rs_block_io = None, rs_unified = None\<rparr>)"

definition update_resources :: "outside \<Rightarrow> update_args \<Rightarrow> resources prog" where
  "update_resources K a = (case au_resources a of
     Some path \<Rightarrow>
       bind_p (if path = ''-'' then io K (IoErr ''read resources from stdin'') (Fd (FdRead 0)) r_text
               else io K (IoErr ''read'') (Query (ReadFile path)) r_text) (\<lambda>text.
       lift_res (ok_or (parse_resources K text) JsonErr))
   | None \<Rightarrow> lift_res (from_flags a))"

definition update_command :: "outside \<Rightarrow> dirs \<Rightarrow> update_args \<Rightarrow> unit prog" where
  "update_command K l a = bind_p (update_resources K a) (update K l (au_id a))"

section \<open>Events\<close>

definition single_value :: "outside \<Rightarrow> cgroup \<Rightarrow> string \<Rightarrow> nat prog" where
  "single_value K cg name = on_result (cg_read K cg name) (\<lambda>r. ret (case r of
     Inl _ \<Rightarrow> 0 | Inr text \<Rightarrow> get_or 0 (parse_unsigned u64_bound (trim text))))"

definition no_memory_events :: memory_stats where
  "no_memory_events = \<lparr>ev_low = 0, ev_high = 0, ev_max = 0, ev_oom = 0, ev_oom_kill = 0\<rparr>"

definition no_cpu_stat :: cpu_stats where
  "no_cpu_stat = \<lparr>st_usage_usec = 0, st_nr_periods = 0, st_nr_throttled = 0, st_throttled_usec = 0\<rparr>"

definition sample :: "outside \<Rightarrow> container \<Rightarrow> event prog" where
  "sample K c =
     (let cg = co_cgroup c in
      bind_p (or_else no_memory_events (memory_events K cg)) (\<lambda>memory.
      bind_p (or_else no_cpu_stat (cpu_stat K cg)) (\<lambda>cpu.
      bind_p (single_value K cg ''memory.current'') (\<lambda>usage.
      bind_p (single_value K cg ''memory.peak'') (\<lambda>peak.
      bind_p (single_value K cg ''pids.current'') (\<lambda>pids.
      ret \<lparr>ev_kind = ''stats'', ev_id = co_id c, ev_data = Some
        \<lparr>es_usage = usage, es_peak = peak, es_limit_events = ev_max memory, es_oom_kill = ev_oom_kill memory,
         es_usage_usec = st_usage_usec cpu, es_nr_periods = st_nr_periods cpu,
         es_nr_throttled = st_nr_throttled cpu, es_throttled_usec = st_throttled_usec cpu,
         es_pids_current = pids\<rparr>\<rparr>))))))"

text \<open>A number of milliseconds in 64 bits; the product wraps around in a release build.\<close>

definition interval_unit :: "string \<Rightarrow> string \<times> 64 word" where
  "interval_unit trimmed = (case strip_suffix ''ms'' trimmed of
     Some rest \<Rightarrow> (rest, 1)
   | None \<Rightarrow> (case strip_suffix ''s'' trimmed of
     Some rest \<Rightarrow> (rest, 1000)
   | None \<Rightarrow> (case strip_suffix ''m'' trimmed of
     Some rest \<Rightarrow> (rest, 60000)
   | None \<Rightarrow> (trimmed, 1000))))"

definition parse_interval :: "string \<Rightarrow> 64 word res" where
  "parse_interval text = (case interval_unit (trim text) of (digits, multiplier) \<Rightarrow>
     (case parse_unsigned u64_bound digits of
        None \<Rightarrow> Inl (Invalid ''cannot parse the interval'')
      | Some millis \<Rightarrow> if millis = 0 then Inl (Invalid ''the interval must be positive'')
          else Inr (of_nat millis * multiplier)))"

definition exit_event :: "container \<Rightarrow> event" where
  "exit_event c = \<lparr>ev_kind = ''exit'', ev_id = co_id c, ev_data = None\<rparr>"

fun events_loop :: "outside \<Rightarrow> frontend \<Rightarrow> container \<Rightarrow> 64 word \<Rightarrow> nat \<Rightarrow> unit prog" where
  "events_loop K J c interval 0 = fail Diverged"
| "events_loop K J c interval (Suc n) =
     bind_p (container_status K c) (\<lambda>status.
     if status = Stopped then json_line K (fr_event_json J (exit_event c))
     else bind_p (sample K c) (\<lambda>stats.
       seq_p (json_line K (fr_event_json J stats))
       (seq_p (ask K (Time (SleepMs (unat interval))) (\<lambda>_. ()))
       (events_loop K J c interval n))))"

definition events_command :: "outside \<Rightarrow> frontend \<Rightarrow> dirs \<Rightarrow> events_args \<Rightarrow> unit prog" where
  "events_command K J l args =
     bind_p (container_load K l (ae_id args)) (\<lambda>c.
     bind_p (require K c [Created, Running, Paused]) (\<lambda>_.
     if ae_stats args then bind_p (sample K c) (\<lambda>stats. json_line K (fr_event_json J stats))
     else bind_p (lift_res (parse_interval (ae_interval args))) (\<lambda>interval.
       events_loop K J c interval (fuel K))))"

section \<open>Listings\<close>

text \<open>A column is filled up with spaces to its width in characters; a byte that continues a
  character in UTF-8 does not count.\<close>

definition char_count :: "string \<Rightarrow> nat" where
  "char_count s = length (filter (\<lambda>c. \<not> (128 \<le> (of_char c :: nat) \<and> (of_char c :: nat) < 192)) s)"

definition column :: "nat \<Rightarrow> string \<Rightarrow> string" where
  "column width s = s @ replicate (width - char_count s) (CHR '' '')"

definition table_row :: "outside \<Rightarrow> container \<Rightarrow> unit prog" where
  "table_row K c =
     bind_p (container_status K c) (\<lambda>status.
     println K (column 24 (co_id c)
       @ column 8 (if status = Stopped then ''0'' else int_text (co_pid c))
       @ column 10 (status_text status) @ column 32 (pe_bundle (co_state c)) @ pe_created (co_state c)))"

fun all_states :: "outside \<Rightarrow> container list \<Rightarrow> Data.oci_state list prog" where
  "all_states K [] = ret []"
| "all_states K (c # cs) =
     bind_p (State.oci_state K c) (\<lambda>s. bind_p (all_states K cs) (\<lambda>ss. ret (s # ss)))"

definition list_command :: "outside \<Rightarrow> frontend \<Rightarrow> dirs \<Rightarrow> list_args \<Rightarrow> unit prog" where
  "list_command K J l args =
     bind_p (list_containers K l) (\<lambda>cs.
     if al_quiet args then each (\<lambda>c. println K (co_id c)) cs
     else (case al_format args of
       ListJson \<Rightarrow> bind_p (all_states K cs) (\<lambda>rows. json_line K (fr_states_json J rows))
     | ListTable \<Rightarrow>
         seq_p (println K (column 24 ''ID'' @ column 8 ''PID'' @ column 10 ''STATUS'' @ column 32 ''BUNDLE'' @ ''CREATED''))
           (each (table_row K) cs)))"

definition ps_arguments :: "int list \<Rightarrow> string list \<Rightarrow> string list" where
  "ps_arguments pids extra =
     (if extra = [] then [''-f''] else extra) @ [''-p'', join_with '','' (map int_text pids)]"

definition ps_table :: "outside \<Rightarrow> int list \<Rightarrow> string list \<Rightarrow> unit prog" where
  "ps_table K pids extra =
     (if pids = [] then println K ''no processes in the container cgroup''
      else bind_p (io K (IoErr ''run ps'') (Cmd (RunHelper ''ps'' (ps_arguments pids extra))) r_wait) (\<lambda>status.
        case status of WExited _ code \<Rightarrow> if code = 0 then ret () else fail (Invalid ''ps exited with an error'')
        | _ \<Rightarrow> fail (Invalid ''ps exited with an error'')))"

definition ps_command :: "outside \<Rightarrow> frontend \<Rightarrow> dirs \<Rightarrow> ps_args \<Rightarrow> unit prog" where
  "ps_command K J l args =
     bind_p (container_load K l (ap_id args)) (\<lambda>c.
     bind_p (require K c [Created, Running, Paused]) (\<lambda>_.
     bind_p (cg_procs K (co_cgroup c)) (\<lambda>pids.
     if ap_format args = ''json'' then json_line K (fr_pids_json J pids)
     else if ap_format args = ''table'' then ps_table K pids (ap_options args)
     else fail (Invalid ''unknown ps format, expected table or json''))))"

section \<open>A new bundle, and the features\<close>

text \<open>The library's default specification, with the version and the host name set, is text of the library.\<close>

definition spec_command :: "outside \<Rightarrow> frontend \<Rightarrow> spec_args \<Rightarrow> bool \<Rightarrow> unit prog" where
  "spec_command K J args rootless =
     (if rootless then fail (Unimplemented ''spec --rootless'')
      else
        (let path = path_join (as_bundle args) ''config.json'' in
         seq_p (do_op K (IoErr ''create bundle dir'') (Fs (MkDirAll (as_bundle args))))
         (bind_p (ask K (Query (Exists path)) r_flag) (\<lambda>exists.
          if exists then fail (IoErr ''already exists'' (EOTHER 0))
          else bind_p (lift_res (ok_or (fr_spec_json J OCI_VERSION ''mars'') JsonErr)) (\<lambda>json.
            bind_p (io K (IoErr ''create'') (Fs (CreateFile path)) r_num) (\<lambda>fd.
            do_op K (IoErr ''write'') (Fd (FdWrite fd (json @ [CHR 0x0A])))))))))"

text \<open>\<^verbatim>\<open>features::run\<close>; the strings of an array are \<open>texts\<close>.\<close>

definition texts :: "string list \<Rightarrow> json" where
  "texts names = JArr (map JStr names)"

definition feature_document :: json where
  "feature_document = JObj [
     (''ociVersionMin'', JStr ''1.0.0''),
     (''ociVersionMax'', JStr OCI_VERSION),
     (''hooks'', texts [''prestart'', ''createRuntime'', ''createContainer'', ''startContainer'', ''poststart'', ''poststop'']),
     (''mountOptions'', texts [''async'', ''atime'', ''bind'', ''defaults'', ''dev'', ''diratime'', ''dirsync'', ''exec'',
       ''mand'', ''noatime'', ''nodev'', ''nodiratime'', ''noexec'', ''nomand'', ''norelatime'',
       ''nostrictatime'', ''nosuid'', ''private'', ''rbind'', ''relatime'', ''remount'', ''ro'',
       ''rprivate'', ''rshared'', ''rslave'', ''runbindable'', ''rw'', ''shared'', ''slave'',
       ''strictatime'', ''suid'', ''sync'', ''unbindable'']),
     (''linux'', JObj [
       (''namespaces'', texts [''cgroup'', ''ipc'', ''mount'', ''network'', ''pid'', ''user'', ''uts'']),
       (''capabilities'', JNull),
       (''cgroup'', JObj [
         (''v1'', JBool False),
         (''v2'', JBool True),
         (''systemd'', JBool False),
         (''systemdUser'', JBool False),
         (''rdma'', JBool False)]),
       (''seccomp'', JNull),
       (''apparmor'', JObj [(''enabled'', JBool False)]),
       (''selinux'', JObj [(''enabled'', JBool False)]),
       (''intelRdt'', JObj [(''enabled'', JBool False)]),
       (''mountExtensions'', JObj [(''idmap'', JObj [(''enabled'', JBool False)])])]),
     (''annotations'', JObj [
       (''dev.mars.overlay.lowerdir'', JStr ''colon-separated lower layers, topmost first''),
       (''dev.mars.overlay.upperdir'', JStr ''writable layer; omit for a read-only rootfs''),
       (''dev.mars.overlay.workdir'', JStr ''overlayfs scratch space, same filesystem as upperdir'')])]"

definition features_command :: "outside \<Rightarrow> frontend \<Rightarrow> unit prog" where
  "features_command K J = json_line K (fr_value_json J feature_document)"

section \<open>Dispatch\<close>

definition rootless_of :: "outside \<Rightarrow> rootless_mode option \<Rightarrow> bool prog" where
  "rootless_of K mode = (case mode of
     Some RootlessTrue \<Rightarrow> ret True
   | Some RootlessAuto \<Rightarrow> ask K (Cred GetEuid) (\<lambda>r. r_num r \<noteq> 0)
   | _ \<Rightarrow> ret False)"

definition checked :: "string \<Rightarrow> 'a prog \<Rightarrow> 'a prog" where
  "checked cid m = seq_p (lift_res (validate_id cid)) m"

definition exit_zero :: "unit prog \<Rightarrow> nat prog" where
  "exit_zero m = seq_p m (ret 0)"

definition dispatch :: "outside \<Rightarrow> frontend \<Rightarrow> cli \<Rightarrow> nat prog" where
  "dispatch K J c =
     (let l = \<lparr>root = cl_root c\<rparr> in
      bind_p (rootless_of K (cl_rootless c)) (\<lambda>rootless. case cl_command c of
        CmdSpec args \<Rightarrow> exit_zero (spec_command K J args rootless)
      | CmdFeatures \<Rightarrow> exit_zero (features_command K J)
      | CmdList args \<Rightarrow> exit_zero (list_command K J l args)
      | CmdCreate args \<Rightarrow> checked (ar_id args) (exit_zero (create_command K J l args rootless (cl_otlp_endpoint c)))
      | CmdStart cid \<Rightarrow> checked cid (exit_zero (start K l cid))
      | CmdRun args \<Rightarrow> checked (ar_id args) (run_command K J l args rootless (cl_otlp_endpoint c))
      | CmdExec args \<Rightarrow> checked (ax_id args) (exec_command K l args)
      | CmdKill args \<Rightarrow> checked (ak_id args) (exit_zero (kill_command K l args))
      | CmdDelete args \<Rightarrow> checked (ad_id args) (exit_zero (delete K l (ad_id args) (ad_force args)))
      | CmdState cid \<Rightarrow> checked cid (exit_zero (state_command K J l cid))
      | CmdPs args \<Rightarrow> checked (ap_id args) (exit_zero (ps_command K J l args))
      | CmdPause cid \<Rightarrow> checked cid (exit_zero (pause K l cid True))
      | CmdResume cid \<Rightarrow> checked cid (exit_zero (pause K l cid False))
      | CmdEvents args \<Rightarrow> checked (ae_id args) (exit_zero (events_command K J l args))
      | CmdUpdate args \<Rightarrow> checked (au_id args) (exit_zero (update_command K l args))))"

section \<open>Bad ids\<close>

text \<open>The container a command names.\<close>

fun command_id :: "cli_command \<Rightarrow> string option" where
  "command_id (CmdCreate args) = Some (ar_id args)"
| "command_id (CmdStart cid) = Some cid"
| "command_id (CmdRun args) = Some (ar_id args)"
| "command_id (CmdExec args) = Some (ax_id args)"
| "command_id (CmdKill args) = Some (ak_id args)"
| "command_id (CmdDelete args) = Some (ad_id args)"
| "command_id (CmdState cid) = Some cid"
| "command_id (CmdPs args) = Some (ap_id args)"
| "command_id (CmdPause cid) = Some cid"
| "command_id (CmdResume cid) = Some cid"
| "command_id (CmdEvents args) = Some (ae_id args)"
| "command_id (CmdUpdate args) = Some (au_id args)"
| "command_id _ = None"

lemma checked_rejects: "validate_id cid \<noteq> Inr () \<Longrightarrow> checked cid m = fail (InvalidId cid)"
  by (auto simp: checked_def validate_id_def seq_p_def bind_p_def lift_res_def fail_def split: if_splits)

lemma rootless_calls: "emits (\<lambda>op. op = Cred GetEuid) (rootless_of K mode)"
  unfolding rootless_of_def by (auto intro!: emits_intros split: option.split rootless_mode.split)

text \<open>
  C39: a command that names a container by a malformed id fails with that error and has done nothing:
  at most it has asked for the effective user. No file, process or control group is touched on
  behalf of an id that could lead out of the runtime's root.
\<close>

theorem bad_id_touches_nothing:
  assumes "command_id (cl_command c) = Some cid" "validate_id cid \<noteq> Inr ()"
  shows "wp (dispatch K J c) (\<lambda>_ _. False)
    (\<lambda>e h'. e = InvalidId cid \<and> (\<exists>calls. h' = calls @ h \<and> set calls \<subseteq> {Cred GetEuid})) h"
proof -
  have d: "dispatch K J c = bind_p (rootless_of K (cl_rootless c)) (\<lambda>_. fail (InvalidId cid))"
    using assms by (cases "cl_command c") (simp_all add: dispatch_def Let_def checked_rejects)
  have "wp (rootless_of K (cl_rootless c)) (\<lambda>_ h'. \<exists>calls. h' = calls @ h \<and> set calls \<subseteq> {Cred GetEuid}) (\<lambda>_ _. False) h"
    by (auto simp: rootless_of_def wp_simps split: option.split rootless_mode.split intro: exI [of _ "[]"] exI [of _ "[Cred GetEuid]"])
  then show ?thesis
    unfolding d wp_bind by (rule wp_mono) (simp_all add: wp_simps)
qed

definition plain_frontend :: frontend where
  "plain_frontend = \<lparr>fr_state_json = (\<lambda>_. Some []), fr_states_json = (\<lambda>_. Some []), fr_event_json = (\<lambda>_. Some []),
     fr_pids_json = (\<lambda>_. Some []), fr_spec_json = (\<lambda>_ _. Some []), fr_value_json = (\<lambda>_. Some []),
     fr_otlp_env = None, fr_log_env = None, fr_clock_left = (\<lambda>_. \<lparr>rc_origin = 0, rc_wall_origin = 0, rc_phases = [], rc_open = None\<rparr>)\<rparr>"

lemma bad_id_touches_nothing_witness:
  "wp (dispatch (granting (\<lambda>_ r. r)) plain_frontend \<lparr>cl_root = ''/run/mars'', cl_log = None, cl_log_format = LogText,
      cl_debug = False, cl_systemd_cgroup = False, cl_rootless = Some RootlessAuto,
      cl_otlp_endpoint = None, cl_command = CmdStart ''../../etc''\<rparr>) (\<lambda>_ _. False)
    (\<lambda>e h'. e = InvalidId ''../../etc'' \<and> (\<exists>calls. h' = calls @ [] \<and> set calls \<subseteq> {Cred GetEuid})) []"
proof (rule bad_id_touches_nothing)
  show "validate_id ''../../etc'' \<noteq> Inr ()" by code_simp
qed simp

section \<open>Limits given as flags\<close>

definition memory_files :: "update_args \<Rightarrow> (bool \<times> string) list" where
  "memory_files a = [(au_memory a \<noteq> None, ''memory.max''), (au_memory_swap a \<noteq> None, ''memory.swap.max'')]"

definition cpu_files :: "update_args \<Rightarrow> (bool \<times> string) list" where
  "cpu_files a =
     [(au_cpu_quota a \<noteq> None, ''cpu.max''), (au_cpu_share a \<notin> {None, Some 0}, ''cpu.weight''),
      (au_cpuset_cpus a \<notin> {None, Some []}, ''cpuset.cpus''), (au_cpuset_mems a \<notin> {None, Some []}, ''cpuset.mems'')]"

definition flag_files :: "update_args \<Rightarrow> string list" where
  "flag_files a = map snd (filter fst (memory_files a @ cpu_files a @ [(au_pids_limit a \<noteq> None, ''pids.max'')]))"

lemma memory_flag_files:
  "map fst (case flags_memory a of Some m \<Rightarrow> memory_writes m | None \<Rightarrow> []) = map snd (filter fst (memory_files a))"
  by (cases "au_memory a"; cases "au_memory_swap a") (simp_all add: flags_memory_def memory_writes_def memory_files_def)

lemma cpu_flag_files:
  "map fst (case flags_cpu a of Some m \<Rightarrow> cpu_writes m | None \<Rightarrow> []) = map snd (filter fst (cpu_files a))"
proof (cases "flags_cpu a")
  case None
  then show ?thesis by (simp add: flags_cpu_def cpu_files_def split: if_splits)
next
  case (Some c)
  then have "c = \<lparr>cp_shares = au_cpu_share a, cp_quota = au_cpu_quota a, cp_period = au_cpu_period a,
      cp_cpus = au_cpuset_cpus a, cp_mems = au_cpuset_mems a\<rparr>"
    by (simp add: flags_cpu_def split: if_splits)
  then show ?thesis
    unfolding Some
    by (cases "au_cpu_quota a"; cases "au_cpu_share a"; cases "au_cpuset_cpus a"; cases "au_cpuset_mems a")
      (simp_all add: cpu_writes_def cpu_files_def Let_def)
qed


text \<open>A period alone is accepted and changes nothing.\<close>

definition only_period :: update_args where
  "only_period = \<lparr>au_resources = None, au_memory = None, au_memory_swap = None, au_cpu_quota = None,
     au_cpu_period = Some 50000, au_cpu_share = None, au_cpuset_cpus = None, au_cpuset_mems = None,
     au_pids_limit = None, au_id = ''c''\<rparr>"

lemma period_alone_is_ignored: "\<exists>rs. from_flags only_period = Inr rs \<and> apply_writes rs = []"
proof -
  have "(case from_flags only_period of Inr rs \<Rightarrow> apply_writes rs = [] | Inl _ \<Rightarrow> False)" by code_simp
  then show ?thesis by (auto split: sum.splits)
qed

section \<open>Intervals\<close>

definition UNITS :: "(string \<times> nat) list" where
  "UNITS = [(''ms'', 1), (''s'', 1000), (''m'', 60000), ([], 1000)]"

lemma last_digit: "dec_text n = r @ [c] \<Longrightarrow> \<exists>d < 10. c = digit_char d"
  using dec_text_chars [of c n] by simp

lemma interval_unit_text:
  assumes "(u, m) \<in> set UNITS"
  shows "interval_unit (dec_text n @ u) = (dec_text n, of_nat m)"
proof -
  have no: "strip_suffix [c] (dec_text n) = None" "strip_suffix (b # [c]) (dec_text n) = None" if "c \<in> {CHR ''s'', CHR ''m''}" for b c
    using that dec_text_no [of c n] by (auto simp: strip_suffix_Some_iff simp flip: not_Some_eq)
  have no2: "strip_suffix ''ms'' (dec_text n @ ''s'') = None" "strip_suffix ''ms'' (dec_text n @ ''m'') = None"
    "strip_suffix ''s'' (dec_text n @ ''m'') = None"
    using dec_text_no [of "CHR ''m''" n] by (auto simp: strip_suffix_Some_iff append_eq_append_conv2 simp flip: not_Some_eq)
  have yes: "strip_suffix v (dec_text n @ v) = Some (dec_text n)" for v by (simp add: strip_suffix_Some_iff)
  show ?thesis
    using assms no [of "CHR ''s''"] no [of "CHR ''m''"] no2 yes by (auto simp: UNITS_def interval_unit_def)
qed



text \<open>Beyond 64 bits the product wraps around, and an accepted interval can be zero.\<close>

lemma interval_wraps_to_zero: "parse_interval ''2305843009213693952s'' = Inr 0"
  by code_simp

section \<open>Traces are best effort\<close>

fun report_call :: "sysop \<Rightarrow> bool" where
  "report_call (Time _) = True"
| "report_call (Net _) = True"
| "report_call _ = False"

lemma clock_reports: "emits report_call (rec_end K clock)" "emits report_call (rec_take K clock)"
  unfolding rec_take_def rec_end_def elapsed_us_def by (intro emits_intros; simp)+

lemma spans_report: "emits report_call (phase_spans K t r o' cid ps)"
  by (induction ps) (auto simp: random_hex_def intro!: emits_intros)

lemma post_reports: "emits report_call (post K e body)"
  unfolding post_def Let_def by (intro emits_intros; simp)

lemma export_reports: "emits report_call (export_trace K e name cid clock)"
  unfolding export_trace_def random_hex_def resource_attributes_def
  by (intro emits_intros clock_reports spans_report post_reports) simp_all

text \<open>
  Tracing cannot disturb a container: whatever the collector does, sending a trace never makes the
  command fail, and it makes no calls but to the clock, the network and the random source.
\<close>

theorem trace_is_harmless:
  "wp (trace K J otlp name cid clock) (\<lambda>_ _. True) (\<lambda>_ _. False) h
   \<and> emits report_call (trace K J otlp name cid clock)"
proof
  show "wp (trace K J otlp name cid clock) (\<lambda>_ _. True) (\<lambda>_ _. False) h"
    by (simp add: trace_def wp_simps rec_end_def elapsed_us_def split: option.split prod.split)
  show "emits report_call (trace K J otlp name cid clock)"
    unfolding trace_def by (intro emits_intros clock_reports export_reports)
qed

section \<open>A new bundle never overwrites one\<close>

fun writes_file :: "sysop \<Rightarrow> bool" where
  "writes_file (Fs (MkDirAll _)) = False"
| "writes_file (Fs _) = True"
| "writes_file (Fd (FdWrite _ _)) = True"
| "writes_file _ = False"

text \<open>
  \<^verbatim>\<open>mars spec\<close> creates and writes a file only after it saw that the bundle has no
  \<^verbatim>\<open>config.json\<close>, and on success that file has been created and written in one piece.
\<close>

theorem spec_never_overwrites:
  "guarded writes_file (\<lambda>h. asked K h (Query (Exists (path_join (as_bundle args) ''config.json''))) (\<lambda>r. \<not> r_flag r))
     (spec_command K J args rootless)
   \<and> ensures (spec_command K J args rootless) (\<lambda>h. \<exists>json fd.
       fr_spec_json J OCI_VERSION ''mars'' = Some json
       \<and> asked K h (Fs (CreateFile (path_join (as_bundle args) ''config.json''))) (\<lambda>r. r_err r = None \<and> r_num r = fd)
       \<and> done_op K h (Fd (FdWrite fd (json @ [CHR 0x0A]))))"
proof
  let ?path = "path_join (as_bundle args) ''config.json''"
  let ?free = "\<lambda>h. asked K h (Query (Exists ?path)) (\<lambda>r. \<not> r_flag r)"
  have rest: "grows (bind_p (lift_res (ok_or (fr_spec_json J OCI_VERSION ''mars'') JsonErr)) (\<lambda>json.
            bind_p (io K (IoErr ''create'') (Fs (CreateFile ?path)) r_num) (\<lambda>fd.
            do_op K (IoErr ''write'') (Fd (FdWrite fd (json @ [CHR 0x0A]))))))"
    unfolding grows_def by (intro emits_intros) simp_all
  show "guarded writes_file ?free (spec_command K J args rootless)"
    unfolding spec_command_def Let_def
  proof (cases rootless, simp_all, goal_cases)
    case 1
    show ?case by (intro guarded_guards guards_fail)
  next
    case 2
    show ?case
    proof (rule guarded_guards, rule guards_skip_seq)
      show "guards writes_file (\<lambda>_. True) ?free (bind_p (ask K (Query (Exists ?path)) r_flag) (\<lambda>exists.
          if exists then fail (IoErr ''already exists'' (EOTHER 0))
          else bind_p (lift_res (ok_or (fr_spec_json J OCI_VERSION ''mars'') JsonErr)) (\<lambda>json.
            bind_p (io K (IoErr ''create'') (Fs (CreateFile ?path)) r_num) (\<lambda>fd.
            do_op K (IoErr ''write'') (Fd (FdWrite fd (json @ [CHR 0x0A])))))))"
        by (rule guards_bind [where E = "\<lambda>exists h. exists \<or> ?free h"])
          (auto simp: wp_simps guards_fail intro!: guards_no_call [OF emits_ask] guards_known [OF rest])
    qed (auto intro: emits_intros)
  qed
  show "ensures (spec_command K J args rootless) (\<lambda>h. \<exists>json fd.
       fr_spec_json J OCI_VERSION ''mars'' = Some json
       \<and> asked K h (Fs (CreateFile ?path)) (\<lambda>r. r_err r = None \<and> r_num r = fd)
       \<and> done_op K h (Fd (FdWrite fd (json @ [CHR 0x0A]))))"
    by (rule ensuresI)
      (auto simp: spec_command_def Let_def wp_simps ok_or_def split: option.split)
qed

section \<open>The event stream\<close>

lemma wp_after_any: "(\<And>x h. wp (f x) Q (\<lambda>_ _. True) h) \<Longrightarrow> wp (bind_p m f) Q (\<lambda>_ _. True) h"
  unfolding wp_bind by (rule wp_mono [OF wp_true]) simp_all

lemma wp_json_line:
  "wp (json_line K json) (\<lambda>_ h'. \<exists>text. json = Some text \<and> h' = Tty (PrintOut (text @ [CHR 0x0A])) # h) (\<lambda>_ _. True) h"
  by (auto simp: json_line_def println_def wp_simps ok_or_def split: option.split)

text \<open>
  The event stream ends well only after the container was seen stopped, and its last line is then
  the exit event of that container.
\<close>

theorem events_end_with_exit:
  "wp (events_loop K J c interval n) (\<lambda>_ h'. \<exists>text h0. fr_event_json J (exit_event c) = Some text
      \<and> h' = Tty (PrintOut (text @ [CHR 0x0A])) # h0 \<and> earlier (container_status K c) Stopped h0) (\<lambda>_ _. True) h"
proof (induction n arbitrary: h)
  case (Suc n)
  let ?Q = "\<lambda>_ h'. \<exists>text h0. fr_event_json J (exit_event c) = Some text
      \<and> h' = Tty (PrintOut (text @ [CHR 0x0A])) # h0 \<and> earlier (container_status K c) Stopped h0"
  let ?next = "bind_p (sample K c) (\<lambda>stats. seq_p (json_line K (fr_event_json J stats))
       (seq_p (ask K (Time (SleepMs (unat interval))) (\<lambda>_. ())) (events_loop K J c interval n)))"
  have again: "wp ?next ?Q (\<lambda>_ _. True) h1" for h1
    unfolding seq_p_def by (intro wp_after_any Suc.IH)
  have stop: "wp (json_line K (fr_event_json J (exit_event c))) ?Q (\<lambda>_ _. True) h1"
    if "earlier (container_status K c) Stopped h1" for h1
    by (rule wp_mono [OF wp_json_line]) (use that in auto)
  show ?case
    unfolding events_loop.simps wp_bind [of "container_status K c"]
  proof (rule wp_mono [OF wp_earlier])
    show "wp (if s = Stopped then json_line K (fr_event_json J (exit_event c)) else ?next) ?Q (\<lambda>_ _. True) h1"
      if "earlier (container_status K c) s h1" for s h1
    proof (cases "s = Stopped")
      case True
      from that [unfolded True] show ?thesis unfolding if_P [OF True] by (rule stop)
    qed (simp only: if_False again)
  qed simp
qed (simp add: wp_simps)

text \<open>How many samples the stream has slept after.\<close>

fun samplings :: "history \<Rightarrow> nat" where
  "samplings [] = 0"
| "samplings (Time (SleepMs _) # h) = Suc (samplings h)"
| "samplings (op # h) = samplings h"

lemma samplings_append [simp]: "samplings (l @ h) = samplings l + samplings h"
  by (induction l rule: samplings.induct) simp_all

lemma query_no_sampling: "list_all is_query l \<Longrightarrow> samplings l = 0"
  by (induction l rule: samplings.induct) simp_all

lemma sample_queries: "emits is_query (sample K c)"
  unfolding sample_def memory_events_def cpu_stat_def single_value_def cg_read_def Let_def
  by (intro emits_intros) auto

lemma sample_succeeds: "wp (sample K c) (\<lambda>_ h'. samplings h' = samplings h) (\<lambda>_ _. False) h"
proof -
  have "wp (sample K c) (\<lambda>_ _. True) (\<lambda>_ _. False) h"
    by (simp add: sample_def single_value_def memory_events_def cpu_stat_def cg_read_def Let_def wp_simps split: option.split)
  moreover have "wp (sample K c) (\<lambda>_ h'. samplings h' = samplings h) (\<lambda>_ h'. samplings h' = samplings h) h"
    by (rule wp_grow [OF sample_queries]) (simp add: query_no_sampling)
  ultimately show ?thesis by (auto simp: wp_def split: prod.splits sum.splits)
qed

lemma wp_status:
  "wp (container_status K c) (\<lambda>s h'. (s = Stopped \<or> observed_start K c h = Some (pe_start_time (co_state c)))
     \<and> samplings h' = samplings h) (\<lambda>_ _. False) h"
  by (auto simp: wp_container_status Let_def)

text \<open>
  The stream ends when the container does: if its recorded process is gone once \<open>k\<close> samples were
  taken, then with fuel for those and one round more the stream ends, with the exit event or because a
  line could not be made or printed.
\<close>

theorem events_end_with_container:
  assumes gone: "\<And>h. k \<le> samplings h \<Longrightarrow> observed_start K c h \<noteq> Some (pe_start_time (co_state c))"
  shows "k - samplings h < n \<Longrightarrow>
    wp (events_loop K J c interval n) (\<lambda>_ _. True) (\<lambda>e _. e = JsonErr \<or> e = Panicked) h"
proof (induction n arbitrary: h)
  case (Suc n)
  have line: "wp (json_line K json) (\<lambda>_ h'. samplings h' = samplings h) (\<lambda>e _. e = JsonErr \<or> e = Panicked) h" for json h
    by (auto simp: json_line_def println_def wp_simps ok_or_def split: option.split)
  have again: "wp (bind_p (sample K c) (\<lambda>stats. seq_p (json_line K (fr_event_json J stats))
       (seq_p (ask K (Time (SleepMs (unat interval))) (\<lambda>_. ())) (events_loop K J c interval n))))
       (\<lambda>_ _. True) (\<lambda>e _. e = JsonErr \<or> e = Panicked) h1"
    if "samplings h1 = samplings h" "samplings h < k" for h1
    unfolding wp_bind wp_seq wp_ask
    by (rule wp_mono [OF sample_succeeds], rule wp_mono [OF line], rule Suc.IH) (use that Suc.prems in auto)
  have early: "samplings h < k" if "observed_start K c h = Some (pe_start_time (co_state c))"
    using gone [of h] that by fastforce
  show ?case
    unfolding events_loop.simps wp_bind [of "container_status K c"]
    by (rule wp_mono [OF wp_status]) (auto simp: wp_if intro: again early wp_mono [OF line])
qed simp

section \<open>The advertised features\<close>

fun member :: "string \<Rightarrow> json \<Rightarrow> json option" where
  "member key (JObj entries) = map_of entries key"
| "member key _ = None"

fun strings_of :: "json \<Rightarrow> string list" where
  "strings_of (JArr []) = []"
| "strings_of (JArr (JStr s # rest)) = s # strings_of (JArr rest)"
| "strings_of _ = []"

lemma strings_of_texts [simp]: "strings_of (texts names) = names"
  by (induction names) (simp_all add: texts_def)

definition advertised :: "string \<Rightarrow> string list" where
  "advertised key = strings_of (get_or JNull (member key feature_document))"

lemma advertised_sections:
  "advertised ''hooks'' = map hook_phase_name [Prestart, CreateRuntime, CreateContainer, StartContainer, Poststart, Poststop]"
  "set (advertised ''mountOptions'') = set (map fst OPTION_ARMS)"
  by (simp_all add: advertised_def feature_document_def OPTION_ARMS_def) auto

text \<open>
  The features the runtime advertises are the ones it implements: every mount option of the parser's
  table and no other is listed, the hooks are the phases in the order in which they run, and the
  annotations are the ones from which the overlay is read.
\<close>

theorem features_are_implemented:
  "(\<forall>opt. opt \<in> set (advertised ''mountOptions'') \<longleftrightarrow> option_arm opt \<noteq> None)
   \<and> advertised ''hooks'' = map hook_phase_name [Prestart, CreateRuntime, CreateContainer, StartContainer, Poststart, Poststop]"
  by (auto simp: advertised_sections option_arm_def map_of_eq_None_iff)

end
