(* ===== verification/Timestamps.thy ===== *)
theory Timestamps
  imports State
begin

text \<open>
  The timestamps of \<^verbatim>\<open>src/src/state.rs\<close> against the calendar: the conversion of a number
  of seconds to a date is checked against the day count of the proleptic Gregorian calendar.
\<close>

section \<open>The calendar\<close>

definition leap :: "int \<Rightarrow> bool" where
  "leap y \<longleftrightarrow> 4 dvd y \<and> (\<not> 100 dvd y \<or> 400 dvd y)"

definition month_days :: "bool \<Rightarrow> int list" where
  "month_days b = [31, if b then 29 else 28, 31, 30, 31, 30, 31, 31, 30, 31, 30, 31]"

definition days_in_month :: "int \<Rightarrow> int \<Rightarrow> int" where
  "days_in_month y m = month_days (leap y) ! nat (m - 1)"

text \<open>The number of days in the years 1 to \<open>y\<close>.\<close>

definition days_through :: "int \<Rightarrow> int" where
  "days_through y = 365 * y + y div 4 - y div 100 + y div 400"

definition day_number :: "int \<times> int \<times> int \<Rightarrow> int" where
  "day_number = (\<lambda>(y, m, d). days_through (y - 1) + sum_list (take (nat (m - 1)) (month_days (leap y))) + d)"

definition valid_date :: "int \<times> int \<times> int \<Rightarrow> bool" where
  "valid_date = (\<lambda>(y, m, d). 1 \<le> m \<and> m \<le> 12 \<and> 1 \<le> d \<and> d \<le> days_in_month y m)"

lemma div_eq: "0 \<le> r \<Longrightarrow> r < k \<Longrightarrow> (k * q + r) div k = q" for k q r :: int
  by simp

lemma leap_arith:
  fixes y q4 q100 q400 p4 p100 p400 :: int
  shows "(C \<Longrightarrow> B) \<Longrightarrow> (B \<Longrightarrow> A) \<Longrightarrow> q4 = p4 + (if A then 1 else 0) \<Longrightarrow> q100 = p100 + (if B then 1 else 0)
    \<Longrightarrow> q400 = p400 + (if C then 1 else 0) \<Longrightarrow>
    365 * y + q4 - q100 + q400 = 365 * (y - 1) + p4 - p100 + p400 + 365 + (if A \<and> (\<not> B \<or> C) then 1 else 0)"
  by (cases A; cases B; cases C) simp_all

lemma days_through_step: "days_through y = days_through (y - 1) + 365 + (if leap y then 1 else 0)"
proof -
  have step: "y div k = (y - 1) div k + (if k dvd y then 1 else 0)" if "0 < k" for k :: int
  proof -
    have "y = k * (y div k) + y mod k" "0 \<le> y mod k" "y mod k < k" using that by simp_all
    then show ?thesis
    proof (cases "k dvd y")
      case True
      then obtain q where "y = k * q" ..
      then have "y - 1 = k * (q - 1) + (k - 1)" by (simp add: algebra_simps)
      then have "(y - 1) div k = q - 1" using that by (simp only: div_eq)
      with \<open>y = k * q\<close> that show ?thesis by simp
    next
      case False
      then have "0 < y mod k" using that by (simp add: dvd_eq_mod_eq_0 order_less_le)
      have "(y - 1) div k = y div k"
        by (rule int_div_pos_eq [of "y - 1" k "y div k" "y mod k - 1"])
          (use \<open>0 < y mod k\<close> \<open>y = k * (y div k) + y mod k\<close> \<open>y mod k < k\<close> in linarith)+
      with False show ?thesis by simp
    qed
  qed
  have "(400::int) dvd y \<Longrightarrow> 100 dvd y" "(100::int) dvd y \<Longrightarrow> 4 dvd y"
    by (rule dvd_trans [of _ 400], simp, assumption) (rule dvd_trans [of _ 100], simp, assumption)
  moreover have "y div 4 = (y - 1) div 4 + (if 4 dvd y then 1 else 0)" "y div 100 = (y - 1) div 100 + (if 100 dvd y then 1 else 0)"
    "y div 400 = (y - 1) div 400 + (if 400 dvd y then 1 else 0)"
    by (rule step, simp)+
  ultimately show ?thesis
    unfolding days_through_def leap_def by (rule leap_arith)
qed

section \<open>Years of an era\<close>

text \<open>A day of an era of 400 years by its century, four-year cycle and day of the cycle; years begin in March.\<close>

definition year_of_era :: "int \<Rightarrow> int" where
  "year_of_era doe = (doe - doe div 1460 + doe div 36524 - doe div 146096) div 365"

definition year_start :: "int \<Rightarrow> int" where
  "year_start yoe = 365 * yoe + yoe div 4 - yoe div 100"

lemma year_of_era_parts:
  assumes "0 \<le> c" "c \<le> 3" "0 \<le> k" "k \<le> 24" "0 \<le> s" "s < (if k = 24 then 1460 else 1461)"
  defines "doe \<equiv> 36524 * c + (1461 * k + s)"
  shows "year_of_era doe = 100 * c + 4 * k + min 3 (s div 365)"
proof -
  have c: "doe div 36524 = c" unfolding doe_def by (rule div_eq) (use assms in \<open>auto split: if_splits\<close>)
  have "doe < 146096" using assms by (auto simp: doe_def split: if_splits)
  then have e: "doe div 146096 = 0" using assms by (simp add: doe_def)
  define x where "x = 24 * c + k + s"
  have doe: "doe = 1460 * (25 * c + k) + x" by (simp add: doe_def x_def)
  have x: "0 \<le> x" "x < 2920" using assms by (auto simp: x_def split: if_splits)
  show ?thesis
  proof (cases "x < 1460")
    case True
    then have "doe div 1460 = 25 * c + k" unfolding doe using x by (intro div_eq)
    then have "year_of_era doe = (365 * (100 * c + 4 * k) + s) div 365"
      by (simp add: year_of_era_def c e) (simp add: doe_def algebra_simps)
    moreover have "s div 365 \<le> 3" using True assms by (simp add: x_def)
    ultimately show ?thesis by simp
  next
    case False
    have "doe = 1460 * (25 * c + k + 1) + (x - 1460)" by (simp add: doe)
    then have "doe div 1460 = 25 * c + k + 1" using x False by (simp only: div_eq)
    then have "year_of_era doe = (365 * (100 * c + 4 * k + 3) + (s - 1096)) div 365"
      by (simp add: year_of_era_def c e) (simp add: doe_def algebra_simps)
    also have "\<dots> = 100 * c + 4 * k + 3" using False assms by (intro div_eq) (auto simp: x_def split: if_splits)
    finally show ?thesis using False assms by (simp add: x_def min_def split: if_splits)
  qed
qed

lemma year_start_parts:
  assumes "0 \<le> c" "0 \<le> k" "k \<le> 24" "0 \<le> j" "j \<le> 3"
  shows "year_start (100 * c + 4 * k + j) = 36524 * c + 1461 * k + 365 * j"
proof -
  have "(100 * c + 4 * k + j) div 4 = 25 * c + k"
    using assms div_eq [of j 4 "25 * c + k"] by (simp add: algebra_simps)
  moreover have "(100 * c + (4 * k + j)) div 100 = c" using assms by (intro div_eq) auto
  then have "(100 * c + 4 * k + j) div 100 = c" by (simp add: algebra_simps)
  ultimately show ?thesis by (simp add: year_start_def algebra_simps)
qed

lemma era_year:
  assumes "0 \<le> doe" "doe < 146097"
  shows "0 \<le> year_of_era doe \<and> year_of_era doe \<le> 399
    \<and> 0 \<le> doe - year_start (year_of_era doe) \<and> doe - year_start (year_of_era doe) \<le> 365
    \<and> (doe - year_start (year_of_era doe) = 365 \<longrightarrow> leap (year_of_era doe + 1))"
proof (cases "doe = 146096")
  case True
  have "year_of_era 146096 = 399" "year_start 399 = 145731" "leap 400" by code_simp+
  with True show ?thesis by simp
next
  case False
  define c r k s j where "c = doe div 36524" "r = doe mod 36524" "k = r div 1461" "s = r mod 1461" "j = min 3 (s div 365)"
  have doe: "doe = 36524 * c + (1461 * k + s)" by (simp add: c_r_k_s_j_def)
  have c: "0 \<le> c" "c \<le> 3" using assms False by (auto simp: c_r_k_s_j_def)
  have r: "0 \<le> r" "r < 36524" "r = 1461 * k + s" by (simp_all add: c_r_k_s_j_def)
  have s: "0 \<le> s" "s < 1461" by (simp_all add: c_r_k_s_j_def)
  have k: "0 \<le> k" "k \<le> 24" using r s by (simp add: c_r_k_s_j_def, linarith)
  have s': "s < (if k = 24 then 1460 else 1461)" using r s by auto
  have j: "0 \<le> j" "j \<le> 3" using s by (simp_all add: c_r_k_s_j_def)
  have j': "365 * j \<le> s" "s - 365 * j \<le> 365" "s - 365 * j = 365 \<Longrightarrow> s = 1460 \<and> j = 3"
    using s unfolding \<open>j = min 3 (s div 365)\<close> min_def by (auto split: if_splits; linarith)+
  have yoe: "year_of_era doe = 100 * c + 4 * k + j"
    unfolding doe c_r_k_s_j_def(5) by (rule year_of_era_parts [OF c k s(1) s'])
  have doy: "doe - year_start (year_of_era doe) = s - 365 * j"
    unfolding yoe by (subst year_start_parts [OF c(1) k j]) (simp add: doe)
  have "leap (100 * c + 4 * k + j + 1)" if "s - 365 * j = 365"
  proof -
    have "s = 1460" "j = 3" using j'(3) [OF that] by auto
    moreover from this s' have "k \<noteq> 24" by auto
    then have "(100 * c + 4 * (k + 1)) mod 100 = 4 * (k + 1)" using k by simp
    then have "\<not> 100 dvd (100 * c + 4 * (k + 1))" using k by (auto simp: dvd_eq_mod_eq_0)
    moreover have "4 dvd (4 * (25 * c + k + 1))" by simp
    ultimately show ?thesis by (simp add: leap_def algebra_simps)
  qed
  then show ?thesis unfolding doy using yoe c k j j' by auto
qed

section \<open>Days of a year\<close>

definition month_of :: "int \<Rightarrow> int \<times> int" where
  "month_of doy = (let mp = (5 * doy + 2) div 153 in
     (if mp < 10 then mp + 3 else mp - 9, doy - (153 * mp + 2) div 5 + 1))"

lemma month_of_day:
  assumes "0 \<le> doy" "doy \<le> 365" "month_of doy = (m, d)"
  shows "1 \<le> m \<and> m \<le> 12 \<and> 1 \<le> d \<and> ((doy = 365 \<longrightarrow> b) \<longrightarrow> d \<le> month_days b ! nat (m - 1))"
    and "sum_list (take (nat (m - 1)) (month_days b)) + d = (if m \<le> 2 then doy - 305 else doy + 60 + (if b then 1 else 0))"
proof -
  define mp where "mp = (5 * doy + 2) div 153"
  have mp: "153 * mp \<le> 5 * doy + 2" "5 * doy + 2 < 153 * mp + 153" unfolding mp_def by simp_all
  then have "0 \<le> mp" "mp \<le> 11" using assms by linarith+
  then have "mp \<in> {0, 1, 2, 3, 4, 5, 6, 7, 8, 9, 10, 11}" unfolding insert_iff empty_iff by presburger
  then have "(1 \<le> m \<and> m \<le> 12 \<and> 1 \<le> d \<and> ((doy = 365 \<longrightarrow> b) \<longrightarrow> d \<le> month_days b ! nat (m - 1)))
    \<and> sum_list (take (nat (m - 1)) (month_days b)) + d = (if m \<le> 2 then doy - 305 else doy + 60 + (if b then 1 else 0))"
    by (elim insertE emptyE)
      (use assms mp in \<open>simp_all add: month_of_def Let_def mp_def [symmetric] month_days_def eval_nat_numeral, linarith?\<close>)
  then show "1 \<le> m \<and> m \<le> 12 \<and> 1 \<le> d \<and> ((doy = 365 \<longrightarrow> b) \<longrightarrow> d \<le> month_days b ! nat (m - 1))"
    "sum_list (take (nat (m - 1)) (month_days b)) + d = (if m \<le> 2 then doy - 305 else doy + 60 + (if b then 1 else 0))"
    by blast+
qed

section \<open>Dates\<close>

lemma leap_period: "leap (y + 400 * e) = leap y"
proof -
  have "k dvd (400::int) \<Longrightarrow> k dvd y + 400 * e \<longleftrightarrow> k dvd y" for k
    by (simp add: dvd_add_left_iff)
  then show ?thesis by (simp add: leap_def)
qed

lemma days_through_era:
  assumes "0 \<le> yoe" "yoe \<le> 399"
  shows "days_through (yoe + 400 * era) = year_start yoe + 146097 * era"
proof -
  have shift: "(yoe + e * k) div k = e + yoe div k" if "0 < k" for e k :: int
    using that by (intro div_mult_self1) simp
  have eq: "yoe + 400 * era = yoe + (100 * era) * 4" "yoe + 400 * era = yoe + (4 * era) * 100" "yoe + 400 * era = yoe + era * 400"
    by simp_all
  have "(yoe + 400 * era) div 4 = 100 * era + yoe div 4" unfolding eq(1) by (rule shift) simp
  moreover have "(yoe + 400 * era) div 100 = 4 * era + yoe div 100" unfolding eq(2) by (rule shift) simp
  moreover have "(yoe + 400 * era) div 400 = era + yoe div 400" unfolding eq(3) by (rule shift) simp
  moreover have "yoe div 400 = 0" using assms by simp
  ultimately show ?thesis unfolding days_through_def year_start_def by (simp only:) (simp add: algebra_simps)
qed

lemma civil_from_days_correct:
  "valid_date (civil_from_days n) \<and> day_number (civil_from_days n) = n + 719163"
proof -
  define z where "z = n + 719468"
  define era doe where "era = z div 146097" and "doe = z mod 146097"
  define yoe where "yoe = (doe - doe div 1460 + doe div 36524 - doe div 146096) div 365"
  define doy where "doy = doe - (365 * yoe + yoe div 4 - yoe div 100)"
  define mp where "mp = (5 * doy + 2) div 153"
  define m where "m = (if mp < 10 then mp + 3 else mp - 9)"
  define d where "d = doy - (153 * mp + 2) div 5 + 1"
  define y where "y = (if m \<le> 2 then yoe + era * 400 + 1 else yoe + era * 400)"
  have date: "civil_from_days n = (y, m, d)"
    unfolding civil_from_days_def Let_def z_def [symmetric] era_def [symmetric] doe_def [symmetric] yoe_def [symmetric]
      doy_def [symmetric] mp_def [symmetric] d_def [symmetric] m_def [symmetric] y_def [symmetric] ..
  have yoe: "yoe = year_of_era doe" and doy: "doy = doe - year_start yoe"
    by (simp_all only: yoe_def doy_def year_of_era_def year_start_def)
  have md: "month_of doy = (m, d)" by (simp only: month_of_def Let_def mp_def m_def d_def)
  have z: "z = doe + 146097 * era" by (simp add: era_def doe_def)
  have ey: "0 \<le> yoe" "yoe \<le> 399" "0 \<le> doy" "doy \<le> 365" "doy = 365 \<Longrightarrow> leap (yoe + 1)"
    using era_year [of doe] by (simp_all add: yoe doy doe_def)
  have last: "leap y" if "doy = 365"
  proof -
    have "m = 2" using md that by (simp add: month_of_def Let_def)
    then show ?thesis using ey(5) [OF that] leap_period [of "yoe + 1" era] by (simp add: y_def algebra_simps)
  qed
  note month = month_of_day [OF ey(3,4) md, of "leap y"]
  have "days_through (y - 1) + sum_list (take (nat (m - 1)) (month_days (leap y))) + d = z - 305"
    using days_through_era [OF ey(1,2), of era] days_through_step [of "yoe + 400 * era"] month(2)
    by (cases "m \<le> 2") (simp_all add: y_def z doy mult.commute)
  then show ?thesis
    using month(1) last by (simp add: date valid_date_def day_number_def days_in_month_def z_def)
qed

lemma civil_arith:
  fixes secs q r h mi s :: int
  shows "3600 * h + 60 * mi + s = r \<Longrightarrow> secs = 86400 * q + r \<Longrightarrow>
    secs = 86400 * (q + 719163 - 719163) + 3600 * h + 60 * mi + s"
  by simp

lemma time_of_day:
  fixes r :: int
  assumes "0 \<le> r" "r < 86400"
  shows "0 \<le> r div 3600" "r div 3600 < 24" "0 \<le> r mod 3600 div 60" "r mod 3600 div 60 < 60"
    "0 \<le> r mod 60" "r mod 60 < 60"
    and "3600 * (r div 3600) + 60 * (r mod 3600 div 60) + r mod 60 = r"
proof -
  define h r' where "h = r div 3600" and "r' = r mod 3600"
  have r: "r = 3600 * h + r'" "0 \<le> r'" "r' < 3600" by (simp_all add: h_def r'_def)
  define mi s where "mi = r' div 60" and "s = r' mod 60"
  have r': "r' = 60 * mi + s" "0 \<le> s" "s < 60" by (simp_all add: mi_def s_def)
  have "r mod 60 = s" unfolding r'_def s_def by (simp add: mod_mod_cancel)
  then show "0 \<le> r div 3600" "r div 3600 < 24" "0 \<le> r mod 3600 div 60" "r mod 3600 div 60 < 60"
    "0 \<le> r mod 60" "r mod 60 < 60" "3600 * (r div 3600) + 60 * (r mod 3600 div 60) + r mod 60 = r"
    unfolding h_def [symmetric] r'_def [symmetric] mi_def [symmetric] using assms r r' by linarith+
qed

text \<open>
  C26: the timestamp of a container is right for every time the clock can answer: the fields are a valid
  date of the Gregorian calendar and a valid time of day, and together they denote exactly the given
  number of seconds since the beginning of 1970, whose day is number 719163 of the calendar.
\<close>

theorem civil_time_correct:
  "case civil_from_unix secs of (y, mo, d, h, mi, s) \<Rightarrow>
     valid_date (y, mo, d) \<and> 0 \<le> h \<and> h < 24 \<and> 0 \<le> mi \<and> mi < 60 \<and> 0 \<le> s \<and> s < 60
     \<and> secs = 86400 * (day_number (y, mo, d) - day_number (1970, 1, 1)) + 3600 * h + 60 * mi + s"
proof -
  obtain y m d where ymd: "civil_from_days (secs div 86400) = (y, m, d)" by (cases "civil_from_days (secs div 86400)")
  define q r where "q = secs div 86400" and "r = secs mod 86400"
  have r: "0 \<le> r" "r < 86400" "secs = 86400 * q + r" by (simp_all add: q_def r_def)
  have epoch: "day_number (1970, 1, 1) = 719163" by code_simp
  have unix: "civil_from_unix secs = (y, m, d, r div 3600, r mod 3600 div 60, r mod 60)"
    unfolding civil_from_unix_def Let_def ymd r_def by simp
  have date: "valid_date (y, m, d)" "day_number (y, m, d) = q + 719163"
    using civil_from_days_correct [of q] unfolding q_def ymd by simp_all
  show ?thesis
    unfolding unix prod.case epoch date(2) 
    by (intro conjI date(1) time_of_day(1-6) [OF r(1,2)] civil_arith [OF time_of_day(7) [OF r(1,2)] r(3)])
qed

section \<open>Numbers of a fixed width\<close>

fun fixed :: "nat \<Rightarrow> nat \<Rightarrow> string" where
  "fixed 0 n = []"
| "fixed (Suc w) n = fixed w (n div 10) @ [digit_char (n mod 10)]"

lemma length_fixed [simp]: "length (fixed w n) = w"
  by (induction w n rule: fixed.induct) auto

lemma fixed_zero: "fixed w 0 = replicate w (CHR ''0'')"
proof (induction w)
  case (Suc w)
  have "digit_char 0 = CHR ''0''" by code_simp
  with Suc show ?case by (simp add: replicate_append_same)
qed simp

lemma zero_pad_fixed: "0 < w \<Longrightarrow> n < 10 ^ w \<Longrightarrow> zero_pad w (dec_text n) = fixed w n"
proof (induction w arbitrary: n)
  case (Suc w)
  show ?case
  proof (cases "n < 10")
    case True
    then show ?thesis by (subst dec_text.simps) (simp add: zero_pad_def fixed_zero)
  next
    case False
    have "0 < w" using False Suc.prems(2) by (cases w) auto
    moreover have "n div 10 < 10 ^ w" using Suc.prems(2) by (simp add: less_mult_imp_div_less mult.commute)
    ultimately have "zero_pad w (dec_text (n div 10)) = fixed w (n div 10)" by (rule Suc.IH)
    with False show ?thesis by (subst dec_text.simps) (simp add: zero_pad_def)
  qed
qed simp

lemma append_less:
  fixes x y :: string
  assumes "length a = length b"
  shows "a @ x < b @ y \<longleftrightarrow> a < b \<or> a = b \<and> x < y"
  using assms by (induction a b rule: list_induct2) auto

lemma digit_less: "d < 10 \<Longrightarrow> e < 10 \<Longrightarrow> digit_char d < digit_char e \<longleftrightarrow> d < e"
  by (simp add: digit_char_def less_char_def)

lemma digit_eq: "d < 10 \<Longrightarrow> e < 10 \<Longrightarrow> digit_char d = digit_char e \<longleftrightarrow> d = e"
  using digit_less [of d e] digit_less [of e d] by auto

lemma fixed_order:
  "a < 10 ^ w \<Longrightarrow> b < 10 ^ w \<Longrightarrow> (fixed w a < fixed w b \<longleftrightarrow> a < b) \<and> (fixed w a = fixed w b \<longleftrightarrow> a = b)"
proof (induction w arbitrary: a b)
  case (Suc w)
  have "a div 10 < 10 ^ w" "b div 10 < 10 ^ w" using Suc.prems by (simp_all add: less_mult_imp_div_less mult.commute)
  note IH = Suc.IH [OF this]
  define a1 a0 b1 b0 where "a1 = a div 10" and "a0 = a mod 10" and "b1 = b div 10" and "b0 = b mod 10"
  have parts: "a = 10 * a1 + a0" "b = 10 * b1 + b0" "a0 < 10" "b0 < 10" by (simp_all add: a1_def a0_def b1_def b0_def)
  have "(a < b) = (a1 < b1 \<or> a1 = b1 \<and> a0 < b0)" using parts by linarith
  moreover have "(a = b) = (a1 = b1 \<and> a0 = b0)" unfolding a1_def b1_def a0_def b0_def by (metis div_mult_mod_eq)
  ultimately show ?case
    using IH parts(3,4)
    by (simp add: append_less digit_less digit_eq a1_def [symmetric] b1_def [symmetric] a0_def [symmetric] b0_def [symmetric])
qed simp

section \<open>The calendar is ordered\<close>

lemma days_through_mono: "y \<le> y' \<Longrightarrow> days_through y \<le> days_through y'"
proof (induction y' rule: int_ge_induct)
  case (step i)
  then show ?case using days_through_step [of "i + 1"] by (simp split: if_splits)
qed simp

lemma month_sum:
  assumes "1 \<le> m" "m \<le> m'" "m' \<le> 12"
  shows "sum_list (take (nat (m - 1)) (month_days b)) + month_days b ! nat (m - 1) \<le> sum_list (take (nat m') (month_days b))"
proof -
  have len: "length (month_days b) = 12" by (simp add: month_days_def)
  have "nat m = Suc (nat (m - 1))" "nat (m - 1) < 12" using assms by auto
  then have "sum_list (take (nat m) (month_days b)) = sum_list (take (nat (m - 1)) (month_days b)) + month_days b ! nat (m - 1)"
    by (simp add: take_Suc_conv_app_nth len)
  moreover have "take (nat m') (month_days b) = take (nat m) (month_days b) @ take (nat m' - nat m) (drop (nat m) (month_days b))"
    using assms take_add [of "nat m" "nat m' - nat m" "month_days b"] by simp
  moreover have "0 \<le> sum_list (take k (drop j (month_days b)))" for k j
    by (rule sum_list_nonneg) (auto simp: month_days_def dest!: in_set_takeD in_set_dropD)
  ultimately show ?thesis by simp
qed

lemma day_in_year:
  assumes "valid_date (y, m, d)"
  shows "days_through (y - 1) < day_number (y, m, d)" "day_number (y, m, d) \<le> days_through y"
proof -
  have "0 \<le> sum_list (take k (month_days b))" for k b
    by (rule sum_list_nonneg) (auto simp: month_days_def dest!: in_set_takeD)
  then show "days_through (y - 1) < day_number (y, m, d)" using assms by (simp add: day_number_def valid_date_def add_nonneg_pos)
  have "sum_list (take (nat 12) (month_days (leap y))) = 365 + (if leap y then 1 else 0)" by (simp add: month_days_def)
  then show "day_number (y, m, d) \<le> days_through y"
    using assms month_sum [of m 12 "leap y"] days_through_step [of y]
    by (simp add: day_number_def valid_date_def days_in_month_def)
qed

lemma day_number_mono:
  assumes "valid_date (y, m, d)" "valid_date (y', m', d')" "[y, m, d] < [y', m', d']"
  shows "day_number (y, m, d) < day_number (y', m', d')"
proof (cases "y < y'")
  case True
  then show ?thesis
    using day_in_year(2) [OF assms(1)] day_in_year(1) [OF assms(2)] days_through_mono [of y "y' - 1"] by simp
next
  case False
  then have y: "y' = y" "m < m' \<or> m = m' \<and> d < d'" using assms(3) by auto
  show ?thesis
  proof (cases "m < m'")
    case True
    then show ?thesis
      using assms(1,2) y(1) month_sum [of m "m' - 1" "leap y"] by (simp add: day_number_def valid_date_def days_in_month_def)
  qed (use y in \<open>simp add: day_number_def\<close>)
qed

section \<open>Time stamps sort by time\<close>

lemma civil_mono:
  assumes "civil_from_unix t = (y, mo, d, h, mi, s)" "civil_from_unix t' = (y', mo', d', h', mi', s')"
    and "[y, mo, d, h, mi, s] < [y', mo', d', h', mi', s']"
  shows "t < t'"
proof -
  note t = civil_time_correct [of t, unfolded assms(1) prod.case] and t' = civil_time_correct [of t', unfolded assms(2) prod.case]
  have "[y, mo, d] < [y', mo', d'] \<or> (y, mo, d) = (y', mo', d') \<and> [h, mi, s] < [h', mi', s']"
    using assms(3) by auto
  then show ?thesis
  proof
    assume "[y, mo, d] < [y', mo', d']"
    then have "day_number (y, mo, d) < day_number (y', mo', d')" using t t' by (intro day_number_mono) auto
    moreover from t t' have "3600 * h + 60 * mi + s < 86400" "0 \<le> 3600 * h' + 60 * mi' + s'" by linarith+
    ultimately show ?thesis using t t' by auto
  next
    assume same: "(y, mo, d) = (y', mo', d') \<and> [h, mi, s] < [h', mi', s']"
    then have "3600 * h + 60 * mi + s < 3600 * h' + 60 * mi' + s'" using t t' by auto
    with same t t' show ?thesis by auto
  qed
qed

lemma civil_order:
  assumes "civil_from_unix t = (y, mo, d, h, mi, s)" "civil_from_unix t' = (y', mo', d', h', mi', s')"
  shows "[y, mo, d, h, mi, s] < [y', mo', d', h', mi', s'] \<longleftrightarrow> t < t'"
    and "[y, mo, d, h, mi, s] = [y', mo', d', h', mi', s'] \<longleftrightarrow> t = t'"
proof -
  let ?f = "[y, mo, d, h, mi, s]" and ?f' = "[y', mo', d', h', mi', s']"
  have "?f = ?f' \<Longrightarrow> t = t'"
    using civil_time_correct [of t] civil_time_correct [of t'] by (simp add: assms)
  moreover have "t = t' \<Longrightarrow> ?f = ?f'" using assms by simp
  ultimately show eq: "?f = ?f' \<longleftrightarrow> t = t'" by blast
  show "?f < ?f' \<longleftrightarrow> t < t'"
    using civil_mono [OF assms] civil_mono [OF assms(2,1)] eq by (cases ?f ?f' rule: linorder_cases) auto
qed

lemma year_range:
  assumes "0 \<le> t" "t < 253402300800" "civil_from_unix t = (y, mo, d, h, mi, s)"
  shows "0 \<le> y" "y < 10000"
proof -
  note t = civil_time_correct [of t, unfolded assms(3) prod.case]
  have epoch: "civil_from_unix 0 = (1970, 1, 1, 0, 0, 0)" and last: "civil_from_unix 253402300800 = (10000, 1, 1, 0, 0, 0)"
    by code_simp+
  show "0 \<le> y" using civil_mono [OF assms(3) epoch] assms(1) by (cases "y < 1970") auto
  show "y < 10000"
    using civil_order [OF assms(3) last] assms(2) t by (cases "y < 10000") (auto simp: valid_date_def)
qed

lemma rfc3339_fixed:
  assumes "0 \<le> t" "t < 253402300800" "0 \<le> n" "n < 1000000000" "civil_from_unix t = (y, mo, d, h, mi, s)"
  shows "rfc3339 t n = fixed 4 (nat y) @ ''-'' @ fixed 2 (nat mo) @ ''-'' @ fixed 2 (nat d) @ ''T'' @ fixed 2 (nat h)
    @ '':'' @ fixed 2 (nat mi) @ '':'' @ fixed 2 (nat s) @ ''.'' @ fixed 9 (nat n) @ ''Z''"
    and "nat y < 10 ^ 4 \<and> nat mo < 10 ^ 2 \<and> nat d < 10 ^ 2 \<and> nat h < 10 ^ 2 \<and> nat mi < 10 ^ 2 \<and> nat s < 10 ^ 2 \<and> nat n < 10 ^ 9"
    and "0 \<le> y \<and> 0 \<le> mo \<and> 0 \<le> d \<and> 0 \<le> h \<and> 0 \<le> mi \<and> 0 \<le> s"
proof -
  note t = civil_time_correct [of t, unfolded assms(5) prod.case]
  have "days_in_month y mo \<le> 31" if "1 \<le> mo" "mo \<le> 12" for y mo
  proof -
    have "nat (mo - 1) < length (month_days (leap y))" using that by (simp add: month_days_def)
    then have "days_in_month y mo \<in> set (month_days (leap y))" unfolding days_in_month_def by (rule nth_mem)
    then show ?thesis by (auto simp: month_days_def split: if_splits)
  qed
  then have d: "1 \<le> mo" "mo \<le> 12" "1 \<le> d" "d \<le> 31" using t by (auto simp: valid_date_def dest: order_trans)
  then show nonneg: "0 \<le> y \<and> 0 \<le> mo \<and> 0 \<le> d \<and> 0 \<le> h \<and> 0 \<le> mi \<and> 0 \<le> s"
    using t year_range [OF assms(1,2,5)] by simp
  show bounds: "nat y < 10 ^ 4 \<and> nat mo < 10 ^ 2 \<and> nat d < 10 ^ 2 \<and> nat h < 10 ^ 2 \<and> nat mi < 10 ^ 2 \<and> nat s < 10 ^ 2 \<and> nat n < 10 ^ 9"
    using t d year_range [OF assms(1,2,5)] assms(3,4) by (simp add: nat_less_iff)
  show "rfc3339 t n = fixed 4 (nat y) @ ''-'' @ fixed 2 (nat mo) @ ''-'' @ fixed 2 (nat d) @ ''T'' @ fixed 2 (nat h)
    @ '':'' @ fixed 2 (nat mi) @ '':'' @ fixed 2 (nat s) @ ''.'' @ fixed 9 (nat n) @ ''Z''"
    using nonneg bounds assms(3) by (simp add: rfc3339_def assms(5) padded_def zero_pad_fixed)
qed

text \<open>
  C27: sorting containers by the text of their creation time sorts them by time: two time stamps of the
  years 1970 to 9999 compare as texts exactly as the moments they denote, down to the nanosecond.
\<close>

theorem stamps_sort_by_time:
  assumes "0 \<le> t" "t < 253402300800" "0 \<le> n" "n < 1000000000"
    and "0 \<le> t'" "t' < 253402300800" "0 \<le> n'" "n' < 1000000000"
  shows "rfc3339 t n < rfc3339 t' n' \<longleftrightarrow> t < t' \<or> t = t' \<and> n < n'"
proof -
  obtain y mo d h mi s where c: "civil_from_unix t = (y, mo, d, h, mi, s)" by (cases "civil_from_unix t") auto
  obtain y' mo' d' h' mi' s' where c': "civil_from_unix t' = (y', mo', d', h', mi', s')" by (cases "civil_from_unix t'") auto
  note f = rfc3339_fixed [OF assms(1-4) c] and f' = rfc3339_fixed [OF assms(5-8) c']
  have field: "fixed w (nat a) < fixed w (nat b) \<longleftrightarrow> a < b" "fixed w (nat a) = fixed w (nat b) \<longleftrightarrow> a = b"
    if "nat a < 10 ^ w" "nat b < 10 ^ w" "0 \<le> a" "0 \<le> b" for w a b
    using fixed_order [OF that(1,2)] that(3,4) by auto
  have "rfc3339 t n < rfc3339 t' n' \<longleftrightarrow> [y, mo, d, h, mi, s, n] < [y', mo', d', h', mi', s', n']"
    unfolding f(1) f'(1) using f(2,3) f'(2,3) assms(3,7) by (simp add: append_less field)
  also have "\<dots> \<longleftrightarrow> [y, mo, d, h, mi, s] < [y', mo', d', h', mi', s'] \<or> [y, mo, d, h, mi, s] = [y', mo', d', h', mi', s'] \<and> n < n'"
    by auto
  finally show ?thesis unfolding civil_order [OF c c'] .
qed

lemma stamps_sort_by_time_witness:
  "rfc3339 1772000000 500000000 < rfc3339 1772000001 0"
  using stamps_sort_by_time [of 1772000000 500000000 1772000001 0] by simp

end
