(* ===== verification/Storage.thy ===== *)
theory Storage
  imports State
begin

text \<open>
  The state file between two commands (\<^verbatim>\<open>src/src/state.rs\<close>): what one command saves, a later
  one loads, provided that the file system keeps what is written to it and that the two JSON functions
  of the library fit together.
\<close>

section \<open>A file system that keeps its files\<close>

text \<open>
  What a file holds according to the calls made so far; \<open>None\<close> when they do not determine it. A
  failed write leaves the file undetermined, a failed rename leaves both as they were.
\<close>

fun content :: "outside \<Rightarrow> string \<Rightarrow> history \<Rightarrow> string option" where
  "content K path [] = None"
| "content K path (op # h) = (let ok = r_err (answer K h op) = None in case op of
     Fs (WriteFile p text) \<Rightarrow> if p = path then (if ok then Some text else None) else content K path h
   | Fs (Rename p q) \<Rightarrow>
       if \<not> ok then content K path h
       else if q = path then content K p h else if p = path then None else content K path h
   | Fs (MkDirAll _) \<Rightarrow> content K path h
   | Fs (MkFifo p _) \<Rightarrow> if p = path then None else content K path h
   | Fs (Chmod _ _) \<Rightarrow> content K path h
   | Fs (RmFile p) \<Rightarrow> if p = path then None else content K path h
   | Fs (RmDir _) \<Rightarrow> content K path h
   | Fs _ \<Rightarrow> None
   | Fd (FdWrite _ _) \<Rightarrow> None
   | _ \<Rightarrow> content K path h)"

text \<open>The calls after which a determined content stays the same.\<close>

fun spares :: "string \<Rightarrow> sysop \<Rightarrow> bool" where
  "spares path (Fs (WriteFile p _)) = (p \<noteq> path)"
| "spares path (Fs (Rename p q)) = (p \<noteq> path \<and> q \<noteq> path)"
| "spares path (Fs (MkDirAll _)) = True"
| "spares path (Fs (MkFifo p _)) = (p \<noteq> path)"
| "spares path (Fs (Chmod _ _)) = True"
| "spares path (Fs (RmFile p)) = (p \<noteq> path)"
| "spares path (Fs (RmDir _)) = True"
| "spares path (Fs _) = False"
| "spares path (Fd (FdWrite _ _)) = False"
| "spares path _ = True"

lemma content_spared: "spares path op \<Longrightarrow> content K path (op # h) = content K path h"
  by (cases "(path, op)" rule: spares.cases) (auto simp: Let_def)

lemma content_later: "list_all (spares path) later \<Longrightarrow> content K path (later @ h) = content K path h"
  by (induction later) (simp_all add: content_spared del: content.simps(2))

definition keeps_files :: "outside \<Rightarrow> bool" where
  "keeps_files K \<longleftrightarrow> (\<forall>path h t. content K path h = Some t \<longrightarrow>
     r_flag (answer K h (Query (IsFile path)))
     \<and> r_err (answer K (Query (IsFile path) # h) (Query (ReadFile path))) = None
     \<and> r_text (answer K (Query (IsFile path) # h) (Query (ReadFile path))) = t)"

definition json_fits :: "outside \<Rightarrow> bool" where
  "json_fits K \<longleftrightarrow> (\<forall>s t. state_json K s = Some t \<longrightarrow> parse_state K t = Some s)"

section \<open>Saving and loading\<close>

lemma saved_content:
  "wp (container_save K l s) (\<lambda>_ h'. content K (state_file l (pe_id s)) h' = state_json K s) (\<lambda>_ _. True) h"
  unfolding container_save_def wp_simps
  by (auto simp: ok_or_def Let_def split: option.split sum.split)

lemma load_content:
  assumes "keeps_files K" "json_fits K" "content K (state_file l cid) h = Some t" "state_json K s = Some t"
  shows "wp (container_load K l cid) (\<lambda>c _. c = \<lparr>co_layout = l, co_state = s\<rparr>) (\<lambda>_ _. False) h"
  using assms unfolding container_load_def Let_def wp_simps keeps_files_def json_fits_def
  by (auto simp: ok_or_def split: option.split)

text \<open>
  C18: what a command saves, every later command loads: after a successful save, and any calls that spare
  the state file, loading the container of that id succeeds and gives back the saved record, in every
  field, if the file system keeps what was renamed into place and the library parses what it printed.
\<close>

theorem saved_state_is_loaded:
  assumes "container_save K l s h = (Inr (), h')" "keeps_files K" "json_fits K"
    and "list_all (spares (state_file l (pe_id s))) later"
  shows "fst (container_load K l (pe_id s) (later @ h')) = Inr \<lparr>co_layout = l, co_state = s\<rparr>"
proof -
  obtain t where t: "state_json K s = Some t"
    using assms(1) by (cases "state_json K s")
      (auto simp: container_save_def seq_p_def bind_p_def do_op_def io_def call_def lift_res_def ok_or_def fail_def ret_def
        split: option.splits)
  have "content K (state_file l (pe_id s)) (later @ h') = Some t"
    using wp_sound [OF saved_content assms(1)] t by (simp add: content_later [OF assms(4)])
  from load_content [OF assms(2,3) this t] show ?thesis
    by (auto simp: wp_def split: prod.splits sum.splits)
qed

text \<open>
  A file system in memory that grants every call, with a library that prints one record as one text.
\<close>

definition granted :: outside where
  "granted = granting (\<lambda>_ r. r)"

definition in_memory :: "persisted \<Rightarrow> outside" where
  "in_memory s = granted\<lparr>
     answer := (\<lambda>h op. case op of
         Query (ReadFile path) \<Rightarrow> plain_reply\<lparr>r_text := get_or [] (content granted path h)\<rparr>
       | _ \<Rightarrow> plain_reply),
     state_json := (\<lambda>s'. if s' = s then Some ''state'' else None),
     parse_state := (\<lambda>t. if t = ''state'' then Some s else None)\<rparr>"

lemma in_memory_content: "content (in_memory s) path h = content granted path h"
proof -
  have same: "r_err (answer (in_memory s) h op) = r_err (answer granted h op)" for h op
    by (simp add: in_memory_def granted_def granting_def plain_reply_def split: sysop.split fs_query.split)
  show ?thesis
  proof (induction h arbitrary: path)
    case (Cons op h)
    then show ?case by (cases op) (simp_all add: same Let_def split: fs_op.split fd_op.split)
  qed simp
qed

lemma in_memory_promises: "keeps_files (in_memory s)" "json_fits (in_memory s)"
  unfolding keeps_files_def in_memory_content
  by (simp_all add: in_memory_def granted_def granting_def plain_reply_def json_fits_def)

lemma saved_state_is_loaded_witness:
  "fst (container_load (in_memory some_state) \<lparr>root = ''/run''\<rparr> ''c1''
     ([Time Now, Fs (MkFifo ''/run/c1/exec.fifo'' 402)] @ snd (container_save (in_memory some_state) \<lparr>root = ''/run''\<rparr> some_state [])))
   = Inr \<lparr>co_layout = \<lparr>root = ''/run''\<rparr>, co_state = some_state\<rparr>"
proof -
  let ?K = "in_memory some_state" and ?l = "\<lparr>root = ''/run''\<rparr> :: dirs"
  let ?later = "[Time Now, Fs (MkFifo ''/run/c1/exec.fifo'' 402)]"
  have "fst (container_save ?K ?l some_state []) = Inr ()" by code_simp
  then have run: "container_save ?K ?l some_state [] = (Inr (), snd (container_save ?K ?l some_state []))"
    by (cases "container_save ?K ?l some_state []") simp
  have spared: "list_all (spares (state_file ?l (pe_id some_state))) ?later" by code_simp
  have "pe_id some_state = ''c1''" by (simp add: some_state_def)
  with saved_state_is_loaded [OF run in_memory_promises spared] show ?thesis by simp
qed

end
