(* ===== verification/Waiting.thy ===== *)
theory Waiting
  imports Lifecycle
begin

text \<open>
  How long the commands that control a container can wait. The source waits by sleeping in loops
  with a counter; \<open>naps n m\<close> bounds what a program sleeps by \<open>n\<close> milliseconds, on every outcome and
  for every behaviour of the outside, and \<open>blocks\<close> lists the calls that can wait for somebody else.
\<close>

section \<open>Sleeping\<close>

fun slept :: "history \<Rightarrow> nat" where
  "slept [] = 0"
| "slept (Time (SleepMs n) # h) = n + slept h"
| "slept (op # h) = slept h"

fun sleeps :: "sysop \<Rightarrow> bool" where
  "sleeps (Time (SleepMs _)) = True"
| "sleeps _ = False"

lemma slept_append [simp]: "slept (l @ h) = slept l + slept h"
  by (induction l rule: slept.induct) simp_all

lemma slept_none: "list_all (\<lambda>op. \<not> sleeps op) l \<Longrightarrow> slept l = 0"
  by (induction l rule: slept.induct) simp_all

definition naps :: "nat \<Rightarrow> 'a prog \<Rightarrow> bool" where
  "naps n m \<longleftrightarrow> (\<forall>h. \<exists>l. snd (m h) = l @ h \<and> slept l \<le> n)"

named_theorems naps_intros \<open>structural rules for naps\<close>

lemma naps_quiet: "emits (\<lambda>op. \<not> sleeps op) m \<Longrightarrow> naps 0 m"
  unfolding emits_def naps_def by (metis slept_none order_refl)

lemma naps_weaken: "naps n m \<Longrightarrow> n \<le> k \<Longrightarrow> naps k m"
  unfolding naps_def by (meson order_trans)

lemma naps_ret [naps_intros]: "naps n (ret x)" "naps n (fail e)" "naps n (lift_res r)"
  by (simp_all add: naps_def ret_def fail_def lift_res_def)

lemma naps_sleep: "naps n (ask K (Time (SleepMs n)) f)"
  by (simp add: naps_def ask_def bind_p_def call_def ret_def)

lemma naps_on_result:
  assumes "naps n m" "\<And>r. naps k (f r)"
  shows "naps (n + k) (on_result m f)"
  unfolding naps_def
proof
  fix h
  obtain r h1 where m: "m h = (r, h1)" by (cases "m h")
  obtain l where l: "h1 = l @ h" "slept l \<le> n" using assms(1) m unfolding naps_def by (metis snd_conv)
  obtain j where j: "snd (f r h1) = j @ h1" "slept j \<le> k" using assms(2) unfolding naps_def by blast
  from m l j show "\<exists>l. snd (on_result m f h) = l @ h \<and> slept l \<le> n + k"
    by (auto simp: on_result_def intro!: exI [of _ "j @ l"])
qed

lemma naps_bind: "naps n m \<Longrightarrow> (\<And>x. naps k (f x)) \<Longrightarrow> naps (n + k) (bind_p m f)"
  unfolding bind_p_on_result by (rule naps_on_result) (auto simp: naps_ret split: sum.split)

lemma naps_seq: "naps n m \<Longrightarrow> naps k m' \<Longrightarrow> naps (n + k) (seq_p m m')"
  unfolding seq_p_def by (rule naps_bind)

lemma naps_after_quiet: "emits (\<lambda>op. \<not> sleeps op) m \<Longrightarrow> (\<And>x. naps k (f x)) \<Longrightarrow> naps k (bind_p m f)"
  using naps_bind [of 0 m k f, OF naps_quiet] by simp

lemma naps_seq_after_quiet: "emits (\<lambda>op. \<not> sleeps op) m \<Longrightarrow> naps k n \<Longrightarrow> naps k (seq_p m n)"
  unfolding seq_p_def by (rule naps_after_quiet)

lemma naps_when [naps_intros]: "naps n m \<Longrightarrow> naps n (when_p b m)"
  by (simp add: when_p_def naps_ret)

lemma naps_ignore [naps_intros]: "naps n m \<Longrightarrow> naps n (ignore m)"
  unfolding ignore_def using naps_on_result [of n m 0 "\<lambda>_. ret ()"] by (simp add: naps_ret)

lemma query_quiet: "emits is_query m \<Longrightarrow> emits (\<lambda>op. \<not> sleeps op) m"
  by (erule emits_mono) (auto elim: is_queryE)

section \<open>The waiting loops\<close>

lemma await_frozen_naps: "naps (10 * n) (await_frozen K cg b n)"
proof (induction n)
  case (Suc n)
  have "naps (10 + 10 * n) (seq_p (ask K (Time (SleepMs 10)) (\<lambda>_. ())) (await_frozen K cg b n))"
    by (rule naps_seq [OF naps_sleep Suc.IH])
  then show ?case
    by (auto intro!: naps_after_quiet query_quiet [OF frozen_queries] simp: naps_ret)
qed (simp add: naps_ret)

lemma await_dead_naps: "naps (10 * n) (await_dead K c n)"
proof (induction n)
  case (Suc n)
  have "naps (10 + 10 * n) (seq_p (ask K (Time (SleepMs 10)) (\<lambda>_. ())) (await_dead K c n))"
    by (rule naps_seq [OF naps_sleep Suc.IH])
  then show ?case
    by (auto intro!: naps_after_quiet query_quiet [OF alive_queries] simp: naps_ret)
qed (simp add: naps_ret)

lemma remove_retry_naps: "naps (20 * n) (remove_retry K path (Suc n))"
proof (induction n)
  case 0
  show ?case by (auto intro!: naps_after_quiet emits_intros simp: naps_ret split: option.split)
next
  case (Suc n)
  have "naps (20 + 20 * n) (seq_p (ask K (Time (SleepMs 20)) (\<lambda>_. ())) (remove_retry K path (Suc n)))"
    by (rule naps_seq [OF naps_sleep Suc.IH])
  then show ?case
    unfolding remove_retry.simps(2) [of K path "Suc n"]
    by (auto intro!: naps_after_quiet emits_intros simp: naps_ret simp del: remove_retry.simps split: option.split)
qed

lemma reap_all_quiet: "emits (\<lambda>op. \<not> sleeps op) (reap_all K n)"
  by (induction n) (auto intro!: emits_intros)

lemma await_empty_naps: "naps (20 * n) (await_empty K cg n)"
proof (induction n)
  case (Suc n)
  have "naps (20 + 20 * n) (seq_p (ask K (Time (SleepMs 20)) (\<lambda>_. ())) (await_empty K cg n))"
    by (rule naps_seq [OF naps_sleep Suc.IH])
  moreover have "emits (\<lambda>op. \<not> sleeps op) (or_else True (bind_p (cg_procs K cg) (\<lambda>pids. ret (pids = []))))"
    by (intro emits_intros query_quiet procs_queries)
  ultimately show ?case
    by (auto intro!: naps_seq_after_quiet reap_all_quiet naps_after_quiet simp: naps_ret)
qed (simp add: naps_ret)

section \<open>Waiting for others\<close>

text \<open>The calls that return only when another process, a peer or a helper has done something.\<close>

fun blocks :: "sysop \<Rightarrow> bool" where
  "blocks (Proc SigWait) = True"
| "blocks (Proc (WaitPid p)) = (p \<noteq> None)"
| "blocks (Chan c) = (c = ChanRecv)"
| "blocks (Cmd ChildWait) = True"
| "blocks (Cmd (RunHelper _ _)) = True"
| "blocks (Fd _) = True"
| "blocks (Net _) = True"
| "blocks _ = False"

definition prompt :: "nat \<Rightarrow> 'a prog \<Rightarrow> bool" where
  "prompt n m \<longleftrightarrow> naps n m \<and> emits (\<lambda>op. \<not> blocks op) m"

lemma query_never_blocks: "emits is_query m \<Longrightarrow> emits (\<lambda>op. \<not> blocks op) m"
  by (erule emits_mono) (auto elim: is_queryE)

lemma prompt_query: "emits is_query m \<Longrightarrow> prompt 0 m"
  by (simp add: prompt_def naps_quiet query_quiet query_never_blocks)

lemma prompt_ret: "prompt n (ret x)" "prompt n (fail e)" "prompt n (lift_res r)"
  by (simp_all add: prompt_def naps_ret emits_intros)

lemma prompt_weaken: "prompt n m \<Longrightarrow> n \<le> k \<Longrightarrow> prompt k m"
  unfolding prompt_def by (blast intro: naps_weaken)

lemma prompt_bind: "prompt n m \<Longrightarrow> (\<And>x. prompt k (f x)) \<Longrightarrow> prompt (n + k) (bind_p m f)"
  unfolding prompt_def by (simp add: naps_bind emits_bind)

lemma prompt_on_result: "prompt n m \<Longrightarrow> (\<And>r. prompt k (f r)) \<Longrightarrow> prompt (n + k) (on_result m f)"
  unfolding prompt_def by (simp add: naps_on_result emits_on_result)

lemma prompt_seq: "prompt n m \<Longrightarrow> prompt k m' \<Longrightarrow> prompt (n + k) (seq_p m m')"
  unfolding seq_p_def by (rule prompt_bind)

lemma prompt_query_bind: "emits is_query m \<Longrightarrow> (\<And>x. prompt k (f x)) \<Longrightarrow> prompt k (bind_p m f)"
  using prompt_bind [of 0 m k f, OF prompt_query] by simp

lemma prompt_query_result: "emits is_query m \<Longrightarrow> (\<And>r. prompt k (f r)) \<Longrightarrow> prompt k (on_result m f)"
  using prompt_on_result [of 0 m k f, OF prompt_query] by simp

lemma prompt_when: "prompt n m \<Longrightarrow> prompt n (when_p b m)"
  by (simp add: when_p_def prompt_ret)

lemma prompt_ignore: "prompt n m \<Longrightarrow> prompt n (ignore m)"
  by (simp add: prompt_def naps_ignore emits_ignore)

lemma prompt_do_op: "\<not> sleeps op \<Longrightarrow> \<not> blocks op \<Longrightarrow> prompt 0 (do_op K c op)"
  by (simp add: prompt_def naps_quiet emits_do_op)

lemma prompt_op_seq: "\<not> sleeps op \<Longrightarrow> \<not> blocks op \<Longrightarrow> prompt k n \<Longrightarrow> prompt k (seq_p (do_op K c op) n)"
  using prompt_seq [of 0 "do_op K c op" k n, OF prompt_do_op] by simp

lemma prompt_each:
  assumes "\<And>x. prompt 0 (f x)"
  shows "prompt 0 (each f xs)"
proof (induction xs)
  case (Cons x xs)
  with assms prompt_seq [of 0 "f x" 0 "each f xs"] show ?case by simp
qed (simp add: prompt_ret)

section \<open>The parts\<close>

lemma freeze_prompt: "prompt 5000 (cg_freeze K cg b)"
proof -
  have "emits (\<lambda>op. \<not> blocks op) (await_frozen K cg b n)" for n
    by (induction n) (auto intro!: emits_intros query_never_blocks [OF frozen_queries])
  then have "prompt 5000 (await_frozen K cg b 500)"
    using await_frozen_naps [of 500 K cg b] by (simp add: prompt_def)
  then show ?thesis
    unfolding cg_freeze_def cg_write_def by (intro prompt_op_seq) simp_all
qed

lemma kill_each_prompt: "prompt 0 (kill_each K signal pids)"
  unfolding kill_each_def by (rule prompt_each) (simp add: prompt_do_op)

lemma kill_all_prompt: "prompt 10000 (kill_all K cg signal)"
proof -
  have thaw: "prompt 5000 (seq_p (when_p b (cg_freeze K cg False)) (lift_res r))" for b and r :: "unit res"
    using prompt_seq [OF prompt_when [OF freeze_prompt] prompt_ret(3) [of 0]] by simp
  have body: "prompt 0 (bind_p (cg_procs K cg) (kill_each K signal))"
    by (rule prompt_query_bind [OF procs_queries kill_each_prompt])
  have "prompt (5000 + (0 + 5000)) (seq_p (when_p b (cg_freeze K cg True))
      (on_result (bind_p (cg_procs K cg) (kill_each K signal)) (\<lambda>r. seq_p (when_p b' (cg_freeze K cg False)) (lift_res r))))" for b b'
    by (intro prompt_seq [OF prompt_when [OF freeze_prompt]] prompt_on_result body thaw)
  then show ?thesis unfolding kill_all_def by (auto intro!: prompt_query_bind frozen_queries)
qed

lemma force_stop_prompt: "prompt 10000 (force_stop K c)"
proof -
  have "emits (\<lambda>op. \<not> blocks op) (await_dead K c n)" for n
    by (induction n) (auto intro!: emits_intros query_never_blocks [OF alive_queries])
  then have dead: "prompt 5000 (await_dead K c 500)"
    using await_dead_naps [of 500 K c] by (simp add: prompt_def)
  have "prompt 0 (kill_quietly K SIGKILL pid)" for pid
    by (simp add: kill_quietly_def prompt_ignore prompt_do_op)
  then have "prompt (0 + 5000) (seq_p (each (kill_quietly K SIGKILL) pids) (await_dead K c 500))" for pids
    by (intro prompt_seq dead prompt_each)
  moreover have "emits is_query (or_else [] (cg_procs K (co_cgroup c)))"
    by (intro emits_or_else procs_queries)
  ultimately have "prompt 5000 (bind_p (or_else [] (cg_procs K (co_cgroup c)))
      (\<lambda>pids. seq_p (each (kill_quietly K SIGKILL) pids) (await_dead K c 500)))"
    by (intro prompt_query_bind) simp_all
  from prompt_seq [OF prompt_when [OF freeze_prompt] this] show ?thesis
    unfolding force_stop_def Let_def by (intro prompt_query_bind frozen_queries) simp
qed

lemma destroy_prompt: "prompt 980 (cg_destroy K cg)"
proof -
  have "emits (\<lambda>op. \<not> blocks op) (remove_retry K path n)" for path n
    by (induction K path n rule: remove_retry.induct) (auto intro!: emits_intros split: option.split)
  then have retry: "prompt 980 (remove_retry K path 50)" for path
    using remove_retry_naps [of 49 K path] by (simp add: prompt_def)
  have "prompt 0 (given (path_parent (cg_path cg)) (\<lambda>parent. when_p (\<not> path_eq parent MOUNT_POINT)
      (ignore (do_op K (IoErr ''remove cgroup'') (Fs (RmDir parent))))))"
    by (auto simp: given_def prompt_ret prompt_when prompt_ignore prompt_do_op split: option.split)
  from prompt_seq [OF retry this] show ?thesis unfolding cg_destroy_def by simp
qed

lemma teardown_prompt: "prompt 5000 (teardown K cg)"
proof -
  have reap: "emits (\<lambda>op. \<not> blocks op) (reap_all K n)" for n
    by (induction n) (auto intro!: emits_intros)
  have "emits (\<lambda>op. \<not> blocks op) (await_empty K cg n)" for n
    by (induction n) (auto intro!: emits_intros reap query_never_blocks [OF procs_queries])
  then have wait: "prompt 5000 (await_empty K cg 250)"
    using await_empty_naps [of 250 K cg] by (simp add: prompt_def)
  have "prompt 0 (kill_quietly K SIGKILL pid)" for pid
    by (simp add: kill_quietly_def prompt_ignore prompt_do_op)
  then have "prompt (0 + 5000) (seq_p (each (kill_quietly K SIGKILL) pids) (await_empty K cg 250))" for pids
    by (intro prompt_seq wait prompt_each)
  then show ?thesis
    unfolding teardown_def by (auto intro!: prompt_query_bind emits_or_else procs_queries)
qed

section \<open>The commands\<close>

text \<open>A query whose possible values are known.\<close>

lemma prompt_query_bind_when:
  assumes m: "emits is_query m" "\<And>h. wp m (\<lambda>x _. R x) (\<lambda>_ _. True) h" and f: "\<And>x. R x \<Longrightarrow> prompt k (f x)"
  shows "prompt k (bind_p m f)"
proof -
  have "R x" if "m h = (Inr x, h')" for x h h' using wp_sound [OF m(2) that] .
  then have same: "bind_p m f = bind_p m (\<lambda>x. if R x then f x else fail Diverged)"
    by (auto simp: fun_eq_iff bind_p_def split: prod.splits sum.splits)
  show ?thesis unfolding same by (rule prompt_query_bind [OF m(1)]) (simp add: f prompt_ret)
qed

definition no_poststop :: "hooks option \<Rightarrow> bool" where
  "no_poststop hs \<longleftrightarrow> flat (Option.bind hs (select_hooks Poststop)) = []"

definition no_poststop_hooks :: "outside \<Rightarrow> bool" where
  "no_poststop_hooks K \<longleftrightarrow> (\<forall>t sp. parse_spec K t = Some sp \<longrightarrow> no_poststop (sp_hooks sp))"

lemma hooks_skipped: "no_poststop hs \<Longrightarrow> hooks_run K hs Poststop state = ret ()"
  by (auto simp: no_poststop_def hooks_run_def split: option.split)

lemma reloaded_hooks:
  assumes "no_poststop_hooks K"
  shows "wp (or_else None (container_hooks K c)) (\<lambda>hs _. no_poststop hs) (\<lambda>_ _. True) h"
proof -
  have none: "no_poststop None" by (simp add: no_poststop_def)
  have "wp (bundle_load K dir) (\<lambda>b _. no_poststop (bu_hooks b)) (\<lambda>_ _. True) h1" for dir h1
    unfolding bundle_load_def Let_def wp_simps
    by (auto split: option.splits sum.splits simp: wp_simps ok_or_def bu_hooks_def assms [unfolded no_poststop_hooks_def, rule_format])
  then show ?thesis
    unfolding container_hooks_def wp_or_else wp_on_result by (rule wp_mono) (simp_all add: wp_simps none)
qed

lemma apply_prompt: "prompt 0 (cg_apply K cg rs)"
  unfolding cg_apply_def by (rule prompt_each) (simp add: cg_write_def prompt_do_op split: prod.split)

lemma remove_prompt: "prompt 0 (container_remove K c)"
  unfolding container_remove_def Let_def
  by (rule prompt_query_bind) (simp_all add: emits_ask prompt_when prompt_do_op)

lemma delete_prompt:
  assumes "no_poststop_hooks K"
  shows "prompt 10980 (delete K l cid force)"
proof -
  have last: "prompt 0 (bind_p (State.oci_state K c) (\<lambda>state. seq_p (hooks_run K hs Poststop state) (container_remove K c)))"
    if "no_poststop hs" for hs c
    by (rule prompt_query_bind [OF oci_state_queries])
      (use prompt_seq [OF prompt_ret(1) [of 0] remove_prompt] in \<open>simp add: hooks_skipped [OF that]\<close>)
  have rest: "prompt 980 (delete_rest K c)" for c
    by (rule prompt_query_bind_when [OF emits_or_else [OF container_hooks_queries] reloaded_hooks [OF assms]])
      (use prompt_seq [OF prompt_ignore [OF destroy_prompt] last] in simp_all)
  have stop: "prompt 10000 (delete_stop K cid force c s)" for c s
    by (simp add: prompt_ret force_stop_prompt)
  have "prompt 10980 (delete_loaded K cid force c)" for c
    unfolding delete_loaded_def
    by (rule prompt_query_bind [OF status_queries]) (use prompt_seq [OF stop rest] in simp)
  then show ?thesis
    unfolding delete_def
    by (intro prompt_query_result load_queries) (auto simp: prompt_ret split: sum.split error.split)
qed


definition plain_bundles :: outside where
  "plain_bundles = (granting (\<lambda>_ r. r))\<lparr>parse_spec := (\<lambda>_. Some plain_spec)\<rparr>"


end
