(* ===== verification/Running.thy ===== *)
theory Running
  imports Waiting
begin

text \<open>
  \<^verbatim>\<open>mars run\<close> in the foreground (\<^verbatim>\<open>run\<close> in \<^verbatim>\<open>src/src/container/mod.rs\<close>): what its exit code
  means and what it leaves behind.
\<close>

definition state_removal :: "outside \<Rightarrow> container \<Rightarrow> history \<Rightarrow> bool" where
  "state_removal K c h \<longleftrightarrow> (let dir = container_dir (co_layout c) (co_id c) in
     asked K h (Query (Exists dir)) (\<lambda>r. \<not> r_flag r) \<or> Fs (RmDirAll dir) \<in> set h)"

definition cleaned :: "outside \<Rightarrow> bool \<Rightarrow> container \<Rightarrow> history \<Rightarrow> bool" where
  "cleaned K keep c h \<longleftrightarrow> group_removal c h \<and> (keep \<or> state_removal K c h)"

lemma stable_init_ended: "stable (init_ended K init code)"
  unfolding init_ended_def [abs_def] by (rule stable_asked)

lemma wp_with:
  assumes "grows m" "stable G" "G h" "wp m Q E h"
  shows "wp m (\<lambda>x h'. Q x h' \<and> G h') E h"
proof -
  have "wp m (\<lambda>_. G) (\<lambda>_. G) h" by (rule emits_keeps [OF assms(1) [unfolded grows_def] assms(2,3)])
  with assms(4) show ?thesis by (auto simp: wp_def split: prod.splits sum.splits)
qed

lemma remove_attempt: "wp (ignore (container_remove K c)) (\<lambda>_. state_removal K c) E h"
  by (auto simp: container_remove_def state_removal_def wp_simps Let_def split: option.split)

lemma explain_grows: "grows (explain_exit K cg outcome)"
  unfolding grows_def explain_exit_def memory_events_def cpu_stat_def cg_read_def Let_def
  by (intro emits_intros) simp_all

lemma removal_grows: "grows (when_p b (ignore (container_remove K c)))"
  using remove_grows unfolding grows_def by (intro emits_intros)

lemma finish_cleans:
  "wp (seq_p (ignore (cg_destroy K (co_cgroup c)))
      (seq_p (when_p (\<not> keep) (ignore (container_remove K c))) (lift_res outcome)))
     (\<lambda>code h'. outcome = Inr code \<and> cleaned K keep c h') (\<lambda>e h'. outcome = Inl e \<and> cleaned K keep c h') h"
proof -
  have removed: "wp (when_p (\<not> keep) (ignore (container_remove K c))) (\<lambda>_. cleaned K keep c) (\<lambda>_ _. False) h1"
    if "group_removal c h1" for h1
    using wp_with [OF _ stable_group_removal that remove_attempt [of K c "\<lambda>_ _. False"]] that
    by (auto simp: wp_when cleaned_def remove_grows grows_more elim: wp_mono)
  have "wp (ignore (cg_destroy K (co_cgroup c))) (\<lambda>_. group_removal c) (\<lambda>_ _. False) h"
    unfolding wp_ignore group_removal_def by (rule destroy_removes)
  then show ?thesis
    unfolding wp_seq
    by (rule wp_mono) (auto intro!: wp_mono [OF removed] simp: wp_lift_res split: sum.split)
qed


end
