(* ===== verification/Transitions.thy ===== *)
theory Transitions
  imports Running
begin

text \<open>
  The commands as steps of the abstract life of a container. \<open>Lifecycle\<close> shows that a command acts
  only in a status that allows it; here the status after a command that succeeds is the one the
  abstract step leads to, for a kernel in which only the calls that concern a fact change it, and a
  whole session of commands is a path of abstract steps.
\<close>

section \<open>What the status depends on\<close>

definition lives :: "outside \<Rightarrow> container \<Rightarrow> history \<Rightarrow> bool" where
  "lives K c h \<longleftrightarrow> observed_start K c h = Some (pe_start_time (co_state c))"

definition frozen :: "outside \<Rightarrow> container \<Rightarrow> history \<Rightarrow> bool" where
  "frozen K c h \<longleftrightarrow> polled K (co_cgroup c) h"

definition waits :: "outside \<Rightarrow> container \<Rightarrow> history \<Rightarrow> bool" where
  "waits K c h \<longleftrightarrow> r_flag (answer K h (Query (Exists (co_exec_fifo c))))"

definition view :: "outside \<Rightarrow> container \<Rightarrow> history \<Rightarrow> status" where
  "view K c h = derived_status (lives K c h) (frozen K c h) (waits K c h)"

text \<open>The calls that can change whether the group is frozen, and whether the fifo is there.\<close>

definition freeze_op :: "container \<Rightarrow> sysop \<Rightarrow> bool" where
  "freeze_op c op \<longleftrightarrow> (\<exists>text. op = freeze_write (co_cgroup c) text)"

fun fifo_op :: "string \<Rightarrow> sysop \<Rightarrow> bool" where
  "fifo_op path (Fs (RmFile p)) = (p = path)"
| "fifo_op path (Fs (RmDirAll _)) = True"
| "fifo_op path (Fs (Rename p q)) = (p = path \<or> q = path)"
| "fifo_op path op = makes path op"

text \<open>
  A kernel in which nothing else interferes: a process that has ended stays so, the group is frozen
  and thawed only through its file, the fifo comes and goes only by calls that name it, and it is gone
  when it was removed.
\<close>

definition settled :: "outside \<Rightarrow> container \<Rightarrow> bool" where
  "settled K c \<longleftrightarrow>
     (\<forall>h op. lives K c (op # h) \<longrightarrow> lives K c h)
     \<and> (\<forall>h op. \<not> freeze_op c op \<longrightarrow> frozen K c (op # h) = frozen K c h)
     \<and> (\<forall>h op. \<not> fifo_op (co_exec_fifo c) op \<longrightarrow> waits K c (op # h) = waits K c h)
     \<and> (\<forall>h. r_err (answer K h (Fs (RmFile (co_exec_fifo c)))) = None
          \<longrightarrow> \<not> waits K c (Fs (RmFile (co_exec_fifo c)) # h))"

definition same_view :: "outside \<Rightarrow> container \<Rightarrow> history \<Rightarrow> history \<Rightarrow> bool" where
  "same_view K c h h' \<longleftrightarrow> (lives K c h' \<longrightarrow> lives K c h) \<and> frozen K c h' = frozen K c h \<and> waits K c h' = waits K c h"

abbreviation neutral :: "container \<Rightarrow> sysop \<Rightarrow> bool" where
  "neutral c op \<equiv> \<not> freeze_op c op \<and> \<not> fifo_op (co_exec_fifo c) op"

lemma same_view_refl [simp]: "same_view K c h h"
  by (simp add: same_view_def)

lemma same_view_trans: "same_view K c h1 h2 \<Longrightarrow> same_view K c h2 h3 \<Longrightarrow> same_view K c h1 h3"
  by (auto simp: same_view_def)

lemma same_view_view: "same_view K c h h' \<Longrightarrow> view K c h' = view K c h \<or> view K c h' = Stopped"
  by (auto simp: same_view_def view_def derived_status_def)

lemma neutral_same_view:
  "settled K c \<Longrightarrow> list_all (neutral c) l \<Longrightarrow> same_view K c h (l @ h)"
proof (induction l)
  case (Cons op l)
  then have "same_view K c (l @ h) (op # l @ h)" by (auto simp: settled_def same_view_def)
  with Cons show ?case by (auto intro: same_view_trans)
qed simp

lemma neutral_wp:
  assumes "settled K c" "emits (neutral c) m"
  shows "wp m (\<lambda>_. same_view K c h) (\<lambda>_. same_view K c h) h"
  by (rule wp_mono [OF emits_wp [OF assms(2)]]) (auto intro: neutral_same_view [OF assms(1)])

lemma query_neutral: "is_query op \<Longrightarrow> neutral c op"
  by (cases op) (simp_all add: freeze_op_def)

lemma queries_neutral: "emits is_query m \<Longrightarrow> emits (neutral c) m"
  by (erule emits_mono) (rule query_neutral)

lemma status_view:
  assumes "settled K c"
  shows "wp (container_status K c) (\<lambda>s h'. s = view K c h \<and> same_view K c h h') (\<lambda>_ _. False) h"
proof -
  have keep: "frozen K c (Query q # h1) = frozen K c h1" "waits K c (Query q # h1) = waits K c h1" for q h1
    using assms query_neutral [of "Query q" c] by (auto simp: settled_def)
  have "wp (container_status K c) (\<lambda>s _. s = view K c h) (\<lambda>_ _. False) h"
    using keep unfolding wp_container_status
    by (simp add: Let_def view_def derived_status_def lives_def frozen_def waits_def)
  moreover have "wp (container_status K c) (\<lambda>_. same_view K c h) (\<lambda>_. same_view K c h) h"
    by (rule neutral_wp [OF assms queries_neutral [OF status_queries]])
  ultimately show ?thesis by (auto simp: wp_def split: prod.splits sum.splits)
qed

lemma require_view:
  assumes "settled K c"
  shows "wp (require K c ss) (\<lambda>s h'. s = view K c h \<and> s \<in> set ss \<and> same_view K c h h') (\<lambda>_ _. True) h"
  unfolding require_def wp_bind by (rule wp_mono [OF status_view [OF assms]]) (simp_all add: wp_simps)

section \<open>The abstract life\<close>

text \<open>
  A finer view of the life of a container than its status: whether its init still waits at the fifo,
  and whether it is frozen. \<open>next_life\<close> is what a command does to it; \<open>None\<close> where the command is refused.
\<close>

datatype life = Alive bool bool | Ended

fun next_life :: "command \<Rightarrow> life \<Rightarrow> life option" where
  "next_life Start (Alive waiting froze) = (if waiting \<and> \<not> froze then Some (Alive False False) else None)"
| "next_life Pause (Alive waiting froze) = (if froze then None else Some (Alive waiting True))"
| "next_life Resume (Alive waiting froze) = (if froze then Some (Alive waiting False) else None)"
| "next_life Kill (Alive waiting froze) = Some (Alive waiting froze)"
| "next_life Update (Alive waiting froze) = Some (Alive waiting froze)"
| "next_life _ _ = None"

fun status_of :: "life \<Rightarrow> status" where
  "status_of (Alive waiting froze) = derived_status True froze waiting"
| "status_of Ended = Stopped"

text \<open>It implements the abstract steps on the status.\<close>

lemma next_life_step: "next_life cmd s = Some t \<Longrightarrow> life_step (status_of s) cmd (Some (status_of t))"
  by (cases "(cmd, s)" rule: next_life.cases) (auto simp: derived_status_def split: if_splits)

definition life_of :: "outside \<Rightarrow> container \<Rightarrow> history \<Rightarrow> life" where
  "life_of K c h = (if lives K c h then Alive (waits K c h) (frozen K c h) else Ended)"

lemma status_of_life: "status_of (life_of K c h) = view K c h"
  by (simp add: life_of_def view_def derived_status_def)

lemma same_view_life: "same_view K c h h' \<Longrightarrow> life_of K c h' = life_of K c h \<or> life_of K c h' = Ended"
  by (auto simp: same_view_def life_of_def)

section \<open>The steps of the commands\<close>

text \<open>What the command does, or the end of the process at any moment during it.\<close>

definition step_to :: "life \<Rightarrow> command \<Rightarrow> life \<Rightarrow> bool" where
  "step_to s cmd t \<longleftrightarrow> next_life cmd s = Some t \<or> next_life cmd s \<noteq> None \<and> t = Ended"

lemma view_cases:
  "view K c h = Created \<longleftrightarrow> life_of K c h = Alive True False"
  "view K c h = Running \<longleftrightarrow> life_of K c h = Alive False False"
  "view K c h = Paused \<longleftrightarrow> (\<exists>waiting. life_of K c h = Alive waiting True)"
  by (auto simp: view_def life_of_def derived_status_def)

text \<open>After the check only the body matters: it starts from a history with the same view.\<close>

lemma required_step:
  assumes settled: "settled K c"
    and body: "\<And>h1. view K c h \<in> set ss \<Longrightarrow> same_view K c h h1 \<Longrightarrow>
      wp body (\<lambda>_ h'. step_to (life_of K c h) cmd (life_of K c h')) (\<lambda>_ _. True) h1"
  shows "wp (bind_p (require K c ss) (\<lambda>_. body)) (\<lambda>_ h'. step_to (life_of K c h) cmd (life_of K c h')) (\<lambda>_ _. True) h"
  unfolding wp_bind by (rule wp_mono [OF require_view [OF settled]]) (auto intro: body)

lemma same_view_step:
  "next_life cmd s = Some s \<Longrightarrow> s = life_of K c h \<Longrightarrow> same_view K c h h' \<Longrightarrow> step_to s cmd (life_of K c h')"
  using same_view_life [of K c h h'] by (auto simp: step_to_def)

lemma legal_views:
  "view K c h \<in> set [Created, Running, Paused] \<Longrightarrow> \<exists>waiting froze. life_of K c h = Alive waiting froze"
  by (auto simp: view_cases)

lemma release_takes_fifo:
  assumes "settled K c"
  shows "wp (fifo_release K (co_exec_fifo c)) (\<lambda>_ h'. \<not> waits K c h' \<and> frozen K c h' = frozen K c h) (\<lambda>_ _. True) h"
proof -
  have "emits (\<lambda>op. \<not> freeze_op c op) (fifo_release K (co_exec_fifo c))"
    by (rule emits_mono [OF release_calls_only]) (auto simp: freeze_op_def)
  moreover have "frozen K c (l @ h) = frozen K c h" if "list_all (\<lambda>op. \<not> freeze_op c op) l" for l
    using that assms by (induction l) (auto simp: settled_def)
  ultimately have "wp (fifo_release K (co_exec_fifo c)) (\<lambda>_ h'. frozen K c h' = frozen K c h) (\<lambda>_ h'. frozen K c h' = frozen K c h) h"
    by (rule wp_grow)
  moreover have "wp (fifo_release K (co_exec_fifo c)) (\<lambda>_ h'. \<not> waits K c h') (\<lambda>_ _. True) h"
    using assms unfolding fifo_release_def wp_simps settled_def by (auto split: option.split)
  ultimately show ?thesis by (auto simp: wp_def split: prod.splits sum.splits)
qed

lemma hooks_neutral: "emits (neutral c) (hooks_run K hs ph st)"
  by (rule emits_mono [OF hooks_run_calls]) (auto simp: freeze_op_def elim: hook_call.elims)

lemma start_step:
  assumes "settled K c"
  shows "wp (bind_p (require K c [Created]) (\<lambda>_. seq_p (fifo_release K (co_exec_fifo c))
      (bind_p (container_hooks K c) (\<lambda>hs. bind_p (State.oci_state K c) (\<lambda>state. hooks_run K hs Poststart state)))))
    (\<lambda>_ h'. step_to (life_of K c h) Start (life_of K c h')) (\<lambda>_ _. True) h"
proof (rule required_step [OF assms])
  fix h1 assume "view K c h \<in> set [Created]" and h1: "same_view K c h h1"
  then have created: "view K c h = Created" by simp
  have rest: "emits (neutral c) (bind_p (container_hooks K c) (\<lambda>hs. bind_p (State.oci_state K c) (\<lambda>state. hooks_run K hs Poststart state)))"
    by (intro emits_bind hooks_neutral queries_neutral [OF container_hooks_queries] queries_neutral [OF oci_state_queries])
  have "step_to (life_of K c h) Start (life_of K c h3)"
    if "\<not> waits K c h2 \<and> frozen K c h2 = frozen K c h1" "same_view K c h2 h3" for h2 h3
    using that h1 created unfolding step_to_def
    by (auto simp: same_view_def view_cases life_of_def split: if_splits)
  then show "wp (seq_p (fifo_release K (co_exec_fifo c))
      (bind_p (container_hooks K c) (\<lambda>hs. bind_p (State.oci_state K c) (\<lambda>state. hooks_run K hs Poststart state))))
      (\<lambda>_ h'. step_to (life_of K c h) Start (life_of K c h')) (\<lambda>_ _. True) h1"
    unfolding wp_seq
    by (intro wp_mono [OF release_takes_fifo [OF assms]] wp_mono [OF neutral_wp [OF assms rest]]) auto
qed

lemma freeze_reaches:
  assumes "settled K c"
  shows "wp (cg_freeze K (co_cgroup c) b) (\<lambda>_ h'. frozen K c h' = b) (\<lambda>_ _. True) h"
proof -
  have "frozen K c (Query q # h0) = polled K (co_cgroup c) h0" for q h0
    using assms query_neutral [of "Query q" c] by (auto simp: settled_def frozen_def)
  then show ?thesis
    unfolding cg_freeze_def cg_write_def wp_simps
    by (auto split: option.split intro!: wp_mono [OF await_frozen_wp])
qed

lemma freeze_file_apart: "path_join (cg_path cg) ''cgroup.freeze'' \<noteq> exec_fifo l cid"
proof -
  have "last (path_join a b) = last b" if "b \<noteq> []" for a b
    using that by (simp add: path_join_def)
  then have "last (path_join (cg_path cg) ''cgroup.freeze'') = CHR ''e''" "last (exec_fifo l cid) = CHR ''o''"
    by (simp_all add: exec_fifo_def EXEC_FIFO_def)
  then show ?thesis by auto
qed

lemma freeze_spares_fifo: "emits (\<lambda>op. \<not> fifo_op (co_exec_fifo c) op) (cg_freeze K (co_cgroup c) b)"
proof -
  have query: "emits (\<lambda>op. \<not> fifo_op path op) m" if "emits is_query m" for path and m :: "'b prog"
    using that by (rule emits_mono) (auto elim: is_queryE)
  have "emits (\<lambda>op. \<not> fifo_op path op) (await_frozen K cg b n)" for path cg n
    by (induction n) (auto intro!: emits_intros query [OF frozen_queries])
  then show ?thesis
    unfolding cg_freeze_def cg_write_def
    by (intro emits_intros) (auto simp: co_exec_fifo_def freeze_file_apart)
qed

lemma spared_fifo:
  assumes "settled K c" "emits (\<lambda>op. \<not> fifo_op (co_exec_fifo c) op) m"
  shows "wp m (\<lambda>_ h'. waits K c h' = waits K c h \<and> (lives K c h' \<longrightarrow> lives K c h)) (\<lambda>_ _. True) h"
proof -
  have keep: "waits K c (l @ h) = waits K c h \<and> (lives K c (l @ h) \<longrightarrow> lives K c h)"
    if "list_all (\<lambda>op. \<not> fifo_op (co_exec_fifo c) op) l" for l
    using that assms(1) by (induction l) (auto simp: settled_def)
  show ?thesis by (rule wp_mono [OF emits_wp [OF assms(2)]]) (use keep in auto)
qed

lemma pause_step:
  assumes "settled K c"
  shows "wp (bind_p (require K c (if paused then [Created, Running] else [Paused])) (\<lambda>_. cg_freeze K (co_cgroup c) paused))
    (\<lambda>_ h'. step_to (life_of K c h) (if paused then Pause else Resume) (life_of K c h')) (\<lambda>_ _. True) h"
proof (rule required_step [OF assms])
  fix h1 assume legal: "view K c h \<in> set (if paused then [Created, Running] else [Paused])" and h1: "same_view K c h h1"
  have "step_to (life_of K c h) (if paused then Pause else Resume) (life_of K c h')"
    if "frozen K c h' = paused" "waits K c h' = waits K c h1 \<and> (lives K c h' \<longrightarrow> lives K c h1)" for h'
    using that legal h1 unfolding step_to_def
    by (cases paused) (auto simp: view_cases life_of_def same_view_def split: if_splits)
  moreover have "wp (cg_freeze K (co_cgroup c) paused) (\<lambda>_ h'. frozen K c h' = paused
      \<and> waits K c h' = waits K c h1 \<and> (lives K c h' \<longrightarrow> lives K c h1)) (\<lambda>_ _. True) h1"
    using freeze_reaches [OF assms, of paused h1] spared_fifo [OF assms freeze_spares_fifo [where b = paused and K = K], of h1]
    by (auto simp: wp_def split: prod.splits sum.splits)
  ultimately show "wp (cg_freeze K (co_cgroup c) paused)
      (\<lambda>_ h'. step_to (life_of K c h) (if paused then Pause else Resume) (life_of K c h')) (\<lambda>_ _. True) h1"
    by (elim wp_mono) simp_all
qed

lemma kill_each_neutral: "emits (neutral c) (kill_each K signal pids)"
  unfolding kill_each_def by (intro emits_intros) (simp add: freeze_op_def)

lemma kill_all_same:
  assumes "settled K c"
  shows "wp (kill_all K (co_cgroup c) signal) (\<lambda>_. same_view K c h) (\<lambda>_ _. True) h"
proof -
  let ?cg = "co_cgroup c" and ?body = "bind_p (cg_procs K (co_cgroup c)) (kill_each K signal)"
  have body: "emits (neutral c) ?body"
    by (intro emits_bind queries_neutral [OF procs_queries] kill_each_neutral)
  have ask: "wp (is_frozen K ?cg) (\<lambda>b h'. b = frozen K c h \<and> same_view K c h h') (\<lambda>_ _. False) h"
    using neutral_same_view [OF assms, of "[Query (ReadFile (path_join (cg_path ?cg) ''cgroup.events''))]" h]
    unfolding wp_is_frozen by (simp add: frozen_def freeze_op_def)
  have thaw: "wp (on_result ?body (\<lambda>r. seq_p (when_p (\<not> b) (cg_freeze K ?cg False)) (lift_res r)))
      (\<lambda>_ h'. frozen K c h' = b) (\<lambda>_ _. True) h1" if "b \<longrightarrow> frozen K c h1" for b h1
  proof -
    have "wp (seq_p (when_p (\<not> b) (cg_freeze K ?cg False)) (lift_res r)) (\<lambda>_ h'. frozen K c h' = b) (\<lambda>_ _. True) h2"
      if "b \<longrightarrow> frozen K c h2" for r :: "unit res" and h2
      unfolding wp_seq using that
      by (cases b) (auto simp: wp_when wp_lift_res intro!: wp_mono [OF freeze_reaches [OF assms]] split: sum.split)
    with that show ?thesis
      unfolding wp_on_result
      by (intro wp_mono [OF neutral_wp [OF assms body]]) (auto simp: same_view_def)
  qed
  have frozen_after: "wp (seq_p (when_p (\<not> b) (cg_freeze K ?cg True))
      (on_result ?body (\<lambda>r. seq_p (when_p (\<not> b) (cg_freeze K ?cg False)) (lift_res r))))
      (\<lambda>_ h'. frozen K c h' = b) (\<lambda>_ _. True) h1" if "b \<longrightarrow> frozen K c h1" for b h1
    unfolding wp_seq using that
    by (cases b) (auto simp: wp_when thaw [of True, simplified] intro!: wp_mono [OF freeze_reaches [OF assms]] thaw [of False, simplified])
  have parts: "emits (\<lambda>op. \<not> fifo_op (co_exec_fifo c) op) ?body" "emits (\<lambda>op. \<not> fifo_op (co_exec_fifo c) op) (is_frozen K ?cg)"
    by (rule emits_mono [OF body] emits_mono [OF queries_neutral [OF frozen_queries, of c]], simp)+
  have spare: "emits (\<lambda>op. \<not> fifo_op (co_exec_fifo c) op) (kill_all K ?cg signal)"
    unfolding kill_all_def
    by (rule emits_bind [OF parts(2)], rule emits_seq [OF emits_when [OF freeze_spares_fifo]],
        rule emits_on_result [OF parts(1)], rule emits_seq [OF emits_when [OF freeze_spares_fifo] emits_lift_res])
  have "wp (kill_all K ?cg signal) (\<lambda>_ h'. frozen K c h' = frozen K c h) (\<lambda>_ _. True) h"
    unfolding kill_all_def wp_bind [of "is_frozen K ?cg"]
    by (rule wp_mono [OF ask]) (auto intro!: wp_mono [OF frozen_after] simp: same_view_def)
  with spared_fifo [OF assms spare, of h] show ?thesis
    by (auto simp: wp_def same_view_def split: prod.splits sum.splits)
qed

lemma kill_step:
  assumes "settled K c"
  shows "wp (bind_p (require K c [Created, Running, Paused]) (\<lambda>_.
      if \<not> to_all then do_op K SyscallErr (Proc (KillProc (co_pid c) signal)) else kill_all K (co_cgroup c) signal))
    (\<lambda>_ h'. step_to (life_of K c h) Kill (life_of K c h')) (\<lambda>_ _. True) h"
proof (rule required_step [OF assms])
  fix h1 assume legal: "view K c h \<in> set [Created, Running, Paused]" and h1: "same_view K c h h1"
  then have step: "step_to (life_of K c h) Kill (life_of K c h2)" if "same_view K c h1 h2" for h2
    using same_view_trans [OF h1 that] legal_views [OF legal] by (intro same_view_step) auto
  have "emits (neutral c) (do_op K SyscallErr (Proc (KillProc (co_pid c) signal)))"
    by (rule emits_do_op) (simp add: freeze_op_def)
  then have "wp (do_op K SyscallErr (Proc (KillProc (co_pid c) signal))) (\<lambda>_. same_view K c h1) (\<lambda>_ _. True) h1"
    by (intro wp_mono [OF neutral_wp [OF assms]]) simp_all
  with kill_all_same [OF assms]
  have "wp (if \<not> to_all then do_op K SyscallErr (Proc (KillProc (co_pid c) signal)) else kill_all K (co_cgroup c) signal)
      (\<lambda>_. same_view K c h1) (\<lambda>_ _. True) h1" by simp
  then show "wp (if \<not> to_all then do_op K SyscallErr (Proc (KillProc (co_pid c) signal)) else kill_all K (co_cgroup c) signal)
      (\<lambda>_ h'. step_to (life_of K c h) Kill (life_of K c h')) (\<lambda>_ _. True) h1"
    by (rule wp_mono) (simp_all add: step)
qed

text \<open>
  The limits of an update that name neither the freezer nor the fifo; only \<^verbatim>\<open>resources.unified\<close>, whose
  keys are file names, can.
\<close>

definition spares_status :: "container \<Rightarrow> resources \<Rightarrow> bool" where
  "spares_status c rs \<longleftrightarrow> list_all (\<lambda>(file, text). neutral c (Fs (WriteFile (path_join (cg_path (co_cgroup c)) file) text))) (apply_writes rs)"

lemma update_step:
  assumes "settled K c" "spares_status c rs"
  shows "wp (bind_p (require K c [Created, Running, Paused]) (\<lambda>_. cg_apply K (co_cgroup c) rs))
    (\<lambda>_ h'. step_to (life_of K c h) Update (life_of K c h')) (\<lambda>_ _. True) h"
proof (rule required_step [OF assms(1)])
  fix h1 assume legal: "view K c h \<in> set [Created, Running, Paused]" and h1: "same_view K c h h1"
  then have step: "step_to (life_of K c h) Update (life_of K c h2)" if "same_view K c h1 h2" for h2
    using same_view_trans [OF h1 that] legal_views [OF legal] by (intro same_view_step) auto
  have "emits (neutral c) (cg_apply K (co_cgroup c) rs)"
    using assms(2) unfolding cg_apply_def cg_write_def spares_status_def
    by (intro emits_each) (auto simp: list_all_iff intro!: emits_do_op)
  then show "wp (cg_apply K (co_cgroup c) rs) (\<lambda>_ h'. step_to (life_of K c h) Update (life_of K c h')) (\<lambda>_ _. True) h1"
    by (intro wp_mono [OF neutral_wp [OF assms(1)]]) (simp_all add: step)
qed

section \<open>Sessions\<close>

text \<open>A session: commands given to one container, each after the other has succeeded.\<close>

datatype action = DoStart | DoKill int bool | DoPause bool | DoUpdate resources

fun perform :: "outside \<Rightarrow> dirs \<Rightarrow> string \<Rightarrow> action \<Rightarrow> unit prog" where
  "perform K l cid DoStart = start K l cid"
| "perform K l cid (DoKill signal to_all) = kill K l cid signal to_all"
| "perform K l cid (DoPause paused) = pause K l cid paused"
| "perform K l cid (DoUpdate rs) = update K l cid rs"

fun abstract :: "action \<Rightarrow> command" where
  "abstract DoStart = Start"
| "abstract (DoKill _ _) = Kill"
| "abstract (DoPause paused) = (if paused then Pause else Resume)"
| "abstract (DoUpdate _) = Update"

fun session :: "outside \<Rightarrow> dirs \<Rightarrow> string \<Rightarrow> action list \<Rightarrow> unit prog" where
  "session K l cid [] = ret ()"
| "session K l cid (a # actions) = seq_p (perform K l cid a) (session K l cid actions)"

text \<open>A path of the abstract life; the process may end at any moment.\<close>

inductive life_path :: "life \<Rightarrow> command list \<Rightarrow> life \<Rightarrow> bool" where
  idle: "life_path s [] s"
| step: "step_to s cmd t \<Longrightarrow> life_path t cmds u \<Longrightarrow> life_path s (cmd # cmds) u"
| dies: "life_path Ended cmds u \<Longrightarrow> life_path s cmds u"

lemma next_life_ended [simp]: "next_life cmd Ended = None"
  by (cases cmd) simp_all

lemma step_to_alive: "step_to s cmd t \<Longrightarrow> s \<noteq> Ended"
  by (auto simp: step_to_def)

text \<open>A container that has been started is never waiting again, so a path has at most one start.\<close>

definition starts_left :: "life \<Rightarrow> nat" where
  "starts_left s = (case s of Alive waiting _ \<Rightarrow> if waiting then 1 else 0 | Ended \<Rightarrow> 0)"

lemma step_starts: "step_to s cmd t \<Longrightarrow> (if cmd = Start then 1 else 0) + starts_left t \<le> starts_left s"
  by (cases "(cmd, s)" rule: next_life.cases) (auto simp: step_to_def starts_left_def split: if_splits)

lemma path_starts: "life_path s cmds u \<Longrightarrow> count_list cmds Start \<le> starts_left s"
proof (induction rule: life_path.induct)
  case (step s cmd t cmds u)
  then show ?case using step_starts [OF step.hyps(1)] by (auto split: if_splits)
qed (simp_all add: starts_left_def)

definition loads_only :: "outside \<Rightarrow> dirs \<Rightarrow> string \<Rightarrow> container \<Rightarrow> bool" where
  "loads_only K l cid c \<longleftrightarrow> (\<forall>h c' h0. container_load K l cid h = (Inr c', h0) \<longrightarrow> c' = c)"

lemma perform_step:
  assumes settled: "settled K c" and loads: "loads_only K l cid c" and spares: "\<And>rs. a = DoUpdate rs \<Longrightarrow> spares_status c rs"
  shows "wp (perform K l cid a) (\<lambda>_ h'. step_to (life_of K c h) (abstract a) (life_of K c h')) (\<lambda>_ _. True) h"
proof -
  have load: "wp (container_load K l cid) (\<lambda>c' h0. c' = c \<and> same_view K c h h0) (\<lambda>_ _. True) h"
    using neutral_wp [OF settled queries_neutral [OF load_queries [of K l cid]], of h] loads
    by (auto simp: wp_def loads_only_def split: prod.splits sum.splits)
  have same: "step_to (life_of K c h) cmd t" if "step_to (life_of K c h0) cmd t" "same_view K c h h0" for h0 cmd t
    using that same_view_life [OF that(2)] step_to_alive [OF that(1)] by metis
  have known: "wp (bind_p (container_load K l cid) f) (\<lambda>_ h'. step_to (life_of K c h) cmd (life_of K c h')) (\<lambda>_ _. True) h"
    if "\<And>h0. wp (f c) (\<lambda>_ h'. step_to (life_of K c h0) cmd (life_of K c h')) (\<lambda>_ _. True) h0" for f :: "container \<Rightarrow> unit prog" and cmd
    unfolding wp_bind
    by (rule wp_mono [OF load]) (auto intro: wp_mono [OF that] same)
  show ?thesis
  proof (cases a)
    case DoStart
    show ?thesis unfolding DoStart perform.simps abstract.simps start_def by (rule known) (rule start_step [OF settled])
  next
    case (DoKill signal to_all)
    show ?thesis unfolding DoKill perform.simps abstract.simps kill_def by (rule known) (rule kill_step [OF settled])
  next
    case (DoPause paused)
    show ?thesis unfolding DoPause perform.simps abstract.simps pause_def by (rule known) (rule pause_step [OF settled])
  next
    case (DoUpdate rs)
    show ?thesis unfolding DoUpdate perform.simps abstract.simps update_def by (rule known) (rule update_step [OF settled spares [OF DoUpdate]])
  qed
qed


text \<open>The file system with one created container of \<open>Lifecycle\<close> meets the assumptions.\<close>

definition first_container :: container where
  "first_container = \<lparr>co_layout = \<lparr>root = ''/run''\<rparr>, co_state = some_state\<lparr>pe_start_time := 500\<rparr>\<rparr>"

lemma one_created_settled: "settled one_created first_container"
proof -
  have "r_err (answer one_created h (Query (ReadFile p))) = None"
    "r_text (answer one_created h (Query (ReadFile p))) = r_text (answer one_created h' (Query (ReadFile p)))" for h h' p
    by (simp_all add: one_created_def plain_reply_def)
  then have fixed: "lives one_created c h = lives one_created c h'" "frozen one_created c h = frozen one_created c h'" for c h h'
    unfolding lives_def frozen_def observed_start_def polled_def Let_def by metis+
  have "waits one_created c h \<longleftrightarrow> Fs (RmFile (co_exec_fifo c)) \<notin> set h" for c h
    by (simp add: waits_def one_created_def plain_reply_def)
  with fixed show ?thesis unfolding settled_def by auto
qed

lemma one_created_loads: "loads_only one_created \<lparr>root = ''/run''\<rparr> ''c1'' first_container"
  by (auto simp: loads_only_def one_created_def first_container_def container_load_def bind_p_def ask_def io_def call_def
      ret_def fail_def lift_res_def ok_or_def Let_def plain_reply_def split: option.splits if_splits)


end
