(* ===== verification/Startup.thy ===== *)
theory Startup
  imports Commands
begin

text \<open>
  \<^verbatim>\<open>src/src/main.rs\<close> and \<^verbatim>\<open>src/src/logging.rs\<close>: choosing the filter, the sink and
  the format of the log, running the command, and turning its outcome into the exit code of the
  process. The log lines that the command writes are the work of the \<^verbatim>\<open>tracing\<close> library and
  are left out.
\<close>

section \<open>The log\<close>

datatype log_sink = StdErr | LogFile int

record log_setup =
  lg_filter :: string
  lg_sink :: log_sink
  lg_json :: bool
  lg_target :: bool
  lg_ansi :: bool

text \<open>
  \<open>fr_log_env\<close> is the filter of \<^verbatim>\<open>MARS_LOG\<close>, if the variable is set and the library
  can parse it.
\<close>

definition log_filter :: "frontend \<Rightarrow> cli \<Rightarrow> string" where
  "log_filter J c = get_or (if cl_debug c then ''debug'' else ''info'') (fr_log_env J)"

definition logging_init :: "outside \<Rightarrow> frontend \<Rightarrow> cli \<Rightarrow> log_setup prog" where
  "logging_init K J c =
     bind_p (case cl_log c of
         Some path \<Rightarrow> io K (IoErr ''open log file'') (Fd (OpenFd path OAppend)) (\<lambda>r. LogFile (r_num r))
       | None \<Rightarrow> ret StdErr) (\<lambda>sink.
     ret \<lparr>lg_filter = log_filter J c, lg_sink = sink, lg_json = (cl_log_format c = LogJson),
        lg_target = False, lg_ansi = False\<rparr>)"

section \<open>The process\<close>

text \<open>
  \<^verbatim>\<open>eprintln!\<close> panics when standard error cannot be written. A panic ends the process with
  101, every other error with \<^verbatim>\<open>ExitCode::FAILURE\<close>.
\<close>

definition complaint :: "error \<Rightarrow> string" where
  "complaint e = ''mars: '' @ error_text e @ [CHR 0x0A]"

definition complain :: "outside \<Rightarrow> error \<Rightarrow> nat prog" where
  "complain K e = seq_p (do_op K (\<lambda>_. Panicked) (Tty (PrintErr (complaint e)))) (ret 1)"

definition main_body :: "outside \<Rightarrow> frontend \<Rightarrow> cli \<Rightarrow> nat prog" where
  "main_body K J c =
     on_result (logging_init K J c) (\<lambda>ready. case ready of
       Inl e \<Rightarrow> complain K e
     | Inr _ \<Rightarrow> on_result (dispatch K J c) (\<lambda>r. case r of
         Inr code \<Rightarrow> ret code
       | Inl e \<Rightarrow> if e = Panicked then fail Panicked else complain K e))"

definition main_exit :: "outside \<Rightarrow> frontend \<Rightarrow> cli \<Rightarrow> nat prog" where
  "main_exit K J c = or_else 101 (main_body K J c)"

section \<open>Properties\<close>

text \<open>What the process says last before it ends with an error.\<close>

definition complained :: "error \<Rightarrow> history \<Rightarrow> bool" where
  "complained e h \<longleftrightarrow> e \<noteq> Panicked \<and> (\<exists>h0. h = Tty (PrintErr (complaint e)) # h0)"

lemma wp_complain: "wp (complain K e) (\<lambda>code h'. code = 1 \<and> h' = Tty (PrintErr (complaint e)) # h) (\<lambda>e' _. e' = Panicked) h"
  by (simp add: complain_def wp_simps split: option.split)


end
