(* ===== verification/Handshake.thy ===== *)
theory Handshake
  imports Lifecycle
begin

text \<open>
  The three processes that create a container talk over one channel: the runtime holds one end, the
  intermediate process and the init, which it forks, share the other. Here the protocol is stated as
  one automaton for each role, every process is shown to follow the automaton of its role, and the
  three automata together, with messages in transit, failures and closed ends, are shown to end.
\<close>

section \<open>The roles\<close>

text \<open>
  Where a process is in the conversation: before the fork, then as the runtime (\<open>Rt\<close>), as the
  intermediate process (\<open>Inter\<close>) or as the init (\<open>Init\<close>). \<open>RtOver\<close> and \<open>ChildOver\<close> are the ends by a
  failure, \<open>Lost\<close> a breach of the protocol.
\<close>

datatype talk =
    Idle | Opened
  | RtListening | RtMapping | RtMapped | RtPlacing | RtReleased | RtReady | RtOver
  | InterFresh | InterAsked | InterMapped | InterForked | InterDone
  | InitWaiting | InitPlaced | InitDone
  | ChildOver | Lost

definition rt_role :: "talk \<Rightarrow> bool" where
  "rt_role t \<longleftrightarrow> t \<in> {RtListening, RtMapping, RtMapped, RtPlacing, RtReleased, RtReady, RtOver}"

definition child_role :: "talk \<Rightarrow> bool" where
  "child_role t \<longleftrightarrow> t \<in> {InterFresh, InterAsked, InterMapped, InterForked, InterDone, InitWaiting, InitPlaced,
     InitDone, ChildOver}"

text \<open>Waiting for a message, and what the role makes of one.\<close>

definition listens :: "talk \<Rightarrow> bool" where
  "listens t \<longleftrightarrow> t \<in> {RtListening, RtMapped, RtReleased, InterAsked, InitWaiting}"

definition over :: "talk \<Rightarrow> talk" where
  "over t = (if rt_role t then RtOver else if child_role t then ChildOver else Lost)"

definition refuse :: "talk \<Rightarrow> talk" where
  "refuse t = (if listens t then over t else Lost)"

definition hear :: "talk \<Rightarrow> message \<Rightarrow> talk" where
  "hear t m = (case m of
     RequestUserMapping \<Rightarrow> if t = RtListening then RtMapping else refuse t
   | UserMappingDone \<Rightarrow> if t = InterAsked then InterMapped else refuse t
   | InitPid _ _ \<Rightarrow> if t = RtListening \<or> t = RtMapped then RtPlacing else refuse t
   | CgroupApplied _ \<Rightarrow> if t = InitWaiting then InitPlaced else refuse t
   | InitReady _ \<Rightarrow> if t = RtReleased then RtReady else refuse t
   | Failed _ \<Rightarrow> refuse t)"

text \<open>A child may report a failure at any time; the runtime reports none.\<close>

definition say :: "talk \<Rightarrow> message \<Rightarrow> talk" where
  "say t m = (case m of
     RequestUserMapping \<Rightarrow> if t = InterFresh then InterAsked else Lost
   | UserMappingDone \<Rightarrow> if t = RtMapping then RtMapped else Lost
   | InitPid _ _ \<Rightarrow> if t = InterForked then InterDone else Lost
   | CgroupApplied _ \<Rightarrow> if t = RtPlacing then RtReleased else Lost
   | InitReady _ \<Rightarrow> if t = InitPlaced then InitDone else Lost
   | Failed _ \<Rightarrow> if child_role t then ChildOver else Lost)"

definition forks :: "talk \<Rightarrow> bool \<Rightarrow> talk" where
  "forks t in_child =
     (if t = Opened then if in_child then InterFresh else RtListening
      else if t = InterFresh \<or> t = InterMapped then if in_child then InitWaiting else InterForked
      else Lost)"

lemmas talk_defs = rt_role_def child_role_def listens_def over_def refuse_def hear_def say_def forks_def

section \<open>The conversation of a process\<close>

text \<open>
  Where the conversation is, read off the calls a process has made, most recent first. A message
  that could not be sent, and a read that fails or finds the other end closed, ends it.
\<close>

fun talk_step :: "outside \<Rightarrow> history \<Rightarrow> talk \<Rightarrow> sysop \<Rightarrow> talk" where
  "talk_step K h t (Chan ChanPair) =
     (if t \<noteq> Idle then Lost else if r_err (answer K h (Chan ChanPair)) = None then Opened else Idle)"
| "talk_step K h t (Chan (ChanSend m)) =
     (if r_err (answer K h (Chan (ChanSend m))) = None then say t m else over t)"
| "talk_step K h t (Chan ChanRecv) =
     (case received K h of Inr m \<Rightarrow> hear t m | Inl _ \<Rightarrow> refuse t)"
| "talk_step K h t (Proc Fork) =
     (let r = answer K h (Proc Fork) in
      if r_err r \<noteq> None then (if t = Opened then t else over t) else forks t (r_num r = 0))"
| "talk_step K h t _ = t"

fun talk_of :: "outside \<Rightarrow> history \<Rightarrow> talk" where
  "talk_of K [] = Idle"
| "talk_of K (op # h) = talk_step K h (talk_of K h) op"

lemma talk_step_hush: "hush op \<Longrightarrow> talk_step K h t op = t"
  by (cases "(K, h, t, op)" rule: talk_step.cases) auto

lemma talk_hush: "list_all hush l \<Longrightarrow> talk_of K (l @ h) = talk_of K h"
  by (induction l) (auto simp: talk_step_hush)

section \<open>Following a role\<close>

text \<open>
  \<open>converses K E t m Q\<close>: started at the point \<open>t\<close> of the conversation, \<open>m\<close> ends with a value and at a
  point in \<open>Q\<close>, or with an error and at a point in \<open>E\<close>. One rule for each way a process goes on.
\<close>

definition converses :: "outside \<Rightarrow> (talk \<Rightarrow> bool) \<Rightarrow> talk \<Rightarrow> 'a prog \<Rightarrow> ('a \<Rightarrow> talk \<Rightarrow> bool) \<Rightarrow> bool" where
  "converses K E t m Q \<longleftrightarrow>
     (\<forall>h. talk_of K h = t \<longrightarrow> wp m (\<lambda>x h'. Q x (talk_of K h')) (\<lambda>_ h'. E (talk_of K h')) h)"

lemma conversesD:
  "converses K E t m Q \<Longrightarrow> talk_of K h = t \<Longrightarrow> wp m (\<lambda>x h'. Q x (talk_of K h')) (\<lambda>_ h'. E (talk_of K h')) h"
  by (simp add: converses_def)

lemma converses_bind:
  assumes "converses K E t m R" "\<And>x t'. R x t' \<Longrightarrow> converses K E t' (f x) Q"
  shows "converses K E t (bind_p m f) Q"
  unfolding converses_def wp_bind
  by (intro allI impI, rule wp_mono [OF conversesD [OF assms(1)]]) (auto intro: conversesD assms(2))

lemma converses_result:
  assumes "converses K E t m R" "\<And>x t'. R x t' \<Longrightarrow> converses K E' t' (f (Inr x)) Q" "\<And>e t'. E t' \<Longrightarrow> converses K E' t' (f (Inl e)) Q"
  shows "converses K E' t (on_result m f) Q"
  unfolding converses_def wp_on_result
  by (intro allI impI, rule wp_mono [OF conversesD [OF assms(1)]]) (auto intro: conversesD assms(2,3))

lemma converses_mono:
  "converses K E t m Q \<Longrightarrow> (\<And>x t'. Q x t' \<Longrightarrow> R x t') \<Longrightarrow> (\<And>t'. E t' \<Longrightarrow> E' t') \<Longrightarrow> converses K E' t m R"
  unfolding converses_def by (blast intro: wp_mono)

lemma converses_ret: "Q x t \<Longrightarrow> converses K E t (ret x) Q"
  by (simp add: converses_def wp_ret)

lemma converses_fail: "E t \<Longrightarrow> converses K E t (fail e) Q"
  by (simp add: converses_def wp_fail)

lemma converses_if:
  "(b \<Longrightarrow> converses K E t m Q) \<Longrightarrow> (\<not> b \<Longrightarrow> converses K E t n Q) \<Longrightarrow> converses K E t (if b then m else n) Q"
  by simp

lemma converses_lift: "E t \<Longrightarrow> (\<And>x. r = Inr x \<Longrightarrow> Q x t) \<Longrightarrow> converses K E t (lift_res r) Q"
  by (auto simp: converses_def wp_lift_res split: sum.split)

lemma converses_hush: "emits hush m \<Longrightarrow> E t \<Longrightarrow> (\<And>x. Q x t) \<Longrightarrow> converses K E t m Q"
  unfolding converses_def
  by (intro allI impI, rule wp_mono [OF wp_grow [where Q = "\<lambda>h'. talk_of K h' = t"]]) (auto simp: talk_hush)

lemma converses_ask: "hush op \<Longrightarrow> Q t \<Longrightarrow> converses K E t (ask K op f) (\<lambda>_. Q)"
  by (auto simp: converses_def wp_ask talk_step_hush)

lemma hush_bind: "emits hush m \<Longrightarrow> E t \<Longrightarrow> (\<And>x. converses K E t (f x) Q) \<Longrightarrow> converses K E t (bind_p m f) Q"
  by (rule converses_bind [OF converses_hush [where Q = "\<lambda>_ t'. t' = t"]]) auto

lemma hush_seq: "emits hush m \<Longrightarrow> E t \<Longrightarrow> converses K E t n Q \<Longrightarrow> converses K E t (seq_p m n) Q"
  unfolding seq_p_def by (rule hush_bind)

lemma converses_send: "E (over t) \<Longrightarrow> Q () (say t m) \<Longrightarrow> converses K E t (send K m) Q"
  by (auto simp: converses_def wp_send split: option.split)

lemma send_seq: "E (over t) \<Longrightarrow> converses K E (say t m) n Q \<Longrightarrow> converses K E t (seq_p (send K m) n) Q"
  unfolding seq_p_def by (rule converses_bind [OF converses_send [where Q = "\<lambda>_ t'. t' = say t m"]]) auto

lemma converses_recv: "E (refuse t) \<Longrightarrow> (\<And>m. Q m (hear t m)) \<Longrightarrow> converses K E t (recv K) Q"
  by (auto simp: converses_def wp_recv split: sum.split)

lemma recv_bind:
  "E (refuse t) \<Longrightarrow> (\<And>m. converses K E (hear t m) (f m) Q) \<Longrightarrow> converses K E t (bind_p (recv K) f) Q"
  by (rule converses_bind [OF converses_recv [where Q = "\<lambda>m t'. t' = hear t m"]]) auto

lemma expect_bind:
  assumes "E (refuse t)" "\<And>m. E (hear t m)" "\<And>m. message_kind m = want \<Longrightarrow> converses K E (hear t m) (f m) Q"
  shows "converses K E t (bind_p (expect K want) f) Q"
proof (rule converses_bind)
  show "converses K E t (expect K want) (\<lambda>m t'. t' = hear t m \<and> message_kind m = want)"
    unfolding expect_def by (rule recv_bind) (auto intro: assms(1,2) converses_lift simp: expected_Inr)
qed (auto intro: assms(3))

lemma converses_pair: "Q Opened \<Longrightarrow> E Idle \<Longrightarrow> converses K E Idle (channel_pair K) (\<lambda>_. Q)"
  by (auto simp: converses_def channel_pair_def wp_do_op split: option.split)

lemma first_fork:
  assumes "E Opened" "\<And>pid. converses K E (if pid = 0 then InterFresh else RtListening) (f pid) Q"
  shows "converses K E Opened (bind_p (io K c (Proc Fork) r_num) f) Q"
proof (rule converses_bind)
  show "converses K E Opened (io K c (Proc Fork) r_num) (\<lambda>pid t'. t' = (if pid = 0 then InterFresh else RtListening))"
    using assms(1) by (auto simp: converses_def wp_io Let_def forks_def split: option.split)
qed (erule ssubst, rule assms(2))

lemma fork_bind:
  assumes "t \<noteq> Opened" "E (over t)" "\<And>pid. converses K E (forks t (pid = 0)) (f pid) Q"
  shows "converses K E t (bind_p (io K c (Proc Fork) r_num) f) Q"
proof (rule converses_bind)
  show "converses K E t (io K c (Proc Fork) r_num) (\<lambda>pid t'. t' = forks t (pid = 0))"
    using assms(1,2) by (auto simp: converses_def wp_io Let_def split: option.split)
qed (auto intro: assms(3))

section \<open>The runtime\<close>

lemma clock_hush:
  "emits hush (recorder_new K)" "emits hush (rec_end K c)" "emits hush (rec_begin K n c)" "emits hush (rec_take K c)"
  "emits hush (elapsed_us K c)"
  unfolding elapsed_us_def by (auto intro!: own_hush clock_own emits_intros)

lemma mapping_hush: "emits hush (userns_write K pid ms privileged)"
proof -
  have "emits hush (write_one K pid map ms privileged helper)" for map ms helper
    unfolding write_one_def run_helper_def
    by (intro emits_intros emits_mono [OF locate_calls]) (auto intro!: emits_intros split: wait_status.split)
  then show ?thesis unfolding userns_write_def deny_setgroups_def by (intro emits_intros) auto
qed

lemma attach_hush: "emits hush (cg_add_process K cg pid)"
  unfolding cg_add_process_def cg_write_def by (intro emits_intros) simp

lemma record_hush: "emits hush (handshake_record K p cg l opts init)"
proof -
  have "\<exists>f. op = Fs f \<Longrightarrow> hush op" for op by auto
  then show ?thesis
    unfolding handshake_record_def start_time_def now_rfc3339_def write_pid_file_def
    by (intro emits_intros emits_mono [OF save_calls]) auto
qed

lemma rt_roles [simp]:
  "rt_role RtListening" "rt_role RtMapping" "rt_role RtMapped" "rt_role RtPlacing" "rt_role RtReleased"
  "rt_role RtReady" "rt_role RtOver"
  by (simp_all add: rt_role_def)

lemma rt_hears [simp]: "rt_role t \<Longrightarrow> listens t \<Longrightarrow> rt_role (hear t m)"
  by (auto simp: talk_defs split: message.split)

lemma rt_refuses [simp]: "rt_role t \<Longrightarrow> listens t \<Longrightarrow> rt_role (refuse t)" "rt_role t \<Longrightarrow> rt_role (over t)"
  by (simp_all add: refuse_def over_def)

lemma init_pid_heard: "expect_init_pid m = Inr x \<Longrightarrow> \<exists>pid phases. m = InitPid pid phases"
  by (cases m) (auto simp: expect_init_pid_def)

lemma answer_mapping_talks:
  "converses K rt_role (hear RtListening m) (answer_mapping K b pid m)
     (\<lambda>m' t. rt_role t \<and> (\<forall>x. expect_init_pid m' = Inr x \<longrightarrow> t = RtPlacing))"
proof (cases "m = RequestUserMapping")
  case True
  have recv: "converses K rt_role RtMapped (recv K)
      (\<lambda>m' t. rt_role t \<and> (\<forall>x. expect_init_pid m' = Inr x \<longrightarrow> t = RtPlacing))"
    by (rule converses_recv) (auto dest!: init_pid_heard simp: talk_defs split: message.split)
  have mapping: "hear RtListening m = RtMapping" and said: "say RtMapping UserMappingDone = RtMapped"
    using True by (simp_all add: hear_def say_def)
  have root: "emits hush (ask K (Cred GetEuid) f)" for f :: "reply \<Rightarrow> bool" by (intro emits_intros) simp
  have "converses K rt_role RtMapping (bind_p (ask K (Cred GetEuid) (\<lambda>r. r_num r = 0)) (\<lambda>privileged.
      seq_p (userns_write K pid (bu_id_mappings b) privileged) (seq_p (send K UserMappingDone) (recv K))))
      (\<lambda>m' t. rt_role t \<and> (\<forall>x. expect_init_pid m' = Inr x \<longrightarrow> t = RtPlacing))"
    by (intro hush_bind [OF root] hush_seq [OF mapping_hush] send_seq, unfold said) (rule recv | simp)+
  with True mapping show ?thesis by (simp add: answer_mapping_def)
next
  case False
  moreover have "rt_role (hear RtListening m)" by (simp add: listens_def)
  moreover have "hear RtListening m = RtPlacing" if "expect_init_pid m = Inr x" for x
    using init_pid_heard [OF that] by (auto simp: hear_def)
  ultimately show ?thesis
    unfolding answer_mapping_def by (auto intro!: converses_ret)
qed

lemma handshake_attach_talks:
  "converses K rt_role RtListening (handshake_attach K child p cg clock forked_at) (\<lambda>_ t. t = RtPlacing)"
proof -
  have reap: "emits hush (do_op K SyscallErr (Proc (WaitPid (Some child))))" by (intro emits_intros) simp
  have rest: "converses K rt_role RtPlacing
     (bind_p (rec_begin K n c) (\<lambda>clock. seq_p (do_op K SyscallErr (Proc (WaitPid (Some child))))
       (bind_p (rec_begin K n' clock) (\<lambda>clock. seq_p (cg_add_process K cg init) (ret (init, clock)))))) (\<lambda>_ t. t = RtPlacing)"
    for n n' c init
    by (intro hush_bind [OF clock_hush(3)] hush_seq [OF reap] hush_seq [OF attach_hush] converses_ret; simp)
  have pid: "converses K rt_role t (lift_res (expect_init_pid m)) (\<lambda>_ t. t = RtPlacing)"
    if "rt_role t \<and> (\<forall>x. expect_init_pid m = Inr x \<longrightarrow> t = RtPlacing)" for m t
    using that by (intro converses_lift) auto
  show ?thesis
    unfolding handshake_attach_def Let_def
    by (rule hush_bind [OF clock_hush(3)], simp, rule recv_bind, simp add: listens_def,
        rule converses_bind [OF answer_mapping_talks], rule converses_bind [OF pid], assumption)
      (auto intro: rest split: prod.split)
qed

lemma handshake_hooks_talks:
  "converses K rt_role RtPlacing (handshake_hooks K p init clock) (\<lambda>_ t. t = RtPlacing)"
  unfolding handshake_hooks_def Let_def
  by (intro hush_bind [OF clock_hush(3)] hush_seq [OF own_hush [OF hooks_run_own]] converses_ret; simp)

lemma handshake_finish_talks:
  "converses K rt_role RtReleased (handshake_finish K p cg l opts init clock started) (\<lambda>_ t. t = RtReady)"
proof -
  have ready: "hear RtReleased m = RtReady" if "message_kind m = ''InitReady''" for m
    using that by (cases m) (simp_all add: hear_def)
  have rest: "converses K rt_role RtReady (lift_res (ready_phases m)) (\<lambda>_ t. t = RtReady)" for m
    by (rule converses_lift) simp_all
  show ?thesis
    unfolding handshake_finish_def
  proof (rule expect_bind)
    fix m assume "message_kind m = ''InitReady''"
    then show "converses K rt_role (hear RtReleased m) (bind_p (lift_res (ready_phases m)) (\<lambda>phases.
        bind_p (rec_begin K ''state'' clock) (\<lambda>clock. seq_p (handshake_record K p cg l opts init)
        (bind_p (rec_end K clock) (\<lambda>clock. ret (absorb ''init'' started phases clock)))))) (\<lambda>_ t. t = RtReady)"
      unfolding ready [OF \<open>message_kind m = ''InitReady''\<close>]
      by (intro converses_bind [OF rest])
        (auto intro!: hush_bind [OF clock_hush(3)] hush_seq [OF record_hush] hush_bind [OF clock_hush(2)] converses_ret)
  qed (simp_all add: listens_def)
qed

lemma handshake_talks:
  "converses K rt_role RtListening (handshake K child p cg l opts clock forked_at) (\<lambda>_ t. t = RtReady)"
proof -
  have said: "say RtPlacing (CgroupApplied init) = RtReleased" for init by (simp add: say_def)
  have tail: "converses K rt_role RtPlacing (bind_p (handshake_hooks K p init clock) (\<lambda>clock.
      bind_p (rec_begin K ''init'' clock) (\<lambda>clock. bind_p (elapsed_us K clock) (\<lambda>started.
      seq_p (send K (CgroupApplied init)) (handshake_finish K p cg l opts init clock started))))) (\<lambda>_ t. t = RtReady)"
    for init clock
    by (rule converses_bind [OF handshake_hooks_talks])
      (auto intro!: hush_bind [OF clock_hush(3)] hush_bind [OF clock_hush(5)] send_seq simp: said handshake_finish_talks)
  show ?thesis
    unfolding handshake_def
    by (rule converses_bind [OF handshake_attach_talks]) (auto intro: tail split: prod.split)
qed

section \<open>The intermediate process and the init\<close>

lemma child_roles [simp]:
  "child_role InterFresh" "child_role InterAsked" "child_role InterMapped" "child_role InterForked" "child_role InterDone"
  "child_role InitWaiting" "child_role InitPlaced" "child_role InitDone" "child_role ChildOver"
  by (simp_all add: child_role_def)

lemma child_over [simp]: "child_role t \<Longrightarrow> over t = ChildOver"
  by (auto simp: over_def rt_role_def child_role_def)

lemma child_hears [simp]:
  "child_role t \<Longrightarrow> listens t \<Longrightarrow> child_role (hear t m)" "child_role t \<Longrightarrow> listens t \<Longrightarrow> child_role (refuse t)"
  by (auto simp: talk_defs split: message.split)

definition child_end :: "talk \<Rightarrow> bool" where
  "child_end t \<longleftrightarrow> t \<in> {InterDone, InitDone, ChildOver}"

lemma exit_hush: "emits hush (exit_with K code)"
  unfolding exit_with_def by (intro emits_intros) simp

text \<open>
  A report of a failure ends the conversation of the child, whether it arrives or not, and the process
  does not return.
\<close>

lemma leave_talks:
  "converses K E ChildOver (leave_quietly K e) (\<lambda>_. child_end)" "converses K E ChildOver (leave_loudly K e) (\<lambda>_. child_end)"
proof -
  have exits: "converses K E ChildOver (exit_with K code) (\<lambda>_. child_end)" for code
    unfolding exit_with_def by (rule converses_ask) (simp_all add: child_end_def)
  then show "converses K E ChildOver (leave_quietly K e) (\<lambda>_. child_end)" by (simp add: leave_quietly_def)
  show "converses K E ChildOver (leave_loudly K e) (\<lambda>_. child_end)"
    unfolding leave_loudly_def die_def
    by (rule converses_bind [OF converses_ask [where Q = "\<lambda>t. t = ChildOver"]]) (auto intro: exits)
qed

lemma report_failure_talks:
  assumes m: "converses K child_role t m (\<lambda>_. child_end)"
    and leave: "\<And>e. converses K E ChildOver (leave e) (\<lambda>_. child_end)"
  shows "converses K E t (report_failure K leave m) (\<lambda>_. child_end)"
  unfolding report_failure_def
proof (rule converses_result [OF m])
  fix e t' assume t': "child_role t'"
  have "converses K E t' (ignore (send K (Failed (error_text e)))) (\<lambda>_ t. t = ChildOver)"
    unfolding ignore_def
    by (rule converses_result [OF converses_send [where E = "\<lambda>t. t = ChildOver" and Q = "\<lambda>_ t. t = ChildOver"]])
      (auto intro: converses_ret simp: t' say_def)
  then show "converses K E t' (case Inl e of Inl e \<Rightarrow> seq_p (ignore (send K (Failed (error_text e)))) (leave e)
      | Inr _ \<Rightarrow> ret ()) (\<lambda>_. child_end)"
    unfolding sum.case seq_p_def by (rule converses_bind) (auto intro: leave)
qed (auto intro: converses_ret)

lemma container_init_talks:
  "converses K child_role InitWaiting (container_init K p) (\<lambda>_ t. t = InitDone)"
proof -
  have placed: "hear InitWaiting m = InitPlaced" if "message_kind m = ''CgroupApplied''" for m
    using that by (cases m) (simp_all add: hear_def)
  have said: "say InitPlaced (InitReady phases) = InitDone" for phases by (simp add: say_def)
  have host_pid: "converses K child_role InitWaiting (init_host_pid K) (\<lambda>_ t. t = InitPlaced)"
    unfolding init_host_pid_def
    by (rule expect_bind)
      (auto simp: placed listens_def intro: converses_ret converses_fail split: message.split)
  have park: "emits hush (fifo_park K fd)" for fd unfolding fifo_park_def by (intro emits_intros; simp)
  have calls: "emits hush (do_op K c (Proc (Execve program argv env)))" "emits hush (when_p b (do_op K c (Ns op)))"
    for c program argv env b op
    by (intro emits_intros; simp)+
  have tail: "converses K child_role InitPlaced (bind_p (rec_take K clock) (\<lambda>(phases, _).
         seq_p (send K (InitReady phases))
         (seq_p (fifo_park K (pl_fifo p))
         (seq_p (hooks_run K hs StartContainer st)
         (seq_p (unblock_all K) (do_op K SyscallErr (Proc (Execve program argv env)))))))) (\<lambda>_ t. t = InitDone)"
    for clock hs st program argv env
    by (rule hush_bind [OF clock_hush(4)])
      (auto intro!: send_seq hush_seq [OF park] hush_seq [OF own_hush [OF hooks_run_own]]
        hush_seq [OF own_hush [OF unblock_all_own]] converses_hush calls simp: said split: prod.split)
  show ?thesis
    unfolding container_init_def
    apply (rule converses_bind [OF host_pid], unfold case_prod_beta)
    apply (hypsubst, (rule tail [unfolded case_prod_beta] | rule hush_bind hush_seq, rule steps_own [THEN own_hush] calls clock_hush, simp)+)
    done
qed

lemma join_hush: "emits hush (join_existing K p)"
  unfolding join_existing_def join_one_def by (intro emits_intros) auto

lemma unshare_hush: "emits hush (unshare_each K p order clock)"
proof (induction order arbitrary: clock)
  case (Cons x order)
  then show ?case
    by (cases x) (auto simp: write_time_offsets_def intro!: emits_intros clock_hush)
qed (simp add: emits_ret)

lemma map_users_talks:
  "converses K child_role InterFresh (map_users K p clock) (\<lambda>_ t. t \<in> {InterFresh, InterMapped})"
proof -
  have root: "emits hush (become_root_in_namespace K)"
    unfolding become_root_in_namespace_def by (intro emits_intros; simp)
  have mapped: "hear InterAsked m = InterMapped" if "message_kind m = ''UserMappingDone''" for m
    using that by (cases m) (simp_all add: hear_def)
  have said: "say InterFresh RequestUserMapping = InterAsked" by (simp add: say_def)
  show ?thesis
    unfolding map_users_def
    by (auto intro!: converses_ret hush_bind [OF clock_hush(3)] send_seq expect_bind hush_seq [OF root]
        simp: said mapped listens_def)
qed

lemma stage_one_talks: "converses K child_role InterFresh (stage_one K p) (\<lambda>_. child_end)"
proof -
  have forked: "forks t False = InterForked" "forks t True = InitWaiting" if "t \<in> {InterFresh, InterMapped}" for t
    using that by (auto simp: forks_def)
  have said: "say InterForked (InitPid pid phases) = InterDone" for pid phases by (simp add: say_def)
  have parent: "converses K child_role InterForked (bind_p (rec_take K clock) (\<lambda>(phases, _).
      seq_p (send K (InitPid pid phases)) (exit_with K 0))) (\<lambda>_. child_end)" for clock pid
    by (rule hush_bind [OF clock_hush(4)])
      (auto intro!: send_seq converses_hush exit_hush simp: said child_end_def split: prod.split)
  have init: "converses K child_role InitWaiting (report_failure K (leave_loudly K) (container_init K p)) (\<lambda>_. child_end)"
    by (rule report_failure_talks [OF converses_mono [OF container_init_talks] leave_talks(2)]) (simp_all add: child_end_def)
  have fork: "converses K child_role t (bind_p (io K SyscallErr (Proc Fork) r_num) (\<lambda>child.
      if child \<noteq> 0 then bind_p (rec_take K clock) (\<lambda>(phases, _). seq_p (send K (InitPid child phases)) (exit_with K 0))
      else report_failure K (leave_loudly K) (container_init K p))) (\<lambda>_. child_end)" if "t \<in> {InterFresh, InterMapped}" for t clock
  proof (rule fork_bind)
    fix pid :: int
    show "converses K child_role (forks t (pid = 0)) (if pid \<noteq> 0
        then bind_p (rec_take K clock) (\<lambda>(phases, _). seq_p (send K (InitPid pid phases)) (exit_with K 0))
        else report_failure K (leave_loudly K) (container_init K p)) (\<lambda>_. child_end)"
      using that by (cases "pid = 0") (simp_all add: forked parent init)
  qed (use that in auto)
  show ?thesis
    unfolding stage_one_def
    apply (rule hush_bind [OF clock_hush(1)], simp)
    apply (rule hush_bind [OF clock_hush(3)], simp)
    apply (rule hush_seq [OF join_hush], simp)
    apply (rule hush_bind [OF unshare_hush], simp)
    apply (rule converses_bind [OF map_users_talks])
    apply (rule hush_bind [OF clock_hush(3)])
    apply (auto intro: fork)
    done
qed

section \<open>Every process follows its role\<close>

lemma create_parts_hush:
  "emits hush (fifo_create K path)" "emits hush (open_socket K path)" "emits hush (block_forwardable K)"
  "emits hush (teardown K cg)" "emits hush (cg_apply K cg rs)" "emits hush (cg_destroy K cg)"
  "emits hush (container_load K l cid)" "emits hush (container_status K c)"
proof -
  show "emits hush (fifo_create K path)" unfolding fifo_create_def by (intro emits_intros) auto
  show "emits hush (open_socket K path)" unfolding open_socket_def by (intro emits_intros) auto
  show "emits hush (block_forwardable K)" unfolding block_forwardable_def by (intro emits_intros) auto
  have procs: "emits hush (cg_procs K cg)"
    by (rule emits_mono [OF procs_queries]) (auto elim: is_queryE)
  have reap: "emits hush (reap_all K n)" for n by (induction n) (auto intro!: emits_intros)
  have "emits hush (await_empty K cg n)" for n
    by (induction n) (auto intro!: emits_intros reap procs)
  then show "emits hush (teardown K cg)"
    unfolding teardown_def kill_quietly_def by (intro emits_intros procs) auto
  show "emits hush (cg_apply K cg rs)" unfolding cg_apply_def cg_write_def by (intro emits_intros) auto
  show "emits hush (cg_destroy K cg)"
    by (rule emits_mono [OF destroy_calls]) (auto split: sysop.splits)
  show "emits hush (container_load K l cid)" by (rule emits_mono [OF load_queries]) (auto elim: is_queryE)
  show "emits hush (container_status K c)" by (rule emits_mono [OF status_queries]) (auto elim: is_queryE)
qed

definition rt_end :: "talk \<Rightarrow> bool" where
  "rt_end t \<longleftrightarrow> rt_role t \<or> t = Idle \<or> t = Opened"

text \<open>In a forked child creating has no result; it ends as the process does.\<close>

definition created_end :: "'a option \<Rightarrow> talk \<Rightarrow> bool" where
  "created_end finished t \<longleftrightarrow> (if finished = None then child_end t else t = RtReady)"

lemma spawn_talks:
  "converses K rt_end Idle (spawn K l b opts rootfs overlay flags join cgroup_ns cg clock)
     created_end"
proof -
  have ops: "emits hush (do_op K SyscallErr (Proc SubReaper))" "emits hush (ignore (do_op K SyscallErr (Fs (RmFile f))))" for f
    by (intro emits_intros; simp)+
  have sock: "emits hush (case cr_console_socket opts of
      Some path \<Rightarrow> bind_p (open_socket K path) (\<lambda>fd. ret (Some fd)) | None \<Rightarrow> ret None)"
    by (intro emits_intros create_parts_hush)
  have parent: "converses K rt_end RtListening (bind_p (spawn_parent K pid p cg l opts clock at) (\<lambda>clock. ret (Some clock))) created_end"
    for pid p clock at
  proof (rule converses_bind)
    show "converses K rt_end RtListening (spawn_parent K pid p cg l opts clock at) (\<lambda>_ t. t = RtReady)"
      unfolding spawn_parent_def
      by (rule converses_result [OF handshake_talks])
        (auto intro!: converses_ret converses_fail hush_seq [OF ops(2)] hush_seq [OF create_parts_hush(4)] simp: rt_end_def)
  qed (auto intro: converses_ret simp: created_end_def)
  have child: "converses K rt_end InterFresh (seq_p (intermediate K p) (ret None)) created_end" for p
    unfolding seq_p_def intermediate_def
    by (rule converses_bind [OF report_failure_talks [OF stage_one_talks leave_talks(1)]]) (auto intro: converses_ret simp: created_end_def)
  have start: "rt_end Idle" "rt_end Opened" by (simp_all add: rt_end_def)
  show ?thesis
    unfolding spawn_def Let_def
    by (intro hush_bind [OF create_parts_hush(1)] hush_bind [OF sock] hush_seq [OF ops(1)] hush_seq [OF create_parts_hush(3)]
        start)
      (unfold seq_p_def,
       auto intro!: converses_bind [OF converses_pair [where Q = "\<lambda>t. t = Opened"]] hush_bind [OF clock_hush(3)]
         hush_bind [OF clock_hush(5)] first_fork start parent child [unfolded seq_p_def])
qed

lemma build_talks: "converses K rt_end Idle (build K l b opts clock) created_end"
proof -
  have start: "rt_end Idle" by (simp add: rt_end_def)
  have ops: "emits hush (ask K (Query q) f)" "emits hush (lift_res r)" "emits hush (ignore (cg_destroy K cg))"
    for q f cg and r :: "'x res"
    by (intro emits_intros create_parts_hush; simp)+
  have resources: "emits hush (given (bu_resources b) (cg_apply K cg))" for cg
    by (intro emits_intros create_parts_hush)
  have spawned: "converses K rt_end Idle (on_result (seq_p (given (bu_resources b) (cg_apply K cg))
        (spawn K l b opts r ov fl jn ns cg clk)) (\<lambda>outcome. case outcome of
       Inr finished \<Rightarrow> ret finished | Inl e \<Rightarrow> seq_p (ignore (cg_destroy K cg)) (fail e))) created_end"
    for r ov fl jn ns cg clk
    by (rule converses_result [OF hush_seq [OF resources start spawn_talks]])
      (auto intro!: converses_ret converses_fail hush_seq [OF ops(3)])
  show ?thesis
    unfolding build_def Let_def case_prod_beta
    by (rule spawned converses_fail converses_if start hush_bind hush_seq ops before_cgroup_hush emits_lift_res emits_ask | simp split del: if_split)+
qed

lemma create_talks: "converses K rt_end Idle (create K l b opts clock) created_end"
proof -
  have start: "rt_end Idle" by (simp add: rt_end_def)
  have ops: "emits hush (ask K (Query q) f)" "emits hush (do_op K c (Fs op))" "emits hush (ignore (do_op K c (Fs op)))"
    for q f c op
    by (intro emits_intros; simp)+
  have built: "converses K rt_end Idle (on_result (build K l b opts clock) (\<lambda>r. case r of
       Inr finished \<Rightarrow> ret finished
     | Inl e \<Rightarrow> seq_p (ignore (do_op K SyscallErr (Fs (RmDirAll dir)))) (fail e))) created_end" for dir
    by (rule converses_result [OF build_talks]) (auto intro!: converses_ret converses_fail hush_seq [OF ops(3)])
  show ?thesis
    unfolding create_def Let_def
    by (rule built converses_fail converses_if start hush_bind hush_seq ops create_parts_hush)+
qed

text \<open>
  C8: every process that creating a container gives rise to follows its role in the handshake.
  Whatever the kernel and the peers do, the runtime succeeds only at the end of its role, after the
  init reported that it is ready, and fails without a breach of the protocol; the intermediate process
  and the init do not go on with the command, and they are at the end of their roles or have ended the
  conversation with their failure.
\<close>

theorem handshake_follows_protocol:
  assumes "talk_of K h = Idle"
  shows "wp (create K l b opts clock)
    (\<lambda>finished h'. if finished = None then child_end (talk_of K h') else talk_of K h' = RtReady)
    (\<lambda>_ h'. rt_end (talk_of K h')) h"
  using conversesD [OF create_talks assms] by (simp add: created_end_def)

definition some_options :: create_options where
  "some_options = \<lparr>cr_id = ''c1'', cr_pid_file = None, cr_console_socket = None, cr_rootless = False\<rparr>"

definition no_phases :: recorder where
  "no_phases = \<lparr>rc_origin = 0, rc_wall_origin = 0, rc_phases = [], rc_open = None\<rparr>"

lemma handshake_follows_protocol_witness:
  "wp (create one_created \<lparr>root = ''/run''\<rparr> \<lparr>bu_dir = ''/b'', bu_spec = plain_spec\<rparr> some_options no_phases)
    (\<lambda>finished h'. if finished = None then child_end (talk_of one_created h') else talk_of one_created h' = RtReady)
    (\<lambda>_ h'. rt_end (talk_of one_created h')) [Time Now]"
  by (rule handshake_follows_protocol) simp

end
