(* ===== verification/Deadlock.thy ===== *)
theory Deadlock
  imports Handshake
begin

text \<open>
  The roles of the handshake together. A configuration holds where each process is in the conversation
  and the messages in transit in either direction; the intermediate process and the init read from the
  same end. Its steps are those the roles allow, the failures of any process at any moment, and the
  closing of the channel when no process holds its other end.
\<close>

record peers =
  runtime :: talk
  inter :: talk
  container :: talk
  up :: "message list"
  down :: "message list"

definition begun :: peers where
  "begun = \<lparr>runtime = RtListening, inter = InterFresh, container = Idle, up = [], down = []\<rparr>"

text \<open>The ends of the channel: a process that is over, or has left by the end of its role, holds none.\<close>

definition gone :: "talk \<Rightarrow> bool" where
  "gone t \<longleftrightarrow> t \<in> {Idle, RtReady, RtOver, InterDone, ChildOver}"

definition going :: "talk \<Rightarrow> bool" where
  "going t \<longleftrightarrow> t \<noteq> Lost \<and> \<not> gone t"

text \<open>What the processes do when nothing fails.\<close>

inductive talk_on :: "peers \<Rightarrow> peers \<Rightarrow> bool" where
  runtime_says: "say (runtime c) m = t \<Longrightarrow> t \<noteq> Lost \<Longrightarrow> rt_role t \<Longrightarrow>
     talk_on c (c\<lparr>runtime := t, down := down c @ [m]\<rparr>)"
| runtime_hears: "listens (runtime c) \<Longrightarrow> up c = m # q \<Longrightarrow> talk_on c (c\<lparr>runtime := hear (runtime c) m, up := q\<rparr>)"
| runtime_alone: "listens (runtime c) \<Longrightarrow> up c = [] \<Longrightarrow> gone (inter c) \<Longrightarrow> gone (container c) \<Longrightarrow>
     talk_on c (c\<lparr>runtime := RtOver\<rparr>)"
| inter_says: "say (inter c) m = t \<Longrightarrow> t \<notin> {Lost, ChildOver} \<Longrightarrow> talk_on c (c\<lparr>inter := t, up := up c @ [m]\<rparr>)"
| inter_hears: "listens (inter c) \<Longrightarrow> down c = m # q \<Longrightarrow> talk_on c (c\<lparr>inter := hear (inter c) m, down := q\<rparr>)"
| inter_alone: "listens (inter c) \<Longrightarrow> down c = [] \<Longrightarrow> gone (runtime c) \<Longrightarrow> talk_on c (c\<lparr>inter := ChildOver\<rparr>)"
| inter_forks: "inter c \<in> {InterFresh, InterMapped} \<Longrightarrow>
     talk_on c (c\<lparr>inter := forks (inter c) False, container := forks (inter c) True\<rparr>)"
| init_says: "say (container c) m = t \<Longrightarrow> t \<notin> {Lost, ChildOver} \<Longrightarrow>
     talk_on c (c\<lparr>container := t, up := up c @ [m]\<rparr>)"
| init_hears: "listens (container c) \<Longrightarrow> down c = m # q \<Longrightarrow>
     talk_on c (c\<lparr>container := hear (container c) m, down := q\<rparr>)"
| init_alone: "listens (container c) \<Longrightarrow> down c = [] \<Longrightarrow> gone (runtime c) \<Longrightarrow> talk_on c (c\<lparr>container := ChildOver\<rparr>)"

text \<open>
  Failures: the runtime gives up; a child gives up and says so, or vanishes without a word (killed, or
  unable to send).
\<close>

inductive talk_fails :: "peers \<Rightarrow> peers \<Rightarrow> bool" where
  runtime_fails: "going (runtime c) \<Longrightarrow> talk_fails c (c\<lparr>runtime := RtOver\<rparr>)"
| inter_fails: "going (inter c) \<Longrightarrow> talk_fails c (c\<lparr>inter := ChildOver, up := up c @ [Failed reason]\<rparr>)"
| init_fails: "going (container c) \<Longrightarrow> talk_fails c (c\<lparr>container := ChildOver, up := up c @ [Failed reason]\<rparr>)"
| inter_vanishes: "going (inter c) \<Longrightarrow> talk_fails c (c\<lparr>inter := ChildOver\<rparr>)"
| init_vanishes: "going (container c) \<Longrightarrow> talk_fails c (c\<lparr>container := ChildOver\<rparr>)"

text \<open>The configurations after so many steps.\<close>

inductive reached :: "nat \<Rightarrow> peers \<Rightarrow> bool" where
  begin_talk: "reached 0 begun"
| go_on: "reached n c \<Longrightarrow> talk_on c c' \<Longrightarrow> reached (Suc n) c'"
| give_up: "reached n c \<Longrightarrow> talk_fails c c' \<Longrightarrow> reached (Suc n) c'"

section \<open>The invariant\<close>

text \<open>
  What is under way, for each point of the two children: the point of the runtime, the messages up and
  down. Reports of failures come behind what the child said before, except that the init may fail
  before the intermediate process has sent its pid.
\<close>

fun is_failed :: "message \<Rightarrow> bool" where
  "is_failed (Failed _) = True"
| "is_failed _ = False"

fun is_init_pid :: "message \<Rightarrow> bool" where
  "is_init_pid (InitPid _ _) = True"
| "is_init_pid _ = False"

definition before_pid :: "talk \<Rightarrow> bool" where
  "before_pid r \<longleftrightarrow> r = RtListening \<or> r = RtMapped"

inductive under_way :: "talk \<Rightarrow> talk \<Rightarrow> talk \<Rightarrow> message list \<Rightarrow> message list \<Rightarrow> bool" where
  fresh: "under_way RtListening InterFresh Idle [] []"
| asked: "under_way RtListening InterAsked Idle [RequestUserMapping] []"
| mapping: "under_way RtMapping InterAsked Idle [] []"
| answered: "under_way RtMapped InterAsked Idle [] [UserMappingDone]"
| mapped: "under_way RtMapped InterMapped Idle [] []"
| forked: "before_pid r \<Longrightarrow> under_way r InterForked InitWaiting [] []"
| introduced: "before_pid r \<Longrightarrow> is_init_pid m \<Longrightarrow> under_way r InterDone InitWaiting [m] []"
| placing: "under_way RtPlacing InterDone InitWaiting [] []"
| released: "under_way RtReleased InterDone InitWaiting [] [CgroupApplied pid]"
| placed: "under_way RtReleased InterDone InitPlaced [] []"
| reported: "under_way RtReleased InterDone InitDone [InitReady phases] []"
| ready: "under_way RtReady InterDone InitDone [] []"
| fresh_over: "under_way RtOver InterFresh Idle u []"
| asked_over: "under_way RtOver InterAsked Idle u []"
| answered_over: "under_way RtOver InterAsked Idle u [UserMappingDone]"
| mapped_over: "under_way RtOver InterMapped Idle u []"
| forked_over: "under_way RtOver InterForked InitWaiting u []"
| waiting_over: "under_way RtOver InterDone InitWaiting u []"
| released_over: "under_way RtOver InterDone InitWaiting u [CgroupApplied pid]"
| init_over: "n \<in> {InitPlaced, InitDone, ChildOver} \<Longrightarrow> under_way RtOver InterDone n u d"
| asked_failed: "list_all is_failed u \<Longrightarrow> under_way RtListening ChildOver Idle (RequestUserMapping # u) d"
| inter_failed: "r \<in> {RtListening, RtMapping, RtMapped} \<Longrightarrow> list_all is_failed u \<Longrightarrow> under_way r ChildOver Idle u d"
| init_alone: "before_pid r \<Longrightarrow> list_all is_failed u \<Longrightarrow> under_way r ChildOver InitWaiting u []"
| init_alone_over: "under_way RtOver ChildOver InitWaiting u []"
| both_failed: "before_pid r \<Longrightarrow> list_all is_failed u \<Longrightarrow> under_way r ChildOver ChildOver u d"
| failed_over: "n \<in> {Idle, ChildOver} \<Longrightarrow> under_way RtOver ChildOver n u d"
| early_failed: "before_pid r \<Longrightarrow> list_all is_failed u \<Longrightarrow> under_way r InterForked ChildOver u d"
| early_failed_over: "under_way RtOver InterForked ChildOver u d"
| failed_before_pid: "before_pid r \<Longrightarrow> is_failed f \<Longrightarrow> under_way r InterDone ChildOver (f # u) d"
| failed_after_pid: "before_pid r \<Longrightarrow> is_init_pid m \<Longrightarrow> list_all is_failed u \<Longrightarrow> under_way r InterDone ChildOver (m # u) d"
| init_failed: "r \<in> {RtPlacing, RtReleased} \<Longrightarrow> list_all is_failed u \<Longrightarrow> under_way r InterDone ChildOver u d"
| failed_reported: "list_all is_failed u \<Longrightarrow> under_way RtReleased InterDone ChildOver (InitReady phases # u) d"
| failed_ready: "under_way RtReady InterDone ChildOver u d"

abbreviation consistent :: "peers \<Rightarrow> bool" where
  "consistent c \<equiv> under_way (runtime c) (inter c) (container c) (up c) (down c)"

lemma is_failed_iff: "is_failed m \<longleftrightarrow> (\<exists>reason. m = Failed reason)"
  by (cases m) auto

lemma is_init_pid_iff: "is_init_pid m \<longleftrightarrow> (\<exists>pid phases. m = InitPid pid phases)"
  by (cases m) auto

lemmas hearing = hear_def refuse_def over_def listens_def rt_role_def child_role_def before_pid_def
  is_failed_iff is_init_pid_iff

lemma runtime_says_consistent:
  assumes "under_way r i n u d" "say r m = t" "t \<noteq> Lost" "rt_role t"
  shows "under_way t i n u (d @ [m])"
  using assms
  by (cases rule: under_way.cases)
    (auto simp: say_def rt_role_def child_role_def before_pid_def split: message.splits if_splits intro: under_way.intros)

lemma runtime_hears_consistent:
  assumes "under_way r i n (m # u) d" "listens r"
  shows "under_way (hear r m) i n u d"
  using assms
  by (cases rule: under_way.cases) (auto simp: hearing intro: under_way.intros)

lemma runtime_over_consistent:
  assumes "under_way r i n u d" "going r \<or> listens r \<and> gone i \<and> gone n"
  shows "under_way RtOver i n u d"
  using assms
  by (cases rule: under_way.cases) (auto simp: going_def gone_def listens_def before_pid_def intro: under_way.intros)

lemma inter_says_consistent:
  assumes "under_way r i n u d" "say i m = t" "t \<notin> {Lost, ChildOver}"
  shows "under_way r t n (u @ [m]) d"
proof (cases "i = InterForked \<and> n = ChildOver \<and> r \<noteq> RtOver")
  case True
  with assms have "list_all is_failed u" "before_pid r" "is_init_pid m" "t = InterDone"
    by (auto elim!: under_way.cases simp: say_def split: message.splits if_splits)
  then show ?thesis using True by (cases u) (auto intro: under_way.intros)
next
  case False
  with assms show ?thesis
    by (cases rule: under_way.cases)
      (auto simp: say_def child_role_def before_pid_def split: message.splits if_splits intro: under_way.intros)
qed

lemma inter_hears_consistent:
  assumes "under_way r i n u (m # d)" "listens i"
  shows "under_way r (hear i m) n u d"
  using assms by (cases rule: under_way.cases) (auto simp: hearing intro: under_way.intros)

lemma inter_forks_consistent:
  assumes "under_way r i n u d" "i \<in> {InterFresh, InterMapped}"
  shows "under_way r (forks i False) (forks i True) u d"
  using assms by (cases rule: under_way.cases) (auto simp: forks_def before_pid_def intro: under_way.intros)

lemma init_says_consistent:
  assumes "under_way r i n u d" "say n m = t" "t \<notin> {Lost, ChildOver}"
  shows "under_way r i t (u @ [m]) d"
  using assms
  by (cases rule: under_way.cases)
    (auto simp: say_def child_role_def before_pid_def split: message.splits if_splits intro: under_way.intros)

lemma init_hears_consistent:
  assumes "under_way r i n u (m # d)" "listens n"
  shows "under_way r i (hear n m) u d"
  using assms by (cases rule: under_way.cases) (auto simp: hearing intro: under_way.intros)

lemma failed_end: "list_all is_failed u \<Longrightarrow> list_all is_failed (u @ [Failed reason])"
  by simp

lemma inter_over_consistent:
  assumes "under_way r i n u d" "going i"
  shows "under_way r ChildOver n u d" "under_way r ChildOver n (u @ [Failed reason]) d"
  using assms
  by (cases rule: under_way.cases; auto simp: going_def gone_def before_pid_def intro: under_way.intros)+

lemma init_over_consistent:
  assumes "under_way r i n u d" "going n"
  shows "under_way r i ChildOver u d" "under_way r i ChildOver (u @ [Failed reason]) d"
  using assms
  by (cases rule: under_way.cases; auto simp: going_def gone_def before_pid_def is_init_pid_iff intro: under_way.intros)+

lemma reached_consistent: "reached n c \<Longrightarrow> consistent c"
proof (induction rule: reached.induct)
  case begin_talk
  show ?case by (simp add: begun_def under_way.intros)
next
  case (go_on n c c')
  from go_on.hyps(2) go_on.IH show ?case
    by (cases rule: talk_on.cases)
      (auto simp: going_def gone_def listens_def
        intro: runtime_says_consistent runtime_hears_consistent runtime_over_consistent inter_says_consistent
          inter_hears_consistent inter_forks_consistent init_says_consistent init_hears_consistent
          inter_over_consistent(1) init_over_consistent(1))
next
  case (give_up n c c')
  from give_up.hyps(2) give_up.IH show ?case
    by (cases rule: talk_fails.cases)
      (auto intro: runtime_over_consistent inter_over_consistent init_over_consistent)
qed

section \<open>The conversation goes forward\<close>

text \<open>
  The points of a conversation are ordered by how many steps the process can still make; a step of a
  process leads to a later point.
\<close>

fun moves_left :: "talk \<Rightarrow> nat" where
  "moves_left RtListening = 6" | "moves_left RtMapping = 5" | "moves_left RtMapped = 4" | "moves_left RtPlacing = 3"
| "moves_left RtReleased = 2" | "moves_left InterFresh = 5" | "moves_left InterAsked = 4" | "moves_left InterMapped = 3"
| "moves_left InterForked = 2" | "moves_left Idle = 8" | "moves_left Opened = 7" | "moves_left InitWaiting = 3" | "moves_left InitPlaced = 2"
| "moves_left InitDone = 1" | "moves_left _ = 0"

instantiation talk :: preorder
begin

definition less_eq_talk :: "talk \<Rightarrow> talk \<Rightarrow> bool" where
  "less_eq_talk t u \<longleftrightarrow> moves_left u \<le> moves_left t"

definition less_talk :: "talk \<Rightarrow> talk \<Rightarrow> bool" where
  "less_talk t u \<longleftrightarrow> moves_left u < moves_left t"

instance
  by standard (auto simp: less_eq_talk_def less_talk_def)

end

lemma later_points:
  "listens t \<Longrightarrow> t < hear t m" "say t m \<notin> {Lost, ChildOver} \<Longrightarrow> t < say t m" "going t \<Longrightarrow> t < RtOver"
  "going t \<Longrightarrow> t < ChildOver" "listens t \<Longrightarrow> t < RtOver" "listens t \<Longrightarrow> t < ChildOver"
  by (auto simp: less_talk_def talk_defs going_def gone_def split: message.splits if_splits)
    (cases t; simp)+

text \<open>The init, before it is forked, has all of its own steps left.\<close>

definition steps_left :: "peers \<Rightarrow> nat" where
  "steps_left c = moves_left (runtime c) + moves_left (inter c)
     + (if container c = Idle then moves_left InitWaiting else moves_left (container c))"

lemma no_init_before_fork:
  "under_way r i n u d \<Longrightarrow> i \<in> {InterFresh, InterMapped} \<Longrightarrow> n = Idle"
  by (erule under_way.cases) auto

lemma fewer_moves:
  "listens t \<Longrightarrow> moves_left (hear t m) < moves_left t"
  "say t m = u \<Longrightarrow> u \<noteq> Lost \<Longrightarrow> u \<noteq> ChildOver \<Longrightarrow> moves_left u < moves_left t"
  "listens t \<or> going t \<Longrightarrow> 0 < moves_left t"
  using later_points(1,2) [of t m] later_points(3,5) [of t] by (auto simp: less_talk_def)

lemma unborn: "\<not> listens Idle" "\<not> going Idle" "say Idle m = Lost" "hear t m \<noteq> Idle" "say t m \<noteq> Idle"
  by (auto simp: going_def gone_def talk_defs split: message.split)

lemma steps_decrease:
  assumes "consistent c" "talk_on c c' \<or> talk_fails c c'"
  shows "steps_left c' < steps_left c"
proof -
  have rt: "u \<noteq> ChildOver" if "rt_role u" for u using that by (auto simp: rt_role_def)
  from assms(2) show ?thesis
  proof
    assume "talk_on c c'"
    then show ?thesis
    proof (cases rule: talk_on.cases)
      case (runtime_says m t)
      with fewer_moves(2) [of "runtime c" m t] rt show ?thesis by (simp add: steps_left_def)
    next
      case inter_forks
      with no_init_before_fork [OF assms(1)] show ?thesis by (auto simp: steps_left_def forks_def)
    next
      case (inter_says m t)
      with fewer_moves(2) [of "inter c" m t] show ?thesis by (simp add: steps_left_def)
    next
      case (init_says m t)
      with fewer_moves(2) [of "container c" m t] unborn(3,5) show ?thesis by (auto simp: steps_left_def)
    next
      case (init_hears m q)
      with fewer_moves(1) [of "container c" m] unborn(1,4) show ?thesis by (auto simp: steps_left_def)
    next
      case init_alone
      with fewer_moves(3) [of "container c"] unborn(1) show ?thesis by (auto simp: steps_left_def)
    qed (use fewer_moves(1,3) in \<open>simp add: steps_left_def\<close>)+
  next
    assume "talk_fails c c'"
    then show ?thesis
    proof (cases rule: talk_fails.cases)
      case (init_fails reason)
      with fewer_moves(3) [of "container c"] unborn(2) show ?thesis by (auto simp: steps_left_def)
    next
      case init_vanishes
      with fewer_moves(3) [of "container c"] unborn(2) show ?thesis by (auto simp: steps_left_def)
    qed (use fewer_moves(3) in \<open>simp add: steps_left_def\<close>)+
  qed
qed

lemma reached_bounded: "reached n c \<Longrightarrow> n + steps_left c \<le> 14"
proof (induction rule: reached.induct)
  case begin_talk
  show ?case by (simp add: steps_left_def begun_def)
next
  case (go_on n c c')
  with steps_decrease [OF reached_consistent [OF go_on.hyps(1)]] show ?case by fastforce
next
  case (give_up n c c')
  with steps_decrease [OF reached_consistent [OF give_up.hyps(1)]] show ?case by fastforce
qed

section \<open>Nobody is misunderstood or left waiting\<close>

text \<open>
  What the code does with a message it reads at a point where it waits for one: \<open>misread\<close> says that it
  takes it for a breach of the protocol.
\<close>

fun reading :: "talk \<Rightarrow> message \<Rightarrow> message res" where
  "reading RtListening m = (if m = RequestUserMapping then Inr m else and_then (expect_init_pid m) (\<lambda>_. Inr m))"
| "reading RtMapped m = and_then (expect_init_pid m) (\<lambda>_. Inr m)"
| "reading RtReleased m = expected ''InitReady'' m"
| "reading InterAsked m = expected ''UserMappingDone'' m"
| "reading InitWaiting m = expected ''CgroupApplied'' m"
| "reading _ m = Inr m"

definition misread :: "talk \<Rightarrow> message list \<Rightarrow> bool" where
  "misread t q \<longleftrightarrow> (\<exists>m rest text. listens t \<and> q = m # rest \<and> reading t m = Inl (SyncErr text))"

definition settled :: "peers \<Rightarrow> bool" where
  "settled c \<longleftrightarrow> gone (runtime c) \<and> gone (inter c) \<and> (gone (container c) \<or> container c = InitDone)"

definition abandoned :: "peers \<Rightarrow> bool" where
  "abandoned c \<longleftrightarrow> before_pid (runtime c) \<and> inter c = ChildOver \<and> container c = InitWaiting \<and> up c = [] \<and> down c = []"

lemma runtime_understands: "under_way r i n u d \<Longrightarrow> \<not> misread r u"
  by (erule under_way.cases)
    (auto simp: misread_def listens_def before_pid_def is_init_pid_iff is_failed_iff expected_def expect_init_pid_def
      list_all_iff split: list.splits)

lemma children_understand: "under_way r i n u d \<Longrightarrow> \<not> misread i d \<and> \<not> misread n d"
  by (erule under_way.cases) (auto simp: misread_def listens_def expected_def)

text \<open>Where nobody can go on, everybody has left, except in one case.\<close>

lemma talk_onI:
  "runtime c = RtMapping \<Longrightarrow> \<exists>c'. talk_on c c'" "runtime c = RtPlacing \<Longrightarrow> \<exists>c'. talk_on c c'"
  "listens (runtime c) \<Longrightarrow> up c \<noteq> [] \<Longrightarrow> \<exists>c'. talk_on c c'"
  "listens (runtime c) \<Longrightarrow> gone (inter c) \<Longrightarrow> gone (container c) \<Longrightarrow> \<exists>c'. talk_on c c'"
  "inter c \<in> {InterFresh, InterMapped} \<Longrightarrow> \<exists>c'. talk_on c c'" "inter c = InterForked \<Longrightarrow> \<exists>c'. talk_on c c'"
  "listens (inter c) \<Longrightarrow> down c \<noteq> [] \<or> gone (runtime c) \<Longrightarrow> \<exists>c'. talk_on c c'"
  "container c = InitPlaced \<Longrightarrow> \<exists>c'. talk_on c c'"
  "listens (container c) \<Longrightarrow> down c \<noteq> [] \<or> gone (runtime c) \<Longrightarrow> \<exists>c'. talk_on c c'"
proof -
  show "\<exists>c'. talk_on c c'" if "runtime c = RtMapping"
    using runtime_says [of c UserMappingDone RtMapped] that by (auto simp: say_def)
  show "\<exists>c'. talk_on c c'" if "runtime c = RtPlacing"
    using runtime_says [of c "CgroupApplied 0" RtReleased] that by (auto simp: say_def)
  show "\<exists>c'. talk_on c c'" if "listens (runtime c)" "up c \<noteq> []"
    using that by (cases "up c") (auto intro: runtime_hears)
  show "\<exists>c'. talk_on c c'" if "listens (runtime c)" "gone (inter c)" "gone (container c)"
    using that by (cases "up c") (auto intro: runtime_hears runtime_alone)
  show "\<exists>c'. talk_on c c'" if "inter c \<in> {InterFresh, InterMapped}" using that by (auto intro: inter_forks)
  show "\<exists>c'. talk_on c c'" if "inter c = InterForked"
    using inter_says [of c "InitPid 0 []" InterDone] that by (auto simp: say_def)
  show "\<exists>c'. talk_on c c'" if "listens (inter c)" "down c \<noteq> [] \<or> gone (runtime c)"
    using that by (cases "down c") (auto intro: inter_hears inter_alone)
  show "\<exists>c'. talk_on c c'" if "container c = InitPlaced"
    using init_says [of c "InitReady []" InitDone] that by (auto simp: say_def)
  show "\<exists>c'. talk_on c c'" if "listens (container c)" "down c \<noteq> [] \<or> gone (runtime c)"
    using that by (cases "down c") (auto intro: init_hears talk_on.init_alone)
qed

lemma stuck_cases:
  assumes "consistent c" "\<not> (\<exists>c'. talk_on c c')"
  shows "settled c \<or> abandoned c"
proof -
  note no = talk_onI [of c]
  from assms(1) show ?thesis
    by (cases rule: under_way.cases)
      (use assms(2) no in \<open>auto simp: settled_def abandoned_def gone_def listens_def before_pid_def\<close>)
qed



text \<open>
  The exception can happen: the runtime waits for the pid of an init that itself waits for the
  runtime, and as the init holds the other end of the channel neither ever finds it closed.
\<close>

lemma handshake_can_hang: "\<exists>n c. reached n c \<and> abandoned c \<and> \<not> (\<exists>c'. talk_on c c')"
proof -
  let ?c1 = "begun\<lparr>inter := InterForked, container := InitWaiting\<rparr>"
  let ?c2 = "?c1\<lparr>inter := ChildOver\<rparr>"
  have "talk_on begun ?c1" using inter_forks [of begun] by (simp add: begun_def forks_def)
  then have one: "reached (Suc 0) ?c1" using go_on [OF begin_talk] by simp
  have "talk_fails ?c1 ?c2" using inter_vanishes [of ?c1] by (simp add: begun_def going_def gone_def)
  with one have "reached (Suc (Suc 0)) ?c2" by (rule give_up)
  moreover have "abandoned ?c2" by (simp add: abandoned_def begun_def before_pid_def)
  moreover have "\<not> talk_on ?c2 c'" for c'
    by (auto simp: begun_def listens_def gone_def say_def rt_role_def child_role_def
        elim!: talk_on.cases split: message.splits if_splits)
  ultimately show ?thesis by blast
qed

end
